(* ===== verification/Prelude.thy ===== *)
theory Prelude
  imports Main "HOL-Library.Word" "HOL-Library.Char_ord" "HOL-Library.List_Lexorder"
begin

text \<open>
  Shared vocabulary of the development: the identifiers, the result type of the reducers
  (\<open>Result<T, Rejection>\<close> of \<open>crates/core/src/lib.rs\<close>), the machine integers with Rust's checked
  operations, and the collections of simplification rules the components extend.
\<close>

named_theorems decide_simps \<open>definitions and equations of the decide functions\<close>
named_theorems evolve_simps \<open>definitions and equations of the evolve functions\<close>
named_theorems inv_simps \<open>definitions of the components' invariants\<close>

section \<open>Identifiers\<close>

text \<open>
  Every newtype of \<open>crates/core/src/ids.rs\<close> wraps one \<open>String\<close> and is compared for equality and
  order only, so each is a name for \<^typ>\<open>string\<close>. The order of \<^typ>\<open>string\<close> is the
  byte-wise lexicographic order that Rust's \<open>Ord for String\<close> has.
\<close>

type_synonym authority_id = string
type_synonym public_key = string
type_synonym key_id = string
type_synonym device_id = string
type_synonym bridge_grant_id = string
type_synonym client_request_id = string
type_synonym nonce = string
type_synonym u8 = "8 word"
type_synonym u32 = "32 word"
type_synonym u64 = "64 word"

section \<open>Results\<close>

datatype rejection = Rejection (reason: string)

type_synonym 'a outcome = "rejection + 'a"

abbreviation reject :: "string \<Rightarrow> 'a outcome" where
  "reject r \<equiv> Inl (Rejection r)"

abbreviation is_ok :: "'e + 'a \<Rightarrow> bool" where
  "is_ok r \<equiv> (\<exists>x. r = Inr x)"

text \<open>The dash in some reasons, as its three UTF-8 bytes.\<close>

definition em_dash :: string where
  "em_dash = [CHR 0xE2, CHR 0x80, CHR 0x94]"

text \<open>Rust's \<open>?\<close> operator: stop at the first error, else go on with the value.\<close>

definition and_then :: "'e + 'a \<Rightarrow> ('a \<Rightarrow> 'e + 'b) \<Rightarrow> 'e + 'b" where
  "and_then r f = (case r of Inl e \<Rightarrow> Inl e | Inr x \<Rightarrow> f x)"

lemma and_then_simps [simp]:
  "and_then (Inl e) f = Inl e"
  "and_then (Inr x) f = f x"
  by (simp_all add: and_then_def)

lemma and_then_Inr: "and_then r f = Inr y \<longleftrightarrow> (\<exists>x. r = Inr x \<and> f x = Inr y)"
  by (cases r) auto

lemma and_then_cong [fundef_cong]:
  "r = r' \<Longrightarrow> (\<And>x. r' = Inr x \<Longrightarrow> f x = g x) \<Longrightarrow> and_then r f = and_then r' g"
  by (cases r') auto

text \<open>
  A guarded acceptance succeeds exactly when its guard holds: these turn a successful
  \<open>decide\<close> into the facts its guards checked. The equation for the result is oriented so that
  the simplifier replaces the variable by the concrete events.
\<close>

declare sum.inject(2) [simp del]

lemma Inr_eq_iff [simp]: "Inr x = Inr y \<longleftrightarrow> y = x"
  by (auto simp: sum.inject(2))

lemma if_Inr_Inl [simp]:
  "(if b then Inr x else Inl e) = Inr y \<longleftrightarrow> b \<and> y = x"
  "(if b then Inl e else r) = Inr y \<longleftrightarrow> \<not> b \<and> r = Inr y"
  "(if b then Inr x else Inl e) = Inl e' \<longleftrightarrow> \<not> b \<and> e' = e"
  by auto

lemma not_ok_iff [simp]: "(\<nexists>x. r = Inr x) \<longleftrightarrow> (\<exists>e. r = Inl e)"
  by (cases r) auto

section \<open>Checked machine arithmetic\<close>

definition checked_add :: "'a::len word \<Rightarrow> 'a word \<Rightarrow> 'a word option" where
  "checked_add a b = (if unat a + unat b < 2 ^ LENGTH('a) then Some (a + b) else None)"

lemma checked_add_Some:
  fixes a b c :: "'a::len word"
  assumes "checked_add a b = Some c"
  shows "unat c = unat a + unat b"
  using assms by (auto simp: checked_add_def unat_word_ariths split: if_splits)

lemma checked_add_wrap [code]: "checked_add a b = (if a \<le> a + b then Some (a + b) else None)"
  by (simp add: checked_add_def no_olen_add_nat)

definition saturating_add :: "'a::len word \<Rightarrow> 'a word \<Rightarrow> 'a word" where
  "saturating_add a b = (case checked_add a b of Some c \<Rightarrow> c | None \<Rightarrow> - 1)"

lemma saturating_add_nonzero: "b \<noteq> 0 \<Longrightarrow> saturating_add a b \<noteq> 0"
proof
  assume "b \<noteq> 0" and zero: "saturating_add a b = 0"
  show False
  proof (cases "checked_add a b")
    case None
    with zero show False by (simp add: saturating_add_def)
  next
    case (Some c)
    with zero have "unat a + unat b = 0" using checked_add_Some [OF Some] by (simp add: saturating_add_def)
    with \<open>b \<noteq> 0\<close> show False by (simp add: unat_eq_0)
  qed
qed

section \<open>Lists and sets\<close>

lemma foldl_invariant:
  assumes "P s" and "\<And>s x. P s \<Longrightarrow> x \<in> set xs \<Longrightarrow> P (f s x)"
  shows "P (foldl f s xs)"
  using assms by (induction xs arbitrary: s) auto

text \<open>Where an element stands in a log that one more event extends.\<close>

lemma snoc_eq_split:
  "es @ [e] = xs @ x # ys \<longleftrightarrow>
     (ys = [] \<and> xs = es \<and> x = e) \<or> (\<exists>zs. ys = zs @ [e] \<and> es = xs @ x # zs)"
  by (cases ys rule: rev_cases) auto

lemma single_eq_split: "[e] = xs @ x # ys \<longleftrightarrow> xs = [] \<and> ys = [] \<and> x = e"
  by (cases xs) auto

lemma snoc2_eq_split:
  "es @ [d, e] = xs @ x # ys \<longleftrightarrow>
     (ys = [] \<and> xs = es @ [d] \<and> x = e) \<or> (ys = [e] \<and> xs = es \<and> x = d) \<or>
     (\<exists>zs. ys = zs @ [d, e] \<and> es = xs @ x # zs)"
proof -
  have "es @ [d, e] = (es @ [d]) @ [e]" by simp
  then show ?thesis by (simp only: snoc_eq_split) (auto simp: snoc_eq_split)
qed

text \<open>
  \<open>stands x B es\<close>: the event \<open>x\<close> is in the log \<open>es\<close> and no event of \<open>B\<close>, the events that undo
  it, comes after.
\<close>

definition stands :: "'a \<Rightarrow> 'a set \<Rightarrow> 'a list \<Rightarrow> bool" where
  "stands x B es \<longleftrightarrow> (\<exists>xs ys. es = xs @ x # ys \<and> set ys \<inter> B = {})"

lemma stands_Nil [simp]: "\<not> stands x B []"
  by (simp add: stands_def)

lemma stands_snoc [simp]:
  "stands x B (es @ [e]) \<longleftrightarrow> e = x \<or> (e \<notin> B \<and> stands x B es)"
proof
  assume "stands x B (es @ [e])"
  then obtain xs ys where "es @ [e] = xs @ x # ys" "set ys \<inter> B = {}"
    by (auto simp: stands_def)
  then show "e = x \<or> (e \<notin> B \<and> stands x B es)"
    by (cases ys rule: rev_cases) (auto simp: stands_def)
next
  assume "e = x \<or> (e \<notin> B \<and> stands x B es)"
  then consider "e = x" | xs ys where "es = xs @ x # ys" "set ys \<inter> B = {}" "e \<notin> B"
    by (auto simp: stands_def)
  then show "stands x B (es @ [e])"
  proof cases
    case 1
    then show ?thesis unfolding stands_def
      by (intro exI [where x = es] exI [where x = "[]"]) simp
  next
    case (2 xs ys)
    then show ?thesis unfolding stands_def
      by (intro exI [where x = xs] exI [where x = "ys @ [e]"]) simp
  qed
qed

lemma stands_single [simp]: "stands x B [e] \<longleftrightarrow> e = x"
  using stands_snoc [of x B "[]" e] by simp

lemma stands_snoc2 [simp]:
  "stands x B (es @ [d, e]) \<longleftrightarrow> e = x \<or> (e \<notin> B \<and> (d = x \<or> (d \<notin> B \<and> stands x B es)))"
proof -
  have "es @ [d, e] = (es @ [d]) @ [e]" by simp
  then show ?thesis by (simp only: stands_snoc)
qed

lemma stands_mem: "stands x B es \<Longrightarrow> x \<in> set es"
  by (auto simp: stands_def)

text \<open>Some element of a list, together with the elements before it, has a property.\<close>

definition some_at :: "('a list \<Rightarrow> 'a \<Rightarrow> bool) \<Rightarrow> 'a list \<Rightarrow> bool" where
  "some_at P es \<longleftrightarrow> (\<exists>xs x ys. es = xs @ x # ys \<and> P xs x)"

lemma some_at_simps [simp]:
  "\<not> some_at P []"
  "some_at P (es @ [e]) \<longleftrightarrow> some_at P es \<or> P es e"
  unfolding some_at_def snoc_eq_split by blast+

definition every_at :: "('a list \<Rightarrow> 'a \<Rightarrow> bool) \<Rightarrow> 'a list \<Rightarrow> bool" where
  "every_at P es \<longleftrightarrow> (\<forall>xs x ys. es = xs @ x # ys \<longrightarrow> P xs x)"

lemma every_at_simps [simp]:
  "every_at P []"
  "every_at P (es @ [e]) \<longleftrightarrow> every_at P es \<and> P es e"
  unfolding every_at_def snoc_eq_split by blast+

lemma every_atD: "every_at P es \<Longrightarrow> es = xs @ x # ys \<Longrightarrow> P xs x"
  by (simp add: every_at_def)

lemma filter_sort_key:
  "filter P (sort_key f xs) = sort_key f (filter P xs)"
  by (rule filter_sort)

section \<open>Bytes and decimal numerals\<close>

text \<open>A \<open>String\<close> is its UTF-8 bytes, one \<open>char\<close> each; \<open>into_bytes\<close> is \<open>bytes_of\<close>, and \<open>format!\<close>
  prints an unsigned integer as \<open>decimal\<close>.\<close>

definition bytes_of :: "string \<Rightarrow> u8 list" where
  "bytes_of s = map (\<lambda>c. word_of_nat (of_char c)) s"

fun decimal :: "nat \<Rightarrow> string" where
  "decimal n = (if n < 10 then [char_of (48 + n)]
                else decimal (n div 10) @ [char_of (48 + n mod 10)])"

declare decimal.simps [simp del]

lemma bytes_of_inj: "bytes_of s = bytes_of t \<longleftrightarrow> s = t"
proof -
  have "inj (\<lambda>c. word_of_nat (of_char c) :: u8)"
  proof (rule injI)
    fix c d :: char
    assume "(word_of_nat (of_char c) :: u8) = word_of_nat (of_char d)"
    from arg_cong [OF this, of unat]
    have "(of_char c :: nat) mod 256 = of_char d mod 256"
      by (simp add: unat_of_nat)
    then show "c = d" by simp
  qed
  then show ?thesis by (simp add: bytes_of_def inj_map_eq_map)
qed

lemma decimal_value:
  "foldl (\<lambda>a c. 10 * a + (of_char c - 48)) 0 (decimal n) = (n :: nat)"
proof (induction n rule: decimal.induct)
  case (1 n)
  show ?case
  proof (cases "n < 10")
    case True
    then show ?thesis by (simp add: decimal.simps)
  next
    case False
    have "n mod 10 < 10" by simp
    with 1 False show ?thesis by (simp add: decimal.simps [of n])
  qed
qed

lemma decimal_inj: "decimal m = decimal n \<longleftrightarrow> m = n"
  by (metis decimal_value)

lemma decimal_no_colon [simp]: "CHR '':'' \<notin> set (decimal n)"
proof (induction n rule: decimal.induct)
  case (1 n)
  have "CHR '':'' \<noteq> char_of (48 + k)" if "k < 10" for k :: nat
  proof
    assume "CHR '':'' = char_of (48 + k)"
    from arg_cong [OF this, of "of_char :: char \<Rightarrow> nat"] that show False by simp
  qed
  with 1 show ?case by (cases "n < 10") (simp_all add: decimal.simps [of n])
qed

section \<open>Blank strings\<close>

text \<open>
  \<open>str::trim\<close> strips the code points with the property \<open>White_Space\<close>. \<open>ws_len\<close> is the number of bytes
  of such a code point at the head of a string, 0 if there is none.
\<close>

fun ws_len :: "string \<Rightarrow> nat" where
  "ws_len [] = 0"
| "ws_len (c # cs) =
     (let b = map of_char (take 3 (c # cs)) :: nat list
      in if hd b \<in> {9, 10, 11, 12, 13, 32} then 1
         else if take 2 b \<in> {[194, 133], [194, 160]} then 2
         else if b \<in> {[225, 154, 128], [226, 128, 168], [226, 128, 169], [226, 128, 175],
                       [226, 129, 159], [227, 128, 128]} then 3
         else if take 2 b = [226, 128] \<and> length b = 3 \<and> 128 \<le> b ! 2 \<and> b ! 2 \<le> 138 then 3
         else 0)"

function blank :: "string \<Rightarrow> bool" where
  "blank s =
     (if s = [] then True
      else if ws_len s = 0 then False
      else blank (drop (ws_len s) s))"
  by auto
termination by (relation "measure length") auto

declare blank.simps [simp del]

lemma blank_Nil [simp]: "blank []"
  by (simp add: blank.simps)

text \<open>\<open>char::is_control\<close> of some code point: C0, DEL, or C1, whose bytes are C2 and 80 to 9F.\<close>

fun has_control :: "string \<Rightarrow> bool" where
  "has_control [] = False"
| "has_control (c # cs) =
     ((of_char c :: nat) < 32 \<or> (of_char c :: nat) = 127 \<or>
      ((of_char c :: nat) = 194 \<and>
        (case cs of [] \<Rightarrow> False | d # _ \<Rightarrow> 128 \<le> (of_char d :: nat) \<and> (of_char d :: nat) < 160)) \<or>
      has_control cs)"

lemma not_blank_Cons: "ws_len (c # cs) = 0 \<Longrightarrow> \<not> blank (c # cs)"
  by (simp add: blank.simps)

end
