(* ===== verification/Lifecycle.thy ===== *)
theory Lifecycle
  imports Prelude
begin

text \<open>
  The \<open>Lifecycle\<close> trait of \<open>crates/core/src/lib.rs\<close>: every reducer of the core is a
  \<open>(decide, evolve)\<close> pair over a default state. The trait is a record of its associated items
  (dictionary passing); the bounds \<open>Event: Serialize + DeserializeOwned\<close> are the two
  serialisation functions of \<^typ>\<open>string\<close>, which the serde crates provide and which are therefore
  parameters. The locale \<open>lifecycle_invariant\<close> is the contract every reducer offers the event store:
  an invariant of its default state that every admitted command preserves.
\<close>

section \<open>The trait\<close>

record 's snapshot_codec =
  sc_lifecycle :: string
  sc_version :: u32
  sc_every :: u32
  sc_encode :: "'s \<Rightarrow> string option"
  sc_decode :: "string \<Rightarrow> 's option"

record 'e serde =
  to_json :: "'e \<Rightarrow> string"
  from_json :: "string \<Rightarrow> 'e option"

record ('s, 'c, 'e) lifecycle =
  lc_kind :: string
  lc_default :: 's
  lc_decide :: "'s \<Rightarrow> 'c \<Rightarrow> 'e list outcome"
  lc_evolve :: "'s \<Rightarrow> 'e \<Rightarrow> 's"
  lc_serde :: "'e serde"
  lc_snapshot_codec :: "'s snapshot_codec option"

text \<open>\<open>DEFAULT_SNAPSHOT_INTERVAL\<close>, \<open>SnapshotCodec::serde\<close> over a given state encoding, and
  \<open>SnapshotCodec::every\<close>.\<close>

definition DEFAULT_SNAPSHOT_INTERVAL :: u32 where
  "DEFAULT_SNAPSHOT_INTERVAL = 64"

definition snapshot_codec_serde ::
  "string \<Rightarrow> u32 \<Rightarrow> ('s \<Rightarrow> string option) \<Rightarrow> (string \<Rightarrow> 's option) \<Rightarrow> 's snapshot_codec" where
  "snapshot_codec_serde name version enc dec =
     \<lparr>sc_lifecycle = name, sc_version = version, sc_every = DEFAULT_SNAPSHOT_INTERVAL,
      sc_encode = enc, sc_decode = dec\<rparr>"

definition snapshot_codec_every :: "'s snapshot_codec \<Rightarrow> u32 \<Rightarrow> 's snapshot_codec" where
  "snapshot_codec_every c n = c\<lparr>sc_every := max n 1\<rparr>"

section \<open>Folding and admitting\<close>

text \<open>State is the fold of the events; a rejected command changes nothing.\<close>

definition lc_fold :: "('s, 'c, 'e) lifecycle \<Rightarrow> 's \<Rightarrow> 'e list \<Rightarrow> 's" where
  "lc_fold L s es = foldl (lc_evolve L) s es"

definition lc_apply :: "('s, 'c, 'e) lifecycle \<Rightarrow> 's \<Rightarrow> 'c \<Rightarrow> 's" where
  "lc_apply L s c = (case lc_decide L s c of Inl _ \<Rightarrow> s | Inr es \<Rightarrow> lc_fold L s es)"

definition lc_drive :: "('s, 'c, 'e) lifecycle \<Rightarrow> 's \<Rightarrow> 'c list \<Rightarrow> 's" where
  "lc_drive L s cs = foldl (lc_apply L) s cs"

text \<open>The events a command sequence leaves in the log, in order.\<close>

fun lc_log :: "('s, 'c, 'e) lifecycle \<Rightarrow> 's \<Rightarrow> 'c list \<Rightarrow> 'e list" where
  "lc_log L s [] = []"
| "lc_log L s (c # cs) =
     (case lc_decide L s c of
        Inl _ \<Rightarrow> lc_log L s cs
      | Inr es \<Rightarrow> es @ lc_log L (lc_fold L s es) cs)"

lemma lc_fold_simps [simp]:
  "lc_fold L s [] = s"
  "lc_fold L s (e # es) = lc_fold L (lc_evolve L s e) es"
  "lc_fold L s (es @ fs) = lc_fold L (lc_fold L s es) fs"
  by (simp_all add: lc_fold_def)

lemma lc_drive_simps [simp]:
  "lc_drive L s [] = s"
  "lc_drive L s (c # cs) = lc_drive L (lc_apply L s c) cs"
  "lc_drive L s (cs @ ds) = lc_drive L (lc_drive L s cs) ds"
  by (simp_all add: lc_drive_def)

lemma lc_apply_ok: "lc_decide L s c = Inr es \<Longrightarrow> lc_apply L s c = lc_fold L s es"
  by (simp add: lc_apply_def)

lemma lc_apply_rejected: "lc_decide L s c = Inl r \<Longrightarrow> lc_apply L s c = s"
  by (simp add: lc_apply_def)

lemma lc_log_append [simp]: "lc_log L s (cs @ ds) = lc_log L s cs @ lc_log L (lc_drive L s cs) ds"
  by (induction cs arbitrary: s) (auto simp: lc_apply_def split: sum.splits)

text \<open>State is the fold of the log (\<open>INV-8\<close>).\<close>

lemma lc_fold_log: "lc_fold L s (lc_log L s cs) = lc_drive L s cs"
  by (induction cs arbitrary: s) (auto simp: lc_apply_def split: sum.splits)

inductive lc_step :: "('s, 'c, 'e) lifecycle \<Rightarrow> 's \<Rightarrow> 's \<Rightarrow> bool" for L where
  admitted: "lc_decide L s c = Inr es \<Longrightarrow> lc_step L s (lc_fold L s es)"

inductive lc_reachable :: "('s, 'c, 'e) lifecycle \<Rightarrow> 's \<Rightarrow> bool" for L where
  default: "lc_reachable L (lc_default L)"
| step: "lc_reachable L s \<Longrightarrow> lc_step L s t \<Longrightarrow> lc_reachable L t"

inductive_cases lc_stepE: "lc_step L s t"

lemma lc_reachable_apply: "lc_reachable L s \<Longrightarrow> lc_reachable L (lc_apply L s c)"
  by (cases "lc_decide L s c")
     (auto simp: lc_apply_def intro: lc_reachable.step lc_step.admitted)

lemma lc_reachable_drive: "lc_reachable L s \<Longrightarrow> lc_reachable L (lc_drive L s cs)"
  by (induction cs arbitrary: s) (auto intro: lc_reachable_apply)

text \<open>The reachable states are exactly the ends of command sequences from the default state.\<close>

lemma lc_reachable_iff_drive:
  "lc_reachable L s \<longleftrightarrow> (\<exists>cs. s = lc_drive L (lc_default L) cs)"
proof
  assume "lc_reachable L s"
  then show "\<exists>cs. s = lc_drive L (lc_default L) cs"
  proof (induction rule: lc_reachable.induct)
    case default
    show ?case by (rule exI [where x = "[]"]) simp
  next
    case (step s t)
    then obtain cs where s: "s = lc_drive L (lc_default L) cs" by blast
    from step.hyps(2) obtain c es where "lc_decide L s c = Inr es" and "t = lc_fold L s es"
      by (auto elim: lc_stepE)
    with s have "t = lc_drive L (lc_default L) (cs @ [c])" by (simp add: lc_apply_ok)
    then show ?case by blast
  qed
next
  assume "\<exists>cs. s = lc_drive L (lc_default L) cs"
  then show "lc_reachable L s" by (auto intro: lc_reachable_drive lc_reachable.default)
qed

section \<open>The contract a reducer offers\<close>

text \<open>
  The general form relates the log so far to the state it folds to; an invariant of the state
  alone is the special case that ignores the log.
\<close>

locale lifecycle_trace =
  fixes L :: "('s, 'c, 'e) lifecycle"
    and tinv :: "'e list \<Rightarrow> 's \<Rightarrow> bool"
  assumes tinv_default: "tinv [] (lc_default L)"
    and tinv_decide:
      "tinv es s \<Longrightarrow> lc_decide L s c = Inr fs \<Longrightarrow> tinv (es @ fs) (lc_fold L s fs)"
begin

lemma log_tinv: "tinv (lc_log L (lc_default L) cs) (lc_drive L (lc_default L) cs)"
proof (induction cs rule: rev_induct)
  case Nil
  show ?case by (simp add: tinv_default)
next
  case (snoc c cs)
  let ?s = "lc_drive L (lc_default L) cs"
  show ?case
  proof (cases "lc_decide L ?s c")
    case (Inl r)
    with snoc show ?thesis by (simp add: lc_apply_rejected)
  next
    case (Inr es)
    with snoc show ?thesis by (simp add: lc_apply_ok tinv_decide)
  qed
qed

end

locale lifecycle_invariant =
  fixes L :: "('s, 'c, 'e) lifecycle"
    and inv :: "'s \<Rightarrow> bool"
  assumes inv_default: "inv (lc_default L)"
    and inv_decide: "inv s \<Longrightarrow> lc_decide L s c = Inr es \<Longrightarrow> inv (lc_fold L s es)"
begin

lemma inv_step: "lc_step L s t \<Longrightarrow> inv s \<Longrightarrow> inv t"
  by (auto elim: lc_stepE intro: inv_decide)

lemma reachable_inv: "lc_reachable L s \<Longrightarrow> inv s"
  by (induction rule: lc_reachable.induct) (auto intro: inv_default inv_step)

lemma apply_inv: "inv s \<Longrightarrow> inv (lc_apply L s c)"
  by (cases "lc_decide L s c") (auto simp: lc_apply_def intro: inv_decide)

lemma drive_inv: "inv s \<Longrightarrow> inv (lc_drive L s cs)"
  by (induction cs arbitrary: s) (auto intro: apply_inv)

end

sublocale lifecycle_invariant \<subseteq> trace: lifecycle_trace L "\<lambda>_. inv"
  by unfold_locales (auto intro: inv_default inv_decide)

section \<open>Scope authority\<close>

text \<open>
  \<open>determine_scope_authority\<close>: the second colon-separated segment of a scope name, or the whole
  name when there is none or it is empty. \<open>split_colon\<close> is \<open>str::split(':')\<close>.
\<close>

fun split_colon :: "string \<Rightarrow> string list" where
  "split_colon [] = [[]]"
| "split_colon (c # cs) =
     (if c = CHR '':'' then [] # split_colon cs
      else case split_colon cs of [] \<Rightarrow> [[c]] | seg # segs \<Rightarrow> (c # seg) # segs)"

definition determine_scope_authority :: "string \<Rightarrow> authority_id" where
  "determine_scope_authority scope =
     (case split_colon scope of
        _ # authority # _ \<Rightarrow> if authority = [] then scope else authority
      | _ \<Rightarrow> scope)"

lemma split_colon_no_colon: "CHR '':'' \<notin> set s \<Longrightarrow> split_colon s = [s]"
  by (induction s) auto

lemma split_colon_append:
  "CHR '':'' \<notin> set s \<Longrightarrow> split_colon (s @ CHR '':'' # t) = s # split_colon t"
  by (induction s) auto

lemma split_colon_hd:
  "CHR '':'' \<notin> set s \<Longrightarrow> \<exists>segs. split_colon (s @ t) = (s @ hd (split_colon t)) # segs"
proof (induction s)
  case Nil
  show ?case by (cases t) (auto split: list.splits)
next
  case (Cons c s)
  then show ?case by auto
qed

end
