(* ===== verification/Run.thy ===== *)
theory Run
  imports Lifecycle
begin

text \<open>
  The agent run lifecycle, \<open>crates/core/src/run.rs\<close>: one episode of agent work. A run reaches
  \<open>Running\<close> only from \<open>Admitted\<close>, a retry starts over and needs a new admission, and optimistic client
  commands are pending only while the run is running. The counter of observations wraps at \<open>2^32\<close>, as
  in a release build (a debug build panics there).
\<close>

section \<open>States, commands, events\<close>

datatype run_phase = Init | Requested | Admitted | Running | Completed | Failed | Canceled

record run_state =
  phase :: run_phase
  admitted_once :: bool
  observations :: u32
  pending_commands :: "client_request_id list"

definition run_default :: run_state where
  "run_default = \<lparr>phase = Init, admitted_once = False, observations = 0, pending_commands = []\<rparr>"

datatype run_command =
    RequestRun
  | AdmitRun
  | StartRun
  | RecordObservation
  | RecordPending client_request_id
  | Reconcile client_request_id
  | CompleteRun
  | FailRun
  | CancelRun
  | RetryRun

datatype run_event =
    RunRequested
  | RunAdmitted
  | RunStarted
  | ObservationRecorded
  | PendingRecorded client_request_id
  | Reconciled client_request_id
  | RunCompleted
  | RunFailed
  | RunCanceled
  | RunRetried

section \<open>The reducer\<close>

fun run_decide :: "run_state \<Rightarrow> run_command \<Rightarrow> run_event list outcome" where
  "run_decide s RequestRun =
     (if phase s = Init then Inr [RunRequested] else reject ''requestRun: not in init'')"
| "run_decide s AdmitRun =
     (if phase s = Requested then Inr [RunAdmitted] else reject ''admitRun: not requested'')"
| "run_decide s StartRun =
     (if phase s = Admitted then Inr [RunStarted] else reject ''startRun: not admitted (INV-11)'')"
| "run_decide s RecordObservation =
     (if phase s = Running then Inr [ObservationRecorded]
      else reject ''recordObservation: run is not running (INV-4)'')"
| "run_decide s (RecordPending rid) =
     (if phase s = Running \<and> rid \<notin> set (pending_commands s) then Inr [PendingRecorded rid]
      else if phase s = Running then reject ''recordPending: clientRequestId already pending''
      else reject ''recordPending: run is not running (MOB-003)'')"
| "run_decide s (Reconcile rid) =
     (if rid \<in> set (pending_commands s) then Inr [Reconciled rid]
      else reject ''reconcile: clientRequestId is not pending'')"
| "run_decide s CompleteRun =
     (if phase s = Running then Inr [RunCompleted] else reject ''completeRun: not running'')"
| "run_decide s FailRun =
     (if phase s = Running then Inr [RunFailed] else reject ''failRun: not running'')"
| "run_decide s CancelRun =
     (if phase s \<in> {Requested, Admitted, Running} then Inr [RunCanceled]
      else reject ''cancelRun: already terminal'')"
| "run_decide s RetryRun =
     (if phase s \<in> {Completed, Failed, Canceled} then Inr [RunRetried]
      else reject ''retryRun: run is not terminal'')"

text \<open>The closure \<open>terminal\<close> of \<open>evolve\<close>: a terminal state holds no pending commands.\<close>

definition run_terminal :: "run_state \<Rightarrow> run_phase \<Rightarrow> bool \<Rightarrow> run_state" where
  "run_terminal s p admitted =
     \<lparr>phase = p, admitted_once = admitted, observations = observations s, pending_commands = []\<rparr>"

fun run_evolve :: "run_state \<Rightarrow> run_event \<Rightarrow> run_state" where
  "run_evolve s RunRequested = s\<lparr>phase := Requested\<rparr>"
| "run_evolve s RunAdmitted = s\<lparr>phase := Admitted, admitted_once := True\<rparr>"
| "run_evolve s RunStarted = s\<lparr>phase := Running\<rparr>"
| "run_evolve s ObservationRecorded = s\<lparr>observations := observations s + 1\<rparr>"
| "run_evolve s (PendingRecorded rid) = s\<lparr>pending_commands := pending_commands s @ [rid]\<rparr>"
| "run_evolve s (Reconciled rid) =
     s\<lparr>pending_commands := filter (\<lambda>p. p \<noteq> rid) (pending_commands s)\<rparr>"
| "run_evolve s RunCompleted = run_terminal s Completed (admitted_once s)"
| "run_evolve s RunFailed = run_terminal s Failed (admitted_once s)"
| "run_evolve s RunCanceled = run_terminal s Canceled (admitted_once s)"
| "run_evolve s RunRetried =
     \<lparr>phase = Requested, admitted_once = False, observations = 0, pending_commands = []\<rparr>"

text \<open>
  \<open>impl Lifecycle for RunState\<close>. The serialised forms (serde JSON for events, CBOR for the
  checkpointed state) are parameters.
\<close>

definition run_lifecycle ::
  "run_event serde \<Rightarrow> (run_state \<Rightarrow> string option) \<Rightarrow> (string \<Rightarrow> run_state option)
     \<Rightarrow> (run_state, run_command, run_event) lifecycle" where
  "run_lifecycle sd enc dec =
     \<lparr>lc_kind = ''run'', lc_default = run_default, lc_decide = run_decide, lc_evolve = run_evolve,
      lc_serde = sd, lc_snapshot_codec = Some (snapshot_codec_serde ''run'' 1 enc dec)\<rparr>"

lemma run_lifecycle_simps [simp]:
  "lc_default (run_lifecycle sd enc dec) = run_default"
  "lc_decide (run_lifecycle sd enc dec) = run_decide"
  "lc_evolve (run_lifecycle sd enc dec) = run_evolve"
  by (simp_all add: run_lifecycle_def)

section \<open>Invariant\<close>

text \<open>
  The reachable states: a run past \<open>Requested\<close> was admitted (unless it was cancelled first), evidence
  exists only on an admitted run, and pending commands only on a running one, each once.
\<close>

definition run_inv :: "run_state \<Rightarrow> bool" where
  "run_inv s \<longleftrightarrow>
     (phase s \<in> {Admitted, Running, Completed, Failed} \<longrightarrow> admitted_once s) \<and>
     (phase s \<in> {Init, Requested} \<longrightarrow> \<not> admitted_once s) \<and>
     (observations s \<noteq> 0 \<longrightarrow> admitted_once s) \<and>
     (pending_commands s \<noteq> [] \<longrightarrow> phase s = Running) \<and>
     distinct (pending_commands s)"

lemma run_decide_inv:
  assumes "run_inv s" and "run_decide s c = Inr es"
  shows "run_inv (lc_fold (run_lifecycle sd enc dec) s es)"
  using assms
  by (cases c; cases "phase s")
     (auto simp: run_inv_def run_terminal_def filter_empty_conv split: if_splits)

interpretation run_law: lifecycle_invariant "run_lifecycle sd enc dec" run_inv
  by unfold_locales (simp add: run_default_def run_inv_def, auto intro: run_decide_inv)

section \<open>Every start consumes its own admission\<close>

text \<open>
  \<open>unspent_admission es\<close>: the log holds an admission that no start has used and no retry has
  voided since.
\<close>

definition unspent_admission :: "run_event list \<Rightarrow> bool" where
  "unspent_admission es \<longleftrightarrow> stands RunAdmitted {RunStarted, RunRetried} es"

definition starts_admitted :: "run_event list \<Rightarrow> bool" where
  "starts_admitted es \<longleftrightarrow>
     (\<forall>xs ys. es = xs @ RunStarted # ys \<longrightarrow> unspent_admission xs)"

definition run_tinv :: "run_event list \<Rightarrow> run_state \<Rightarrow> bool" where
  "run_tinv es s \<longleftrightarrow> starts_admitted es \<and> (phase s = Admitted \<longrightarrow> unspent_admission es)"

lemma starts_admitted_snoc:
  "starts_admitted (es @ [e]) \<longleftrightarrow>
     starts_admitted es \<and> (e = RunStarted \<longrightarrow> unspent_admission es)"
  by (auto simp: starts_admitted_def snoc_eq_split)

lemma run_decide_tinv:
  assumes "run_tinv es s" and "run_decide s c = Inr fs"
  shows "run_tinv (es @ fs) (lc_fold (run_lifecycle sd enc dec) s fs)"
  using assms
  by (cases c)
     (auto simp: run_tinv_def run_terminal_def starts_admitted_snoc unspent_admission_def
       split: if_splits)

interpretation run_trace: lifecycle_trace "run_lifecycle sd enc dec" run_tinv
  by unfold_locales
     (simp add: run_tinv_def starts_admitted_def run_default_def, auto intro: run_decide_tinv)

section \<open>Properties\<close>

text \<open>
  C6. Execution consumes admitted work (\<open>INV-11\<close>): in the log of any command sequence, every start
  of a run is preceded by an admission that no earlier start used and no retry voided. In
  particular a retried run is re-admitted before it runs again.
\<close>

theorem run_start_consumes_admission:
  assumes "lc_log (run_lifecycle sd enc dec) run_default cs = xs @ RunStarted # ys"
  shows "stands RunAdmitted {RunStarted, RunRetried} xs"
  using run_trace.log_tinv [of sd enc dec cs] assms
  by (auto simp: run_tinv_def starts_admitted_def unspent_admission_def)

theorem run_start_consumes_admission_witness:
  "stands RunAdmitted {RunStarted, RunRetried}
     [RunRequested, RunAdmitted, RunStarted, RunFailed, RunRetried, RunAdmitted]"
  by (rule run_start_consumes_admission [where ys = "[]" and enc = "\<lambda>_. None" and dec = "\<lambda>_. None"
        and sd = "\<lparr>to_json = (\<lambda>_. []), from_json = (\<lambda>_. None)\<rparr>" and
        cs = "[RequestRun, AdmitRun, StartRun, FailRun, RetryRun, StartRun, AdmitRun, StartRun]"])
     (simp add: run_default_def run_terminal_def)

text \<open>
  Evidence and optimistic commands in every reachable state (\<open>INV-4\<close>, \<open>MOB-003\<close>): a run that
  is running, completed or failed was admitted; recorded observations exist only on an admitted
  run; pending client commands exist only while the run is running and no request id is pending
  twice.
\<close>

theorem run_reachable_evidence:
  assumes "lc_reachable (run_lifecycle sd enc dec) s"
  shows "(phase s \<in> {Running, Completed, Failed} \<longrightarrow> admitted_once s) \<and>
    (observations s \<noteq> 0 \<longrightarrow> admitted_once s) \<and>
    (pending_commands s \<noteq> [] \<longrightarrow> phase s = Running) \<and> distinct (pending_commands s)"
  using run_law.reachable_inv [OF assms] by (simp add: run_inv_def)

theorem run_reachable_evidence_witness:
  "(let s = lc_drive (run_lifecycle \<lparr>to_json = (\<lambda>_. []), from_json = (\<lambda>_. None)\<rparr> (\<lambda>_. None) (\<lambda>_. None))
             run_default [RequestRun, AdmitRun, StartRun, RecordObservation, RecordPending ''c1'']
    in observations s = 1 \<and> pending_commands s = [''c1''] \<and> phase s = Running \<and> admitted_once s)"
proof -
  let ?L = "run_lifecycle \<lparr>to_json = (\<lambda>_. []), from_json = (\<lambda>_. None)\<rparr> (\<lambda>_. None) (\<lambda>_. None)"
  let ?s = "lc_drive ?L run_default
    [RequestRun, AdmitRun, StartRun, RecordObservation, RecordPending ''c1'']"
  have "lc_reachable ?L ?s"
    using lc_reachable_drive [OF lc_reachable.default] by (metis run_lifecycle_simps(1))
  from run_reachable_evidence [OF this]
  have "observations ?s \<noteq> 0 \<longrightarrow> admitted_once ?s" and "pending_commands ?s \<noteq> [] \<longrightarrow> phase ?s = Running"
    by blast+
  moreover have "observations ?s = 1" and "pending_commands ?s = [''c1'']"
    by (simp_all add: lc_apply_def run_default_def)
  ultimately show ?thesis by (simp add: Let_def)
qed

text \<open>
  No run is stuck: from every state some sequence of commands leads to a completed run, so a
  run that failed or was cancelled can always be retried, re-admitted and completed.
\<close>

theorem run_completion_attainable:
  "\<exists>cs. phase (lc_drive (run_lifecycle sd enc dec) s cs) = Completed"
proof -
  let ?L = "run_lifecycle sd enc dec"
  have running: "phase t = Running \<Longrightarrow> phase (lc_drive ?L t [CompleteRun]) = Completed" for t
    by (simp add: lc_apply_def run_terminal_def)
  have admitted: "phase t = Admitted \<Longrightarrow> phase (lc_drive ?L t [StartRun, CompleteRun]) = Completed" for t
    by (simp add: lc_apply_def run_terminal_def)
  have requested: "phase t = Requested \<Longrightarrow>
      phase (lc_drive ?L t [AdmitRun, StartRun, CompleteRun]) = Completed" for t
    by (simp add: lc_apply_def run_terminal_def)
  have init: "phase t = Init \<Longrightarrow>
      phase (lc_drive ?L t [RequestRun, AdmitRun, StartRun, CompleteRun]) = Completed" for t
    by (simp add: lc_apply_def run_terminal_def)
  have ended: "phase t \<in> {Failed, Canceled} \<Longrightarrow>
      phase (lc_drive ?L t [RetryRun, AdmitRun, StartRun, CompleteRun]) = Completed" for t
    by (auto simp: lc_apply_def run_terminal_def)
  have completed: "phase t = Completed \<Longrightarrow> phase (lc_drive ?L t []) = Completed" for t
    by simp
  show ?thesis
    by (cases "phase s") (metis running admitted requested init ended completed insertCI)+
qed

end
