(* ===== verification/Review.thy ===== *)
theory Review
  imports Lifecycle
begin

text \<open>
  The output review and release lifecycle, \<open>crates/core/src/review.rs\<close>: an output is released only
  after every required stakeholder consented, and no consent was withdrawn since.
\<close>

section \<open>States, commands, events\<close>

datatype review_phase = Init | Proposed | Cleared | Released | Withheld

record review_state =
  phase :: review_phase
  required :: "authority_id set"
  consented :: "authority_id set"

definition review_default :: review_state where
  "review_default = \<lparr>phase = Init, required = {}, consented = {}\<rparr>"

datatype review_command =
    Propose "authority_id set"
  | Consent authority_id
  | Reject authority_id
  | Revoke authority_id
  | Release
  | Cancel

datatype review_event =
    ProposedEv "authority_id set"
  | Consented authority_id
  | ClearedEv
  | Rejected authority_id
  | ConsentRevoked authority_id
  | ReleasedEv
  | WithheldEv string

section \<open>The reducer\<close>

fun review_decide :: "review_state \<Rightarrow> review_command \<Rightarrow> review_event list outcome" where
  "review_decide s (Propose req) =
     (if phase s = Init then Inr [ProposedEv req] else reject ''propose: an instance already exists'')"
| "review_decide s (Consent a) =
     (if \<not> (phase s = Proposed \<and> a \<in> required s \<and> a \<notin> consented s)
      then reject ''consent: not a pending required stakeholder''
      else if insert a (consented s) = required s then Inr [Consented a, ClearedEv]
      else Inr [Consented a])"
| "review_decide s (Reject a) =
     (if phase s \<in> {Proposed, Cleared} \<and> a \<in> required s then Inr [Rejected a]
      else reject ''reject: not a required stakeholder in a reviewable phase'')"
| "review_decide s (Revoke a) =
     (if phase s \<in> {Proposed, Cleared} \<and> a \<in> consented s then Inr [ConsentRevoked a]
      else reject (''revoke: nothing to revoke (or already released '' @ em_dash @ '' INV-18)''))"
| "review_decide s Release =
     (if phase s = Cleared then Inr [ReleasedEv] else reject ''release: not cleared'')"
| "review_decide s Cancel =
     (if phase s \<in> {Proposed, Cleared} then Inr [WithheldEv ''canceled'']
      else reject ''cancel: no pending proposal'')"

fun review_evolve :: "review_state \<Rightarrow> review_event \<Rightarrow> review_state" where
  "review_evolve s (ProposedEv req) = s\<lparr>phase := Proposed, required := req, consented := {}\<rparr>"
| "review_evolve s (Consented a) = s\<lparr>consented := insert a (consented s)\<rparr>"
| "review_evolve s ClearedEv = s\<lparr>phase := Cleared\<rparr>"
| "review_evolve s (Rejected _) = s\<lparr>phase := Withheld\<rparr>"
| "review_evolve s (ConsentRevoked a) = s\<lparr>consented := consented s - {a}, phase := Proposed\<rparr>"
| "review_evolve s ReleasedEv = s\<lparr>phase := Released\<rparr>"
| "review_evolve s (WithheldEv _) = s\<lparr>phase := Withheld\<rparr>"

definition review_lifecycle ::
  "review_event serde \<Rightarrow> (review_state, review_command, review_event) lifecycle" where
  "review_lifecycle sd =
     \<lparr>lc_kind = ''review'', lc_default = review_default, lc_decide = review_decide,
      lc_evolve = review_evolve, lc_serde = sd, lc_snapshot_codec = None\<rparr>"

lemma review_lifecycle_simps [simp]:
  "lc_default (review_lifecycle sd) = review_default"
  "lc_decide (review_lifecycle sd) = review_decide"
  "lc_evolve (review_lifecycle sd) = review_evolve"
  by (simp_all add: review_lifecycle_def)

section \<open>Standing consent\<close>

text \<open>An authority's consent stands in a log when it is not followed by its revocation.\<close>

definition standing :: "review_event list \<Rightarrow> authority_id set" where
  "standing es = {a. stands (Consented a) {ConsentRevoked a} es}"

section \<open>Invariant relating log and state\<close>

definition proposals :: "review_event list \<Rightarrow> authority_id set list" where
  "proposals es = concat (map (\<lambda>e. case e of ProposedEv r \<Rightarrow> [r] | _ \<Rightarrow> []) es)"

lemma proposals_simps [simp]:
  "proposals [] = []"
  "proposals (e # es) = (case e of ProposedEv r \<Rightarrow> [r] | _ \<Rightarrow> []) @ proposals es"
  "proposals (es @ fs) = proposals es @ proposals fs"
  by (simp_all add: proposals_def)

definition review_tinv :: "review_event list \<Rightarrow> review_state \<Rightarrow> bool" where
  "review_tinv es s \<longleftrightarrow>
     consented s = standing es \<and> standing es \<subseteq> required s \<and>
     proposals es = (if phase s = Init then [] else [required s]) \<and>
     (phase s = Init \<longrightarrow> es = []) \<and>
     (phase s \<in> {Cleared, Released} \<longrightarrow> standing es = required s \<and> required s \<noteq> {}) \<and>
     (\<forall>xs ys. es = xs @ ReleasedEv # ys \<longrightarrow> ys = [] \<and> phase s = Released)"

lemma standing_snocs [simp]:
  "standing [] = {}"
  "standing [ProposedEv r] = {}"
  "standing (es @ [ProposedEv r]) = standing es"
  "standing (es @ [Consented a]) = insert a (standing es)"
  "standing (es @ [Consented a, ClearedEv]) = insert a (standing es)"
  "standing (es @ [ConsentRevoked a]) = standing es - {a}"
  "standing (es @ [Rejected a]) = standing es"
  "standing (es @ [ReleasedEv]) = standing es"
  "standing (es @ [WithheldEv w]) = standing es"
  by (auto simp: standing_def)

lemma review_decide_tinv:
  assumes inv: "review_tinv es s" and ok: "review_decide s c = Inr fs"
  shows "review_tinv (es @ fs) (lc_fold (review_lifecycle sd) s fs)"
proof -
  have np: "phase s \<noteq> Released"
    using ok by (cases c) (auto split: if_splits)
  then have nr: "es \<noteq> xs @ ReleasedEv # ys" for xs ys
    using inv by (auto simp: review_tinv_def)
  show ?thesis
  proof (cases c)
    case (Consent a)
    with inv ok nr show ?thesis
      by (auto simp: review_tinv_def snoc_eq_split snoc2_eq_split split: if_splits)
  qed (use inv ok nr in \<open>auto simp: review_tinv_def snoc_eq_split single_eq_split split: if_splits\<close>)
qed

interpretation review_trace: lifecycle_trace "review_lifecycle sd" review_tinv
  by unfold_locales (simp add: review_tinv_def review_default_def, auto intro: review_decide_tinv)

section \<open>Properties\<close>

text \<open>
  C4. Safe release (\<open>INV-16\<close>): whatever commands were issued, when a release is in the log then
  exactly one proposal came before it, its set of required stakeholders is not empty, every one of
  them consented with no later revocation, and the release is the last event of the log.
\<close>

theorem review_safe_release:
  assumes "lc_log (review_lifecycle sd) review_default cs = xs @ ReleasedEv # ys"
  shows "\<exists>R. proposals xs = [R] \<and> R \<noteq> {} \<and>
    (\<forall>a\<in>R. stands (Consented a) {ConsentRevoked a} xs) \<and> ys = []"
proof -
  let ?s = "lc_drive (review_lifecycle sd) review_default cs"
  have inv: "review_tinv (xs @ ReleasedEv # ys) ?s"
    using review_trace.log_tinv [of sd cs] assms by simp
  then have "ys = []" and "phase ?s = Released" by (auto simp: review_tinv_def)
  with inv have "proposals xs = [required ?s]" "required ?s \<noteq> {}" "standing xs = required ?s"
    by (auto simp: review_tinv_def)
  with \<open>ys = []\<close> show ?thesis by (auto simp: standing_def)
qed

theorem review_safe_release_witness:
  "\<exists>R. proposals [ProposedEv {''A''}, Consented ''A'', ClearedEv] = [R] \<and> R \<noteq> {} \<and>
    (\<forall>a\<in>R. stands (Consented a) {ConsentRevoked a}
       [ProposedEv {''A''}, Consented ''A'', ClearedEv]) \<and> [] = ([] :: review_event list)"
  by (rule review_safe_release [where cs = "[Propose {''A''}, Consent ''A'', Release]"
        and sd = "\<lparr>to_json = (\<lambda>_. []), from_json = (\<lambda>_. None)\<rparr>"])
     (simp add: review_default_def)

lemma drive_consents:
  assumes "phase s = Proposed" and "set as = required s - consented s" and "distinct as"
    and "as \<noteq> []" and "consented s \<subseteq> required s"
  shows "lc_drive (review_lifecycle sd) s (map Consent as) =
    s\<lparr>phase := Cleared, consented := required s\<rparr>"
  using assms
proof (induction as arbitrary: s)
  case Nil
  then show ?case by simp
next
  case (Cons a as)
  from Cons.prems have a: "a \<in> required s" "a \<notin> consented s" "a \<notin> set as" by auto
  show ?case
  proof (cases "as = []")
    case True
    with Cons.prems have "insert a (consented s) = required s" by auto
    with True a Cons.prems(1) show ?thesis by (simp add: lc_apply_def)
  next
    case False
    with Cons.prems a have "insert a (consented s) \<noteq> required s"
      by (cases as) auto
    with a Cons.prems(1)
    have "lc_apply (review_lifecycle sd) s (Consent a) = s\<lparr>consented := insert a (consented s)\<rparr>"
      by (simp add: lc_apply_def)
    with False Cons.prems a Cons.IH [of "s\<lparr>consented := insert a (consented s)\<rparr>"]
    show ?thesis by auto
  qed
qed

text \<open>
  Release is attainable in any order of consent: once every required stakeholder has
  consented, whatever the order, the release command is admitted.
\<close>

theorem review_release_attainable:
  assumes "distinct as" and "as \<noteq> []"
  shows "phase (lc_drive (review_lifecycle sd) review_default
    (Propose (set as) # map Consent as @ [Release])) = Released"
proof -
  let ?p = "\<lparr>phase = Proposed, required = set as, consented = {}\<rparr> :: review_state"
  have "lc_apply (review_lifecycle sd) review_default (Propose (set as)) = ?p"
    by (simp add: lc_apply_def review_default_def)
  moreover have "lc_drive (review_lifecycle sd) ?p (map Consent as) =
      \<lparr>phase = Cleared, required = set as, consented = set as\<rparr>"
    using assms by (simp add: drive_consents)
  ultimately show ?thesis by (simp add: lc_apply_def)
qed

theorem review_release_attainable_witness:
  "phase (lc_drive (review_lifecycle \<lparr>to_json = (\<lambda>_. []), from_json = (\<lambda>_. None)\<rparr>) review_default
    (Propose (set [''B'', ''A'']) # map Consent [''B'', ''A''] @ [Release])) = Released"
  by (rule review_release_attainable) simp_all

end
