(* ===== verification/Merge.thy ===== *)
theory Merge
  imports Lifecycle
begin

text \<open>
  The engagement-to-main merge lifecycle, \<open>crates/core/src/merge.rs\<close>. The standing line advances
  only on a clean workspace verdict and an admitted policy, or through a submitted repair, and at most
  once in each merge cycle; a conflict or a policy rejection isolates the engagement with its
  candidate and a repair context preserved.
\<close>

section \<open>States, commands, events\<close>

datatype merge_phase = Idle | Merging | Clean | Rejected | Repairing | Advanced | Integrated

datatype workspace_outcome = UnknownWorkspace | Success | Conflict

datatype policy_outcome = UnknownPolicy | AdmittedPolicy | RejectedPolicy

datatype thread_state = Current | MergePending | Isolated | RepairingThread

record merge_state =
  phase :: merge_phase
  workspace_outcome :: workspace_outcome
  policy_outcome :: policy_outcome
  candidate_preserved :: bool
  repair_context_created :: bool
  thread_state :: thread_state
  partial_merge_exposed :: bool
  standing_advanced :: bool
  standing_advance_count :: u32
  retry_keys_used :: "string set"
  boundary_command_admitted :: bool

definition merge_default :: merge_state where
  "merge_default =
     \<lparr>phase = Idle, workspace_outcome = UnknownWorkspace, policy_outcome = UnknownPolicy,
      candidate_preserved = False, repair_context_created = False, thread_state = Current,
      partial_merge_exposed = False, standing_advanced = False, standing_advance_count = 0,
      retry_keys_used = {}, boundary_command_admitted = False\<rparr>"

lemma merge_default_simps [simp]:
  "phase merge_default = Idle" "workspace_outcome merge_default = UnknownWorkspace"
  "policy_outcome merge_default = UnknownPolicy" "\<not> candidate_preserved merge_default"
  "\<not> repair_context_created merge_default" "thread_state merge_default = Current"
  "\<not> partial_merge_exposed merge_default" "\<not> standing_advanced merge_default"
  "standing_advance_count merge_default = 0" "retry_keys_used merge_default = {}"
  "\<not> boundary_command_admitted merge_default"
  by (simp_all add: merge_default_def)

datatype merge_command =
    StartMerge
  | WorkspaceClean
  | WorkspaceConflict
  | PolicyAdmit
  | PolicyReject
  | AdvanceStandingRef
  | SubmitRepair
  | RetryRepair string
  | AdmitBoundaryIntegration
  | IntegrateToMainline

datatype merge_event =
    MergeStarted
  | WorkspaceCleaned
  | WorkspaceConflicted
  | ReviewRequested
  | PolicyAdmitted
  | PolicyRejected
  | StandingRefAdvanced
  | RepairSubmitted
  | RepairRetried string
  | BoundaryIntegrationAdmitted
  | IntegratedToMainline

section \<open>The reducer\<close>

fun merge_decide :: "merge_state \<Rightarrow> merge_command \<Rightarrow> merge_event list outcome" where
  "merge_decide s StartMerge =
     (if phase s = Merging then reject ''startMerge: a merge is already running''
      else Inr [MergeStarted])"
| "merge_decide s WorkspaceClean =
     (if phase s = Merging then Inr [WorkspaceCleaned] else reject ''workspaceClean: not merging'')"
| "merge_decide s WorkspaceConflict =
     (if phase s = Merging then Inr [WorkspaceConflicted]
      else reject ''workspaceConflict: not merging'')"
| "merge_decide s PolicyAdmit =
     (if phase s = Clean \<and> workspace_outcome s = Success then Inr [PolicyAdmitted]
      else reject ''policyAdmit: not a clean merge'')"
| "merge_decide s PolicyReject =
     (if phase s = Clean then Inr [PolicyRejected] else reject ''policyReject: not a clean merge'')"
| "merge_decide s AdvanceStandingRef =
     (let gated = phase s = Clean \<and> workspace_outcome s = Success
                  \<and> policy_outcome s = AdmittedPolicy
      in if gated \<and> standing_advance_count s = 0 then Inr [StandingRefAdvanced]
         else reject ''advanceStandingRef: needs clean workspace + admitted policy, once'')"
| "merge_decide s SubmitRepair =
     (if phase s = Rejected \<and> repair_context_created s then Inr [RepairSubmitted]
      else reject ''submitRepair: no repair context'')"
| "merge_decide s (RetryRepair key) =
     (if phase s = Repairing \<and> key \<notin> retry_keys_used s \<and> standing_advance_count s = 0
      then Inr [RepairRetried key]
      else reject ''retryRepair: not repairing, key used, or already advanced'')"
| "merge_decide s AdmitBoundaryIntegration =
     (if phase s = Advanced then Inr [BoundaryIntegrationAdmitted]
      else reject ''admitBoundaryIntegration: not advanced'')"
| "merge_decide s IntegrateToMainline =
     (if phase s = Advanced \<and> boundary_command_admitted s then Inr [IntegratedToMainline]
      else reject ''integrateToMainline: needs an admitted boundary command'')"

fun merge_evolve :: "merge_state \<Rightarrow> merge_event \<Rightarrow> merge_state" where
  "merge_evolve s MergeStarted = merge_default\<lparr>phase := Merging, thread_state := MergePending\<rparr>"
| "merge_evolve s WorkspaceCleaned = s\<lparr>phase := Clean, workspace_outcome := Success\<rparr>"
| "merge_evolve s WorkspaceConflicted =
     s\<lparr>phase := Rejected, workspace_outcome := Conflict, candidate_preserved := True,
       repair_context_created := True, thread_state := Isolated\<rparr>"
| "merge_evolve s ReviewRequested = s"
| "merge_evolve s PolicyAdmitted = s\<lparr>policy_outcome := AdmittedPolicy\<rparr>"
| "merge_evolve s PolicyRejected =
     s\<lparr>phase := Rejected, policy_outcome := RejectedPolicy, candidate_preserved := True,
       repair_context_created := True, thread_state := Isolated\<rparr>"
| "merge_evolve s StandingRefAdvanced =
     s\<lparr>phase := Advanced, standing_advanced := True,
       standing_advance_count := standing_advance_count s + 1, thread_state := Current\<rparr>"
| "merge_evolve s RepairSubmitted = s\<lparr>phase := Repairing, thread_state := RepairingThread\<rparr>"
| "merge_evolve s (RepairRetried key) =
     s\<lparr>retry_keys_used := insert key (retry_keys_used s), workspace_outcome := Success,
       policy_outcome := AdmittedPolicy, standing_advanced := True,
       standing_advance_count := standing_advance_count s + 1, phase := Advanced,
       thread_state := Current\<rparr>"
| "merge_evolve s BoundaryIntegrationAdmitted = s\<lparr>boundary_command_admitted := True\<rparr>"
| "merge_evolve s IntegratedToMainline = s\<lparr>phase := Integrated\<rparr>"

definition merge_lifecycle ::
  "merge_event serde \<Rightarrow> (merge_state, merge_command, merge_event) lifecycle" where
  "merge_lifecycle sd =
     \<lparr>lc_kind = ''merge'', lc_default = merge_default, lc_decide = merge_decide,
      lc_evolve = merge_evolve, lc_serde = sd, lc_snapshot_codec = None\<rparr>"

lemma merge_lifecycle_simps [simp]:
  "lc_default (merge_lifecycle sd) = merge_default"
  "lc_decide (merge_lifecycle sd) = merge_decide"
  "lc_evolve (merge_lifecycle sd) = merge_evolve"
  by (simp_all add: merge_lifecycle_def)

section \<open>The current merge cycle of a log\<close>

text \<open>The events since the last \<open>MergeStarted\<close>, newest first.\<close>

definition merge_cycle :: "merge_event list \<Rightarrow> merge_event list" where
  "merge_cycle es = takeWhile (\<lambda>e. e \<noteq> MergeStarted) (rev es)"

definition is_advance :: "merge_event \<Rightarrow> bool" where
  "is_advance e \<longleftrightarrow> e = StandingRefAdvanced \<or> (\<exists>k. e = RepairRetried k)"

lemma merge_cycle_simps [simp]:
  "merge_cycle [] = []"
  "merge_cycle (es @ [e]) = (if e = MergeStarted then [] else e # merge_cycle es)"
  by (simp_all add: merge_cycle_def)

text \<open>What must stand in the cycle before an event of the log.\<close>

definition merge_event_justified :: "merge_event list \<Rightarrow> merge_event \<Rightarrow> bool" where
  "merge_event_justified cyc e \<longleftrightarrow>
     (case e of
        StandingRefAdvanced \<Rightarrow>
          WorkspaceCleaned \<in> set cyc \<and> PolicyAdmitted \<in> set cyc \<and>
          WorkspaceConflicted \<notin> set cyc \<and> PolicyRejected \<notin> set cyc \<and>
          (\<forall>a\<in>set cyc. \<not> is_advance a)
      | RepairRetried k \<Rightarrow>
          RepairSubmitted \<in> set cyc \<and>
          (WorkspaceConflicted \<in> set cyc \<or> PolicyRejected \<in> set cyc) \<and>
          (\<forall>a\<in>set cyc. \<not> is_advance a)
      | IntegratedToMainline \<Rightarrow>
          BoundaryIntegrationAdmitted \<in> set cyc \<and> (\<exists>a\<in>set cyc. is_advance a)
      | _ \<Rightarrow> True)"

definition merge_justified :: "merge_event list \<Rightarrow> bool" where
  "merge_justified es \<longleftrightarrow>
     (\<forall>xs e ys. es = xs @ e # ys \<longrightarrow> merge_event_justified (merge_cycle xs) e)"

lemma merge_justified_simps [simp]:
  "merge_justified []"
  "merge_justified (es @ [e]) \<longleftrightarrow>
     merge_justified es \<and> merge_event_justified (merge_cycle es) e"
  by (auto simp: merge_justified_def snoc_eq_split)

section \<open>Invariants\<close>

definition merge_inv :: "merge_state \<Rightarrow> bool" where
  "merge_inv s \<longleftrightarrow> \<not> partial_merge_exposed s \<and>
     (if phase s = Advanced \<or> phase s = Integrated
      then standing_advanced s \<and> standing_advance_count s = 1 \<and>
           workspace_outcome s = Success \<and> policy_outcome s = AdmittedPolicy
      else \<not> standing_advanced s \<and> standing_advance_count s = 0 \<and>
           \<not> boundary_command_admitted s) \<and>
     (case phase s of
        Idle \<Rightarrow> thread_state s = Current
      | Merging \<Rightarrow> thread_state s = MergePending
      | Clean \<Rightarrow> thread_state s = MergePending \<and> workspace_outcome s = Success
      | Rejected \<Rightarrow> thread_state s = Isolated \<and> candidate_preserved s \<and> repair_context_created s
      | Repairing \<Rightarrow> thread_state s = RepairingThread \<and> candidate_preserved s
          \<and> repair_context_created s
      | Advanced \<Rightarrow> thread_state s = Current
      | Integrated \<Rightarrow> thread_state s = Current \<and> boundary_command_admitted s)"

lemma merge_decide_inv:
  assumes "merge_inv s" and "merge_decide s c = Inr es"
  shows "merge_inv (lc_fold (merge_lifecycle sd) s es)"
  using assms by (cases c) (simp_all add: merge_inv_def Let_def)

interpretation merge_law: lifecycle_invariant "merge_lifecycle sd" merge_inv
  by unfold_locales (simp add: merge_inv_def, auto intro: merge_decide_inv)

text \<open>How the state reflects the current cycle of the log.\<close>

definition merge_tinv :: "merge_event list \<Rightarrow> merge_state \<Rightarrow> bool" where
  "merge_tinv es s \<longleftrightarrow> merge_justified es \<and>
     (let cyc = set (merge_cycle es); advanced = (\<exists>a\<in>cyc. is_advance a);
          refused = (WorkspaceConflicted \<in> cyc \<or> PolicyRejected \<in> cyc) in
      (boundary_command_admitted s \<longrightarrow> BoundaryIntegrationAdmitted \<in> cyc) \<and>
      (case phase s of
         Idle \<Rightarrow> cyc = {}
       | Merging \<Rightarrow> cyc = {} \<and> policy_outcome s = UnknownPolicy
       | Clean \<Rightarrow> WorkspaceCleaned \<in> cyc \<and> \<not> refused \<and> \<not> advanced
           \<and> (policy_outcome s = AdmittedPolicy \<longrightarrow> PolicyAdmitted \<in> cyc)
       | Rejected \<Rightarrow> refused \<and> \<not> advanced
       | Repairing \<Rightarrow> RepairSubmitted \<in> cyc \<and> refused \<and> \<not> advanced
       | _ \<Rightarrow> advanced))"

lemma is_advance_simps [simp]:
  "is_advance StandingRefAdvanced" "is_advance (RepairRetried k)"
  "\<not> is_advance MergeStarted" "\<not> is_advance WorkspaceCleaned" "\<not> is_advance WorkspaceConflicted"
  "\<not> is_advance PolicyAdmitted" "\<not> is_advance PolicyRejected" "\<not> is_advance RepairSubmitted"
  "\<not> is_advance BoundaryIntegrationAdmitted" "\<not> is_advance IntegratedToMainline"
  by (simp_all add: is_advance_def)

lemma merge_decide_tinv:
  assumes "merge_tinv es s" and "merge_decide s c = Inr fs"
  shows "merge_tinv (es @ fs) (lc_fold (merge_lifecycle sd) s fs)"
  using assms
  by (cases c) (auto simp: merge_tinv_def merge_event_justified_def Let_def)

interpretation merge_trace: lifecycle_trace "merge_lifecycle sd" merge_tinv
  by unfold_locales
     (simp add: merge_tinv_def, auto intro: merge_decide_tinv)

section \<open>Properties\<close>

text \<open>
  C5. Every advance of the standing line is justified inside its own merge cycle: a direct advance
  follows a clean workspace verdict and a policy admission with no conflict and no policy rejection
  since the cycle began; an advance by repair follows a submitted repair of a conflict or a policy
  rejection; neither follows another advance of the same cycle, so the line advances at most once
  per cycle; and integration into the mainline follows an advance and an admitted boundary command.
\<close>

theorem merge_advance_justified:
  assumes "lc_log (merge_lifecycle sd) merge_default cs = xs @ e # ys"
  shows "merge_event_justified (merge_cycle xs) e"
  using merge_trace.log_tinv [of sd cs] assms
  by (auto simp: merge_tinv_def merge_justified_def Let_def)

theorem merge_advance_justified_witness:
  "merge_event_justified (merge_cycle [MergeStarted, WorkspaceCleaned, PolicyAdmitted])
     StandingRefAdvanced"
  by (rule merge_advance_justified [where ys = "[]" and
        cs = "[StartMerge, WorkspaceClean, PolicyAdmit, AdvanceStandingRef]"
        and sd = "\<lparr>to_json = (\<lambda>_. []), from_json = (\<lambda>_. None)\<rparr>"])
     (simp add: merge_default_def)

text \<open>
  The folded merge state in every reachable state: the line has advanced exactly in the phases
  \<open>Advanced\<close> and \<open>Integrated\<close>, with the counter at one there and at zero elsewhere (so the \<open>u32\<close>
  counter never overflows); an advanced line has a clean workspace and an admitted policy; a
  rejected or repairing engagement keeps its candidate and its repair context, and its thread is
  isolated exactly while rejected; an integrated line had its boundary command admitted; and no
  partial merge is ever exposed.
\<close>

theorem merge_reachable_inv:
  assumes "lc_reachable (merge_lifecycle sd) s"
  shows "merge_inv s"
  using assms by (rule merge_law.reachable_inv)

theorem merge_reachable_inv_witness:
  "merge_inv (lc_drive (merge_lifecycle \<lparr>to_json = (\<lambda>_. []), from_json = (\<lambda>_. None)\<rparr>) merge_default
     [StartMerge, WorkspaceConflict, SubmitRepair, RetryRepair ''k''])"
  by (rule merge_reachable_inv, subst merge_lifecycle_simps(1) [symmetric],
      rule lc_reachable_drive, rule lc_reachable.default)

end
