(* ===== verification/Handoff.thy ===== *)
theory Handoff
  imports Lifecycle
begin

text \<open>
  Project handoff, \<open>crates/core/src/handoff.rs\<close>: the relocation of a project's single home authority
  from an origin to a target as a two-phase commit. The target must hold the log and the content
  before the single committing event moves the home.
\<close>

section \<open>States, commands, events\<close>

datatype handoff_phase = Draft | Offered | LogSynced | Committed | Aborted

datatype home = Origin | Target

record handoff_state =
  phase :: handoff_phase
  home :: home
  target_has_log :: bool
  target_has_content :: bool
  sealed :: bool

definition handoff_default :: handoff_state where
  "handoff_default =
     \<lparr>phase = Draft, home = Origin, target_has_log = False, target_has_content = False,
      sealed = False\<rparr>"

datatype handoff_command = OfferHandoff | SyncLog | CommitHandoff | AbortHandoff

datatype handoff_event = HandoffOffered | LogSyncedEv | HandoffCommitted | HandoffAborted

section \<open>The reducer\<close>

fun handoff_decide :: "handoff_state \<Rightarrow> handoff_command \<Rightarrow> handoff_event list outcome" where
  "handoff_decide s OfferHandoff =
     (if phase s = Draft then Inr [HandoffOffered]
      else reject ''offerHandoff: a handoff is already in flight or terminal'')"
| "handoff_decide s SyncLog =
     (if phase s = Offered then Inr [LogSyncedEv]
      else reject ''syncLog: no offered handoff to sync against'')"
| "handoff_decide s CommitHandoff =
     (if phase s = LogSynced \<and> target_has_log s \<and> target_has_content s then Inr [HandoffCommitted]
      else reject (''commitHandoff: target must hold the full state '' @ em_dash @ '' log and content '' @ em_dash @
        '' first (STATE_BEFORE_HOME)''))"
| "handoff_decide s AbortHandoff =
     (if phase s \<in> {Offered, LogSynced} then Inr [HandoffAborted]
      else reject ''abortHandoff: not in flight'')"

fun handoff_evolve :: "handoff_state \<Rightarrow> handoff_event \<Rightarrow> handoff_state" where
  "handoff_evolve s HandoffOffered = s\<lparr>phase := Offered\<rparr>"
| "handoff_evolve s LogSyncedEv =
     s\<lparr>phase := LogSynced, target_has_log := True, target_has_content := True\<rparr>"
| "handoff_evolve s HandoffCommitted = s\<lparr>phase := Committed, home := Target, sealed := True\<rparr>"
| "handoff_evolve s HandoffAborted = s\<lparr>phase := Aborted, home := Origin\<rparr>"

definition handoff_lifecycle ::
  "handoff_event serde \<Rightarrow> (handoff_state, handoff_command, handoff_event) lifecycle" where
  "handoff_lifecycle sd =
     \<lparr>lc_kind = ''handoff'', lc_default = handoff_default, lc_decide = handoff_decide,
      lc_evolve = handoff_evolve, lc_serde = sd, lc_snapshot_codec = None\<rparr>"

lemma handoff_lifecycle_simps [simp]:
  "lc_kind (handoff_lifecycle sd) = ''handoff''"
  "lc_default (handoff_lifecycle sd) = handoff_default"
  "lc_decide (handoff_lifecycle sd) = handoff_decide"
  "lc_evolve (handoff_lifecycle sd) = handoff_evolve"
  "lc_serde (handoff_lifecycle sd) = sd"
  "lc_snapshot_codec (handoff_lifecycle sd) = None"
  by (simp_all add: handoff_lifecycle_def)

text \<open>
  The serde encoding of the events, which are unit variants: the JSON string of the variant name.
\<close>

definition handoff_to_json :: "handoff_event \<Rightarrow> string" where
  "handoff_to_json e =
     (case e of
        HandoffOffered \<Rightarrow> CHR 0x22 # ''HandoffOffered'' @ [CHR 0x22]
      | LogSyncedEv \<Rightarrow> CHR 0x22 # ''LogSynced'' @ [CHR 0x22]
      | HandoffCommitted \<Rightarrow> CHR 0x22 # ''HandoffCommitted'' @ [CHR 0x22]
      | HandoffAborted \<Rightarrow> CHR 0x22 # ''HandoffAborted'' @ [CHR 0x22])"

definition handoff_serde :: "handoff_event serde" where
  "handoff_serde =
     \<lparr>to_json = handoff_to_json,
      from_json = (\<lambda>t. find (\<lambda>e. handoff_to_json e = t)
        [HandoffOffered, LogSyncedEv, HandoffCommitted, HandoffAborted])\<rparr>"

lemma handoff_serde_roundtrip: "from_json handoff_serde (to_json handoff_serde e) = Some e"
  by (cases e) (simp_all add: handoff_serde_def handoff_to_json_def)

section \<open>All logs of a handoff\<close>

definition handoff_logs :: "handoff_event list set" where
  "handoff_logs =
     {[], [HandoffOffered], [HandoffOffered, HandoffAborted], [HandoffOffered, LogSyncedEv],
      [HandoffOffered, LogSyncedEv, HandoffAborted], [HandoffOffered, LogSyncedEv, HandoffCommitted]}"

definition handoff_tinv :: "handoff_event list \<Rightarrow> handoff_state \<Rightarrow> bool" where
  "handoff_tinv es s \<longleftrightarrow>
     (case phase s of
        Draft \<Rightarrow> es = []
      | Offered \<Rightarrow> es = [HandoffOffered]
      | LogSynced \<Rightarrow> es = [HandoffOffered, LogSyncedEv]
      | Committed \<Rightarrow> es = [HandoffOffered, LogSyncedEv, HandoffCommitted]
      | Aborted \<Rightarrow> es \<in> {[HandoffOffered, HandoffAborted], [HandoffOffered, LogSyncedEv, HandoffAborted]}) \<and>
     home s = (if phase s = Committed then Target else Origin) \<and>
     (sealed s \<longleftrightarrow> phase s = Committed) \<and>
     (target_has_log s \<longleftrightarrow> LogSyncedEv \<in> set es) \<and> (target_has_content s \<longleftrightarrow> LogSyncedEv \<in> set es)"

lemma handoff_decide_tinv:
  assumes "handoff_tinv es s" and "handoff_decide s c = Inr fs"
  shows "handoff_tinv (es @ fs) (lc_fold (handoff_lifecycle sd) s fs)"
  using assms by (cases c) (auto simp: handoff_tinv_def)

interpretation handoff_trace: lifecycle_trace "handoff_lifecycle sd" handoff_tinv
  by unfold_locales
     (simp add: handoff_tinv_def handoff_default_def, auto intro: handoff_decide_tinv)

lemma handoff_log_realised:
  assumes "es \<in> handoff_logs"
  shows "\<exists>cs. lc_log (handoff_lifecycle sd) handoff_default cs = es"
proof -
  let ?run = "lc_log (handoff_lifecycle sd) handoff_default"
  have "?run [] = []" and "?run [OfferHandoff] = [HandoffOffered]"
    and "?run [OfferHandoff, AbortHandoff] = [HandoffOffered, HandoffAborted]"
    and "?run [OfferHandoff, SyncLog] = [HandoffOffered, LogSyncedEv]"
    and "?run [OfferHandoff, SyncLog, AbortHandoff] = [HandoffOffered, LogSyncedEv, HandoffAborted]"
    and "?run [OfferHandoff, SyncLog, CommitHandoff] =
      [HandoffOffered, LogSyncedEv, HandoffCommitted]"
    by (simp_all add: handoff_default_def)
  with assms show ?thesis unfolding handoff_logs_def by blast
qed

section \<open>Properties\<close>

text \<open>
  C9. The handoff protocol, completely: the logs that command sequences can leave are exactly six.
  So an offer comes first, a commit only after the state was synced, a commit and an abort exclude
  each other, nothing follows either, and at most three commands are ever admitted.
\<close>

theorem handoff_logs_exact:
  "range (lc_log (handoff_lifecycle sd) handoff_default) = handoff_logs"
proof
  show "range (lc_log (handoff_lifecycle sd) handoff_default) \<subseteq> handoff_logs"
  proof
    fix es
    assume "es \<in> range (lc_log (handoff_lifecycle sd) handoff_default)"
    then obtain cs where "es = lc_log (handoff_lifecycle sd) handoff_default cs" by blast
    then have "handoff_tinv es (lc_drive (handoff_lifecycle sd) handoff_default cs)"
      using handoff_trace.log_tinv [of sd cs] by simp
    then show "es \<in> handoff_logs"
      by (auto simp: handoff_tinv_def handoff_logs_def split: handoff_phase.splits)
  qed
next
  show "handoff_logs \<subseteq> range (lc_log (handoff_lifecycle sd) handoff_default)"
  proof
    fix es
    assume "es \<in> handoff_logs"
    then obtain cs where "lc_log (handoff_lifecycle sd) handoff_default cs = es"
      using handoff_log_realised by blast
    then show "es \<in> range (lc_log (handoff_lifecycle sd) handoff_default)" by blast
  qed
qed

text \<open>
  One home, and state before home (\<open>EXACTLY_ONE_HOME\<close>, \<open>STATE_BEFORE_HOME\<close>,
  \<open>ABORT_KEEPS_ORIGIN_HOME\<close>): after any commands the home is the target exactly when the commit is in
  the log, it is the origin otherwise, aborted handoffs included, and a home at the target
  already has the log and the content.
\<close>

theorem handoff_home_moves_by_commit:
  "let s = lc_drive (handoff_lifecycle sd) handoff_default cs;
       es = lc_log (handoff_lifecycle sd) handoff_default cs
   in home s = (if HandoffCommitted \<in> set es then Target else Origin) \<and>
      (home s = Target \<longrightarrow> target_has_log s \<and> target_has_content s \<and> sealed s) \<and>
      (phase s = Aborted \<longrightarrow> home s = Origin)"
proof -
  let ?s = "lc_drive (handoff_lifecycle sd) handoff_default cs"
  let ?es = "lc_log (handoff_lifecycle sd) handoff_default cs"
  have "handoff_tinv ?es ?s"
    using handoff_trace.log_tinv [of sd cs] by simp
  then show ?thesis
    by (cases "phase ?s") (auto simp: handoff_tinv_def Let_def)
qed

theorem handoff_home_moves_by_commit_witness:
  "home (lc_drive (handoff_lifecycle handoff_serde) handoff_default
     [OfferHandoff, SyncLog, CommitHandoff, AbortHandoff]) = Target \<and>
   sealed (lc_drive (handoff_lifecycle handoff_serde) handoff_default
     [OfferHandoff, SyncLog, CommitHandoff, AbortHandoff])"
proof -
  have "HandoffCommitted \<in> set (lc_log (handoff_lifecycle handoff_serde) handoff_default
     [OfferHandoff, SyncLog, CommitHandoff, AbortHandoff])"
    by (simp add: handoff_default_def)
  then show ?thesis
    using handoff_home_moves_by_commit
      [of handoff_serde "[OfferHandoff, SyncLog, CommitHandoff, AbortHandoff]"]
    by (simp add: Let_def)
qed

end
