(* ===== verification/Workstream.thy ===== *)
theory Workstream
  imports Lifecycle
begin

text \<open>
  The workstream lifecycle, \<open>crates/core/src/workstream.rs\<close>: a shared line that member chats sync
  into. Only a member of an active stream contributes, and archiving the stream empties its
  membership for good.
\<close>

section \<open>States, commands, events\<close>

datatype workstream_phase = Absent | Active | Archived

record workstream_state =
  phase :: workstream_phase
  members :: "string set"
  name :: string
  home :: string

definition workstream_default :: workstream_state where
  "workstream_default = \<lparr>phase = Absent, members = {}, name = [], home = []\<rparr>"

datatype workstream_command =
    CreateWorkstream (cmd_name: string) (cmd_home: string) (creator: string)
  | JoinWorkstream string
  | LeaveWorkstream string
  | ArchiveWorkstream
  | Contribute (chat: string) (contributor: string)

datatype workstream_event =
    WorkstreamCreated string string string
  | ChatJoined string
  | ChatLeft string
  | WorkstreamArchived "string list"
  | ContributionAdmitted string string

section \<open>The reducer\<close>

text \<open>\<open>members\<close> is a \<open>BTreeSet\<close>, so its iteration is its sorted list.\<close>

fun workstream_decide ::
  "workstream_state \<Rightarrow> workstream_command \<Rightarrow> workstream_event list outcome" where
  "workstream_decide s (CreateWorkstream n h cr) =
     (if phase s = Absent then Inr [WorkstreamCreated n h cr]
      else reject ''createWorkstream: a workstream already exists in this scope'')"
| "workstream_decide s (JoinWorkstream c) =
     (if phase s = Active then Inr [ChatJoined c]
      else reject ''joinWorkstream: the workstream is not active'')"
| "workstream_decide s (LeaveWorkstream c) =
     (if phase s = Active \<and> c \<in> members s then Inr [ChatLeft c]
      else reject ''leaveWorkstream: not an active stream or chat is not a member'')"
| "workstream_decide s ArchiveWorkstream =
     (if phase s = Active then Inr [WorkstreamArchived (sorted_list_of_set (members s))]
      else reject ''archiveWorkstream: only an active workstream can be archived'')"
| "workstream_decide s (Contribute c b) =
     (if phase s = Active \<and> c \<in> members s then Inr [ContributionAdmitted c b]
      else reject ''contribute: chat is not a member of an active workstream'')"

fun workstream_evolve :: "workstream_state \<Rightarrow> workstream_event \<Rightarrow> workstream_state" where
  "workstream_evolve s (WorkstreamCreated n h _) = s\<lparr>phase := Active, name := n, home := h\<rparr>"
| "workstream_evolve s (ChatJoined c) = s\<lparr>members := insert c (members s)\<rparr>"
| "workstream_evolve s (ChatLeft c) = s\<lparr>members := members s - {c}\<rparr>"
| "workstream_evolve s (WorkstreamArchived _) = s\<lparr>phase := Archived, members := {}\<rparr>"
| "workstream_evolve s (ContributionAdmitted _ _) = s"

definition workstream_lifecycle ::
  "workstream_event serde \<Rightarrow> (workstream_state, workstream_command, workstream_event) lifecycle" where
  "workstream_lifecycle sd =
     \<lparr>lc_kind = ''workstream'', lc_default = workstream_default, lc_decide = workstream_decide,
      lc_evolve = workstream_evolve, lc_serde = sd, lc_snapshot_codec = None\<rparr>"

lemma workstream_lifecycle_simps [simp]:
  "lc_default (workstream_lifecycle sd) = workstream_default"
  "lc_decide (workstream_lifecycle sd) = workstream_decide"
  "lc_evolve (workstream_lifecycle sd) = workstream_evolve"
  by (simp_all add: workstream_lifecycle_def)

section \<open>Membership as the log tells it\<close>

definition archivals :: "workstream_event set" where
  "archivals = {e. \<exists>r. e = WorkstreamArchived r}"

definition joined :: "workstream_event list \<Rightarrow> string set" where
  "joined es = {c. stands (ChatJoined c) (insert (ChatLeft c) archivals) es}"

lemma archivals_simps [simp]:
  "WorkstreamArchived r \<in> archivals" "ChatJoined c \<notin> archivals" "ChatLeft c \<notin> archivals"
  "WorkstreamCreated n h k \<notin> archivals" "ContributionAdmitted c b \<notin> archivals"
  by (simp_all add: archivals_def)

lemma joined_simps [simp]:
  "joined [] = {}"
  "joined (es @ [WorkstreamCreated n h k]) = joined es"
  "joined (es @ [ChatJoined c]) = insert c (joined es)"
  "joined (es @ [ChatLeft c]) = joined es - {c}"
  "joined (es @ [WorkstreamArchived r]) = {}"
  "joined (es @ [ContributionAdmitted c b]) = joined es"
  by (auto simp: joined_def)

lemma joined_single [simp]: "joined [WorkstreamCreated n h k] = {}"
  using joined_simps(2) [of "[]"] by simp

text \<open>What an event of the log says of the log before it.\<close>

definition workstream_event_ok :: "workstream_event list \<Rightarrow> workstream_event \<Rightarrow> bool" where
  "workstream_event_ok xs e \<longleftrightarrow>
     set xs \<inter> archivals = {} \<and>
     (case e of
        WorkstreamCreated n h k \<Rightarrow> xs = []
      | ContributionAdmitted c b \<Rightarrow> c \<in> joined xs
      | ChatLeft c \<Rightarrow> c \<in> joined xs
      | WorkstreamArchived r \<Rightarrow> set r = joined xs \<and> sorted r \<and> distinct r
      | ChatJoined c \<Rightarrow> xs \<noteq> [])"

definition workstream_log_ok :: "workstream_event list \<Rightarrow> bool" where
  "workstream_log_ok es \<longleftrightarrow> (\<forall>xs e ys. es = xs @ e # ys \<longrightarrow> workstream_event_ok xs e)"

lemma workstream_log_ok_simps [simp]:
  "workstream_log_ok []"
  "workstream_log_ok (es @ [e]) \<longleftrightarrow> workstream_log_ok es \<and> workstream_event_ok es e"
  by (auto simp: workstream_log_ok_def snoc_eq_split)

lemma workstream_log_ok_single [simp]: "workstream_log_ok [e] \<longleftrightarrow> workstream_event_ok [] e"
  using workstream_log_ok_simps(2) [of "[]"] by simp

definition workstream_tinv :: "workstream_event list \<Rightarrow> workstream_state \<Rightarrow> bool" where
  "workstream_tinv es s \<longleftrightarrow> workstream_log_ok es \<and> members s = joined es \<and> finite (members s) \<and>
     (phase s = Absent \<longleftrightarrow> es = []) \<and> (phase s = Archived \<longleftrightarrow> set es \<inter> archivals \<noteq> {})"

lemma workstream_decide_tinv:
  assumes "workstream_tinv es s" and "workstream_decide s c = Inr fs"
  shows "workstream_tinv (es @ fs) (lc_fold (workstream_lifecycle sd) s fs)"
  using assms
  by (cases c) (auto simp: workstream_tinv_def workstream_event_ok_def)

interpretation workstream_trace: lifecycle_trace "workstream_lifecycle sd" workstream_tinv
  by unfold_locales
     (simp add: workstream_tinv_def workstream_default_def, auto intro: workstream_decide_tinv)

section \<open>Properties\<close>

text \<open>
  Membership gates every advance (\<open>MEMBERSHIP_GATES_AUTOSYNC\<close>, \<open>ARCHIVE_REHOMES_MEMBERS\<close>,
  \<open>ARCHIVED_ACCEPTS_NO_ADVANCE\<close>): in the log of any commands nothing follows an archiving; the
  stream is created by the first event and by no other; a contribution is admitted only for a chat
  that joined and neither left nor was re-homed since; and archiving re-homes exactly the chats
  that were members at that moment, each once and in order.
\<close>

theorem workstream_membership_gates:
  assumes "lc_log (workstream_lifecycle sd) workstream_default cs = xs @ e # ys"
  shows "workstream_event_ok xs e"
  using workstream_trace.log_tinv [of sd cs] assms
  by (auto simp: workstream_tinv_def workstream_log_ok_def)

theorem workstream_membership_gates_witness:
  "workstream_event_ok [WorkstreamCreated ''w'' ''hub'' ''alice'', ChatJoined ''a'']
     (ContributionAdmitted ''a'' ''alice'')"
  by (rule workstream_membership_gates [where ys = "[]"
        and sd = "\<lparr>to_json = (\<lambda>_. []), from_json = (\<lambda>_. None)\<rparr>"
        and cs = "[CreateWorkstream ''w'' ''hub'' ''alice'', JoinWorkstream ''a'',
          Contribute ''b'' ''alice'', Contribute ''a'' ''alice'']"])
     (simp add: workstream_default_def)

end
