(* ===== verification/Instance.thy ===== *)
theory Instance
  imports Lifecycle
begin

text \<open>
  The deployment lifecycle of an instance, \<open>crates/core/src/instance.rs\<close>: version pin, suspension,
  teardown, support entry and the editable local configuration.
\<close>

section \<open>States, commands, events\<close>

datatype instance_phase = Created | Active | Suspended | TornDown

record instance_state =
  phase :: instance_phase
  pinned_version :: "string option"
  support_entry :: "string option"
  runnable :: bool
  local_config :: "string option"
  local_notes :: "string option"

definition instance_default :: instance_state where
  "instance_default = \<lparr>phase = Created, pinned_version = None, support_entry = None,
     runnable = False, local_config = None, local_notes = None\<rparr>"

datatype instance_command =
    PinVersion string
  | Suspend
  | Resume
  | TearDown
  | EnterSupport string
  | SetLocalConfig string string

datatype instance_event =
    VersionPinned string
  | SuspendedEv
  | ResumedEv
  | TornDownEv
  | SupportEntered string
  | LocalConfigSet string string

section \<open>The reducer\<close>

fun instance_decide :: "instance_state \<Rightarrow> instance_command \<Rightarrow> instance_event list outcome" where
  "instance_decide s (PinVersion v) =
     (if phase s = Created \<and> pinned_version s = None then Inr [VersionPinned v]
      else reject ''pinVersion: already pinned (a version is pinned at most once)'')"
| "instance_decide s Suspend =
     (if phase s = Active then Inr [SuspendedEv] else reject ''suspend: instance is not active'')"
| "instance_decide s Resume =
     (if phase s = Suspended then Inr [ResumedEv]
      else reject ''resume: instance is not suspended'')"
| "instance_decide s TearDown =
     (if phase s \<in> {Active, Suspended} then Inr [TornDownEv]
      else reject ''tearDown: instance is not active or suspended'')"
| "instance_decide s (EnterSupport b) =
     (let live = (phase s \<in> {Active, Suspended})
      in if live \<and> support_entry s = None then Inr [SupportEntered b]
         else reject ''enterSupport: already entered, or instance not live'')"
| "instance_decide s (SetLocalConfig c n) =
     (if phase s = TornDown then reject ''setLocalConfig: instance is torn down''
      else Inr [LocalConfigSet c n])"

fun instance_evolve :: "instance_state \<Rightarrow> instance_event \<Rightarrow> instance_state" where
  "instance_evolve s (VersionPinned v) =
     s\<lparr>phase := Active, pinned_version := Some v, runnable := True\<rparr>"
| "instance_evolve s SuspendedEv = s\<lparr>phase := Suspended, runnable := False\<rparr>"
| "instance_evolve s ResumedEv = s\<lparr>phase := Active, runnable := True\<rparr>"
| "instance_evolve s TornDownEv = s\<lparr>phase := TornDown, runnable := False\<rparr>"
| "instance_evolve s (SupportEntered b) = s\<lparr>support_entry := Some b\<rparr>"
| "instance_evolve s (LocalConfigSet c n) = s\<lparr>local_config := Some c, local_notes := Some n\<rparr>"

definition instance_lifecycle ::
  "instance_event serde \<Rightarrow> (instance_state, instance_command, instance_event) lifecycle" where
  "instance_lifecycle sd =
     \<lparr>lc_kind = ''instance'', lc_default = instance_default, lc_decide = instance_decide,
      lc_evolve = instance_evolve, lc_serde = sd, lc_snapshot_codec = None\<rparr>"

lemma instance_lifecycle_simps [simp]:
  "lc_default (instance_lifecycle sd) = instance_default"
  "lc_decide (instance_lifecycle sd) = instance_decide"
  "lc_evolve (instance_lifecycle sd) = instance_evolve"
  by (simp_all add: instance_lifecycle_def)

section \<open>The invariant, relative to what an earlier state recorded\<close>

definition instance_inv :: "instance_state \<Rightarrow> bool" where
  "instance_inv s \<longleftrightarrow> (runnable s \<longleftrightarrow> phase s = Active) \<and>
     (phase s = Created \<longleftrightarrow> pinned_version s = None) \<and>
     (phase s = Created \<longrightarrow> support_entry s = None)"

text \<open>\<open>instance_after s t\<close>: \<open>t\<close> keeps the evidence of \<open>s\<close>, and is \<open>s\<close> itself once that is torn
  down.\<close>

definition instance_after :: "instance_state \<Rightarrow> instance_state \<Rightarrow> bool" where
  "instance_after s t \<longleftrightarrow> (pinned_version s \<noteq> None \<longrightarrow> pinned_version t = pinned_version s) \<and>
     (support_entry s \<noteq> None \<longrightarrow> support_entry t = support_entry s) \<and>
     (phase s = TornDown \<longrightarrow> t = s)"

lemma instance_after_refl [simp]: "instance_after s s"
  by (simp add: instance_after_def)

lemma instance_after_trans: "instance_after r s \<Longrightarrow> instance_after s t \<Longrightarrow> instance_after r t"
  by (auto simp: instance_after_def)

lemma instance_decide_inv:
  assumes "instance_inv s" and "instance_decide s c = Inr es"
  shows "instance_inv (lc_fold (instance_lifecycle sd) s es)"
  using assms by (cases c; cases "phase s") (auto simp: instance_inv_def Let_def)

lemma instance_decide_after:
  assumes "instance_inv s" and "instance_decide s c = Inr es"
  shows "instance_after s (lc_fold (instance_lifecycle sd) s es)"
  using assms by (cases c; cases "phase s") (auto simp: instance_inv_def instance_after_def Let_def)

interpretation instance_law: lifecycle_invariant "instance_lifecycle sd" instance_inv
  by unfold_locales
     (simp add: instance_inv_def instance_default_def, auto intro: instance_decide_inv)

lemma instance_apply_after:
  assumes "instance_inv s"
  shows "instance_after s (lc_apply (instance_lifecycle sd) s c)"
  using assms
  by (cases "instance_decide s c") (simp_all add: lc_apply_def instance_decide_after)

lemma instance_drive_after:
  "instance_inv s \<Longrightarrow> instance_after s (lc_drive (instance_lifecycle sd) s cs)"
proof (induction cs arbitrary: s)
  case (Cons c cs)
  then show ?case
    using instance_apply_after [of s sd c] instance_law.apply_inv [of s sd c]
    by (auto intro: instance_after_trans)
qed simp

section \<open>Properties\<close>

text \<open>
  The evidence of a deployment is immutable (\<open>PIN_IMMUTABLE\<close>, \<open>SUPPORT_ENTRY_IMMUTABLE\<close>,
  \<open>EVIDENCE_PRESERVED\<close>, \<open>TORNDOWN_TERMINAL\<close>, \<open>RUNNABLE_REQUIRES_ACTIVE\<close>): whatever commands \<open>ds\<close>
  follow the commands \<open>cs\<close>, a version pinned or a support entry recorded by then is still there
  unchanged, a torn-down instance is left exactly as it was, and the instance accepts runs only
  while it is active, which takes a pinned version.
\<close>

theorem instance_evidence_preserved:
  "let s = lc_drive (instance_lifecycle sd) instance_default cs;
       t = lc_drive (instance_lifecycle sd) instance_default (cs @ ds)
   in (\<forall>v. pinned_version s = Some v \<longrightarrow> pinned_version t = Some v) \<and>
      (\<forall>b. support_entry s = Some b \<longrightarrow> support_entry t = Some b) \<and>
      (phase s = TornDown \<longrightarrow> t = s) \<and>
      (runnable t \<longleftrightarrow> phase t = Active) \<and> (runnable t \<longrightarrow> pinned_version t \<noteq> None)"
proof -
  let ?d = "lc_drive (instance_lifecycle sd) instance_default"
  have inv: "instance_inv (?d es)" for es
    using instance_law.drive_inv [of instance_default sd es]
    by (simp add: instance_inv_def instance_default_def)
  have "instance_after (?d cs) (?d (cs @ ds))"
    using instance_drive_after [OF inv] by simp
  then show ?thesis
    using inv [of "cs @ ds"] by (auto simp: instance_after_def instance_inv_def Let_def)
qed

theorem instance_evidence_preserved_witness:
  "let sd = \<lparr>to_json = (\<lambda>_. []), from_json = (\<lambda>_. None)\<rparr>;
       t = lc_drive (instance_lifecycle sd) instance_default
             [PinVersion ''v1'', Suspend, EnterSupport ''ops'', TearDown, PinVersion ''v2'', Resume]
   in pinned_version t = Some ''v1'' \<and> support_entry t = Some ''ops'' \<and> \<not> runnable t"
  using instance_evidence_preserved [of "\<lparr>to_json = (\<lambda>_. []), from_json = (\<lambda>_. None)\<rparr>"
      "[PinVersion ''v1'', Suspend, EnterSupport ''ops'', TearDown]"
      "[PinVersion ''v2'', Resume]"]
  by (simp add: Let_def instance_default_def lc_apply_def)

end
