(* ===== verification/Boundary_Lifecycle.thy ===== *)
theory Boundary_Lifecycle
  imports Lifecycle
begin

text \<open>
  The boundary (pairing) lifecycle, \<open>crates/core/src/boundary_lifecycle.rs\<close>, with the attestation
  evidence it carries, \<open>crates/core/src/attestation.rs\<close>, and the restrict-only placement policy that
  gates a pairing. A boundary is proposed with its participants, declares a placement, collects
  every participant's acceptance and only then admits resources and sessions.
\<close>

section \<open>Attestation evidence\<close>

datatype code_measurement = CodeMeasurement (digest_hex: string)

record attestation_quote =
  measurement :: code_measurement
  quote_nonce :: string
  quote_bytes :: "u8 list"

datatype quote_rejection = UntrustedSignature | StaleNonce | UnknownMeasurement | MalformedQuote

datatype quote_verification_result = Verified code_measurement | QuoteRejected quote_rejection

fun verified_measurement :: "quote_verification_result \<Rightarrow> code_measurement option" where
  "verified_measurement (Verified m) = Some m"
| "verified_measurement (QuoteRejected _) = None"

fun is_verified :: "quote_verification_result \<Rightarrow> bool" where
  "is_verified (Verified _) = True"
| "is_verified (QuoteRejected _) = False"

record attestation_evidence =
  quote :: attestation_quote
  result :: quote_verification_result

definition is_trustworthy :: "attestation_evidence \<Rightarrow> bool" where
  "is_trustworthy ev \<longleftrightarrow> verified_measurement (result ev) = Some (measurement (quote ev))"

section \<open>States, commands, events\<close>

datatype operator = Local | Counterparty | Neutral

record placement_axes =
  operator :: operator
  attested :: bool

definition placement_local :: placement_axes where
  "placement_local = \<lparr>operator = Local, attested = False\<rparr>"

definition method_secret :: "placement_axes \<Rightarrow> bool" where
  "method_secret p = attested p"

datatype boundary_phase =
  Init | Proposed | Declared | DeviceBinding | Active | Draining | TornDown | Denied

record boundary_state =
  phase :: boundary_phase
  placement :: "placement_axes option"
  required :: "string set"
  accepted :: "string set"
  attestation_evidence :: "string \<rightharpoonup> attestation_evidence"
  device_binding :: "(device_id \<times> bridge_grant_id) option"
  resources_admitted :: bool
  session_started :: bool
  torn_down :: bool
  evidence :: bool

definition boundary_default :: boundary_state where
  "boundary_default = \<lparr>phase = Init, placement = None, required = {}, accepted = {},
     attestation_evidence = Map.empty, device_binding = None, resources_admitted = False,
     session_started = False, torn_down = False, evidence = False\<rparr>"

definition active :: "boundary_state \<Rightarrow> bool" where
  "active s \<longleftrightarrow>
     phase s = Active \<and> placement s \<noteq> None \<and> required s \<subseteq> accepted s \<and> \<not> torn_down s"

datatype boundary_command =
    Propose "string set"
  | DeclareCeiling placement_axes
  | Accept string "attestation_evidence option"
  | BindDevice device_id bridge_grant_id
  | Reject string
  | AdmitResource
  | StartSession
  | EndSession
  | BeginTeardown
  | FinishTeardown

datatype boundary_event =
    ProposedEv "string set"
  | CeilingDeclared placement_axes
  | Accepted string "attestation_evidence option"
  | DeviceBound device_id bridge_grant_id
  | RejectedEv string
  | ResourceAdmitted
  | SessionStarted
  | SessionEnded
  | TeardownBegun
  | TeardownFinished

section \<open>The reducer\<close>

fun boundary_decide :: "boundary_state \<Rightarrow> boundary_command \<Rightarrow> boundary_event list outcome" where
  "boundary_decide s (Propose ps) =
     (if phase s = Init then Inr [ProposedEv ps]
      else reject ''propose: boundary already proposed'')"
| "boundary_decide s (DeclareCeiling p) =
     (if phase s = Proposed then Inr [CeilingDeclared p]
      else reject ''declareCeiling: not in proposed (ceiling is immutable once set)'')"
| "boundary_decide s (Accept a ev) =
     (if phase s \<notin> {Declared, DeviceBinding} \<or> a \<notin> required s
      then reject ''accept: not a declared boundary, or not a participant''
      else let att = (case placement s of None \<Rightarrow> False | Some p \<Rightarrow> attested p)
           in if att \<and> ev = None
              then reject ''accept: attested placement requires attestation evidence''
              else if \<not> att \<and> ev \<noteq> None
              then reject ''accept: unattested placement carries no attestation evidence''
              else Inr [Accepted a ev])"
| "boundary_decide s (BindDevice d g) =
     (if phase s \<notin> {Declared, DeviceBinding}
      then reject ''bindDevice: boundary has not declared a ceiling''
      else if device_binding s \<noteq> None
      then reject ''bindDevice: a device is already bound (no silent swap)''
      else Inr [DeviceBound d g])"
| "boundary_decide s (Reject a) =
     (if phase s \<in> {Proposed, Declared, DeviceBinding} \<and> a \<in> required s then Inr [RejectedEv a]
      else reject ''reject: not a pending participant'')"
| "boundary_decide s AdmitResource =
     (if active s then Inr [ResourceAdmitted] else reject ''admitResource: boundary not active'')"
| "boundary_decide s StartSession =
     (if active s then Inr [SessionStarted] else reject ''startSession: boundary not active'')"
| "boundary_decide s EndSession =
     (if session_started s then Inr [SessionEnded]
      else reject ''endSession: no session running'')"
| "boundary_decide s BeginTeardown =
     (if phase s \<in> {Active, Draining} then Inr [TeardownBegun]
      else reject ''beginTeardown: boundary not active'')"
| "boundary_decide s FinishTeardown =
     (if phase s = Draining then Inr [TeardownFinished]
      else reject ''finishTeardown: not draining'')"

fun boundary_evolve :: "boundary_state \<Rightarrow> boundary_event \<Rightarrow> boundary_state" where
  "boundary_evolve s (ProposedEv ps) = s\<lparr>phase := Proposed, required := ps\<rparr>"
| "boundary_evolve s (CeilingDeclared p) =
     s\<lparr>phase := Declared, placement := Some p, evidence := True\<rparr>"
| "boundary_evolve s (Accepted a ev) =
     (let s = (case ev of None \<Rightarrow> s
               | Some v \<Rightarrow> s\<lparr>attestation_evidence := (attestation_evidence s)(a \<mapsto> v)\<rparr>);
          s = s\<lparr>accepted := insert a (accepted s), evidence := True\<rparr>
      in if phase s \<in> {Declared, DeviceBinding} \<and> required s \<subseteq> accepted s
         then s\<lparr>phase := Active\<rparr> else s)"
| "boundary_evolve s (DeviceBound d g) =
     (let s = s\<lparr>device_binding := Some (d, g)\<rparr>;
          s = (if phase s = Declared then s\<lparr>phase := DeviceBinding\<rparr> else s)
      in s\<lparr>evidence := True\<rparr>)"
| "boundary_evolve s (RejectedEv _) = s\<lparr>phase := Denied\<rparr>"
| "boundary_evolve s ResourceAdmitted = s\<lparr>resources_admitted := True, evidence := True\<rparr>"
| "boundary_evolve s SessionStarted = s\<lparr>session_started := True, evidence := True\<rparr>"
| "boundary_evolve s SessionEnded = s\<lparr>session_started := False\<rparr>"
| "boundary_evolve s TeardownBegun =
     s\<lparr>phase := Draining, torn_down := True, session_started := False\<rparr>"
| "boundary_evolve s TeardownFinished =
     s\<lparr>phase := TornDown, torn_down := True, session_started := False\<rparr>"

definition boundary_lifecycle ::
  "boundary_event serde \<Rightarrow> (boundary_state, boundary_command, boundary_event) lifecycle" where
  "boundary_lifecycle sd =
     \<lparr>lc_kind = ''boundary_lifecycle'', lc_default = boundary_default,
      lc_decide = boundary_decide, lc_evolve = boundary_evolve, lc_serde = sd,
      lc_snapshot_codec = None\<rparr>"

lemma boundary_lifecycle_simps [simp]:
  "lc_default (boundary_lifecycle sd) = boundary_default"
  "lc_decide (boundary_lifecycle sd) = boundary_decide"
  "lc_evolve (boundary_lifecycle sd) = boundary_evolve"
  by (simp_all add: boundary_lifecycle_def)

section \<open>The placement policy\<close>

record placement_policy =
  require_attested :: bool
  allowed_operators :: "operator set"

definition policy_open :: placement_policy where
  "policy_open = \<lparr>require_attested = False, allowed_operators = {}\<rparr>"

definition policy_admits :: "placement_policy \<Rightarrow> placement_axes \<Rightarrow> bool" where
  "policy_admits pol p =
     (if require_attested pol \<and> \<not> attested p then False
      else if allowed_operators pol \<noteq> {} \<and> operator p \<notin> allowed_operators pol then False
      else True)"

definition pairing_admitted :: "placement_policy \<Rightarrow> placement_axes \<Rightarrow> bool \<Rightarrow> bool" where
  "pairing_admitted pol declared verified \<longleftrightarrow>
     policy_admits pol declared \<and> (\<not> attested declared \<or> verified)"

section \<open>The state invariant\<close>

definition evidence_matches :: "boundary_state \<Rightarrow> bool" where
  "evidence_matches s \<longleftrightarrow>
     (case placement s of
        None \<Rightarrow> accepted s = {} \<and> attestation_evidence s = Map.empty
      | Some p \<Rightarrow> dom (attestation_evidence s) = (if attested p then accepted s else {}))"

definition boundary_inv :: "boundary_state \<Rightarrow> bool" where
  "boundary_inv s \<longleftrightarrow> accepted s \<subseteq> required s \<and> evidence_matches s \<and>
     (case phase s of
        Init \<Rightarrow> s = boundary_default
      | Proposed \<Rightarrow> placement s = None \<and> device_binding s = None \<and> \<not> resources_admitted s \<and>
          \<not> session_started s \<and> \<not> torn_down s
      | Declared \<Rightarrow> placement s \<noteq> None \<and> device_binding s = None \<and> \<not> resources_admitted s \<and>
          \<not> session_started s \<and> \<not> torn_down s \<and> (accepted s = required s \<longrightarrow> required s = {})
      | DeviceBinding \<Rightarrow> placement s \<noteq> None \<and> device_binding s \<noteq> None \<and>
          \<not> resources_admitted s \<and> \<not> session_started s \<and> \<not> torn_down s \<and>
          (accepted s = required s \<longrightarrow> required s = {})
      | Active \<Rightarrow> placement s \<noteq> None \<and> accepted s = required s \<and> required s \<noteq> {} \<and>
          \<not> torn_down s
      | Draining \<Rightarrow> placement s \<noteq> None \<and> accepted s = required s \<and> required s \<noteq> {} \<and>
          torn_down s \<and> \<not> session_started s
      | TornDown \<Rightarrow> placement s \<noteq> None \<and> accepted s = required s \<and> required s \<noteq> {} \<and>
          torn_down s \<and> \<not> session_started s
      | Denied \<Rightarrow> \<not> resources_admitted s \<and> \<not> session_started s \<and> \<not> torn_down s \<and>
          required s \<noteq> {})"

lemma boundary_default_simps [simp]:
  "phase boundary_default = Init" "placement boundary_default = None"
  "required boundary_default = {}" "accepted boundary_default = {}"
  "attestation_evidence boundary_default = Map.empty"
  "device_binding boundary_default = None" "\<not> resources_admitted boundary_default"
  "\<not> session_started boundary_default" "\<not> torn_down boundary_default"
  "\<not> evidence boundary_default"
  by (simp_all add: boundary_default_def)

lemma boundary_decide_inv:
  assumes "boundary_inv s" and "boundary_decide s c = Inr es"
  shows "boundary_inv (lc_fold (boundary_lifecycle sd) s es)"
  using assms
  by (cases c; cases "phase s")
     (auto simp: boundary_inv_def evidence_matches_def active_def Let_def split: if_splits option.splits)

interpretation boundary_law: lifecycle_invariant "boundary_lifecycle sd" boundary_inv
  by unfold_locales
     (simp add: boundary_inv_def evidence_matches_def, auto intro: boundary_decide_inv)

section \<open>What the log says\<close>

text \<open>
  \<open>pairing_standing es\<close>: by the log \<open>es\<close> some participants were proposed, a ceiling was declared,
  every one of them accepted with evidence exactly when the ceiling is attested, and nobody
  rejected or began a teardown.
\<close>

definition pairing_standing :: "boundary_event list \<Rightarrow> bool" where
  "pairing_standing es \<longleftrightarrow>
     (\<exists>ps p. ps \<noteq> {} \<and> ProposedEv ps \<in> set es \<and> CeilingDeclared p \<in> set es \<and>
        (\<forall>a \<in> ps. \<exists>ev. Accepted a ev \<in> set es \<and> (ev \<noteq> None \<longleftrightarrow> attested p))) \<and>
     (\<forall>a. RejectedEv a \<notin> set es) \<and> TeardownBegun \<notin> set es"

definition boundary_log_ok :: "boundary_event list \<Rightarrow> bool" where
  "boundary_log_ok es \<longleftrightarrow>
     (\<forall>xs e ys. es = xs @ e # ys \<longrightarrow> e \<in> {ResourceAdmitted, SessionStarted} \<longrightarrow>
        pairing_standing xs)"

lemma boundary_log_ok_simps [simp]:
  "boundary_log_ok []"
  "boundary_log_ok (es @ [e]) \<longleftrightarrow>
     boundary_log_ok es \<and> (e \<in> {ResourceAdmitted, SessionStarted} \<longrightarrow> pairing_standing es)"
  by (auto simp: boundary_log_ok_def snoc_eq_split)

text \<open>The state records the log: its ceiling, device, participants and acceptances are those of
  the events, and each of the first three has at most one event.\<close>

definition boundary_recorded :: "boundary_event list \<Rightarrow> boundary_state \<Rightarrow> bool" where
  "boundary_recorded es s \<longleftrightarrow>
     (\<forall>ps. ProposedEv ps \<in> set es \<longleftrightarrow> phase s \<noteq> Init \<and> required s = ps) \<and>
     (\<forall>p. CeilingDeclared p \<in> set es \<longleftrightarrow> placement s = Some p) \<and>
     (\<forall>d g. DeviceBound d g \<in> set es \<longleftrightarrow> device_binding s = Some (d, g)) \<and>
     (\<forall>a. a \<in> accepted s \<longleftrightarrow> (\<exists>ev. Accepted a ev \<in> set es)) \<and>
     (\<forall>a ev p. Accepted a ev \<in> set es \<longrightarrow> placement s = Some p \<longrightarrow>
        (ev \<noteq> None \<longleftrightarrow> attested p)) \<and>
     ((\<exists>a. RejectedEv a \<in> set es) \<longleftrightarrow> phase s = Denied) \<and>
     (TeardownBegun \<in> set es \<longleftrightarrow> torn_down s)"

definition boundary_tinv :: "boundary_event list \<Rightarrow> boundary_state \<Rightarrow> bool" where
  "boundary_tinv es s \<longleftrightarrow> boundary_inv s \<and> boundary_recorded es s \<and> boundary_log_ok es"

lemma boundary_decide_recorded:
  assumes "boundary_inv s" and "boundary_recorded es s" and "boundary_decide s c = Inr fs"
  shows "boundary_recorded (es @ fs) (lc_fold (boundary_lifecycle sd) s fs)"
  using assms
  by (cases c; cases "phase s")
     (auto simp: boundary_recorded_def boundary_inv_def evidence_matches_def active_def Let_def
       split: if_splits option.splits)

lemma active_standing:
  assumes "boundary_inv s" and "boundary_recorded es s" and "active s"
  shows "pairing_standing es"
proof -
  obtain p where p: "placement s = Some p" using assms by (auto simp: active_def)
  have "required s \<noteq> {} \<and> accepted s = required s \<and> phase s = Active \<and> \<not> torn_down s"
    using assms by (auto simp: active_def boundary_inv_def)
  with p assms(2) show ?thesis
    unfolding pairing_standing_def boundary_recorded_def
    by (intro conjI exI [of _ "required s"] exI [of _ p]) auto
qed

lemma boundary_decide_tinv:
  assumes "boundary_tinv es s" and "boundary_decide s c = Inr fs"
  shows "boundary_tinv (es @ fs) (lc_fold (boundary_lifecycle sd) s fs)"
proof -
  have "boundary_log_ok (es @ fs)"
    using assms active_standing [of s es]
    by (cases c) (auto simp: boundary_tinv_def Let_def split: if_splits option.splits)
  with assms show ?thesis
    using boundary_decide_inv boundary_decide_recorded by (auto simp: boundary_tinv_def)
qed

interpretation boundary_trace: lifecycle_trace "boundary_lifecycle sd" boundary_tinv
  by unfold_locales
     (simp add: boundary_tinv_def boundary_inv_def evidence_matches_def boundary_recorded_def,
      auto intro: boundary_decide_tinv)

section \<open>Properties\<close>

text \<open>
  Resources and sessions need a standing pairing (\<open>RESOURCE_REQUIRES_ACTIVE_BOUNDARY\<close>,
  \<open>SESSION_REQUIRES_ACTIVE_BOUNDARY\<close>, \<open>ATTESTED_ACCEPT_REQUIRES_EVIDENCE\<close>): wherever the log of a
  boundary admits a resource or starts a session, the events before it propose a nonempty set of
  participants, declare a ceiling, and carry an acceptance of every participant, with attestation
  evidence exactly when the ceiling is attested; and no participant rejected and no teardown began.
\<close>

theorem boundary_use_needs_pairing:
  assumes "lc_log (boundary_lifecycle sd) boundary_default cs = xs @ e # ys"
    and "e \<in> {ResourceAdmitted, SessionStarted}"
  shows "pairing_standing xs"
  using boundary_trace.log_tinv [of sd cs] assms
  by (auto simp: boundary_tinv_def boundary_log_ok_def)

theorem boundary_use_needs_pairing_witness:
  "pairing_standing [ProposedEv {''a''}, CeilingDeclared placement_local, Accepted ''a'' None]"
  by (rule boundary_use_needs_pairing [where e = SessionStarted and ys = "[]"
        and sd = "\<lparr>to_json = (\<lambda>_. []), from_json = (\<lambda>_. None)\<rparr>"
        and cs = "[Propose {''a''}, StartSession, DeclareCeiling placement_local,
          Accept ''b'' None, Accept ''a'' None, StartSession]"])
     (simp_all add: placement_local_def active_def)

text \<open>
  The boundary's state tells what its log says (\<open>NO_GHOST_ACCEPT\<close>,
  \<open>CEILING_IMMUTABLE_AFTER_RESOURCE\<close>, no silent swap of a bound device): after any commands the
  participants, the ceiling and the bound device are those of the one event that set each, the
  accepted participants are those with an acceptance event and all of them were proposed, evidence
  is held for all of them when the ceiling is attested and for none otherwise, a session runs only
  in phase \<open>Active\<close>, where every participant accepted, and the boundary counts as torn down exactly
  when a teardown began.
\<close>

theorem boundary_state_recorded:
  "let s = lc_drive (boundary_lifecycle sd) boundary_default cs;
       es = lc_log (boundary_lifecycle sd) boundary_default cs
   in (\<forall>ps. ProposedEv ps \<in> set es \<longrightarrow> required s = ps) \<and>
      (\<forall>p. CeilingDeclared p \<in> set es \<longleftrightarrow> placement s = Some p) \<and>
      (\<forall>d g. DeviceBound d g \<in> set es \<longleftrightarrow> device_binding s = Some (d, g)) \<and>
      accepted s = {a. \<exists>ev. Accepted a ev \<in> set es} \<and> accepted s \<subseteq> required s \<and>
      (\<forall>p. placement s = Some p \<longrightarrow>
         dom (attestation_evidence s) = (if attested p then accepted s else {})) \<and>
      (session_started s \<longrightarrow> active s \<and> accepted s = required s) \<and>
      (torn_down s \<longleftrightarrow> TeardownBegun \<in> set es)"
proof -
  let ?s = "lc_drive (boundary_lifecycle sd) boundary_default cs"
  let ?es = "lc_log (boundary_lifecycle sd) boundary_default cs"
  have t: "boundary_tinv ?es ?s"
    using boundary_trace.log_tinv [of sd cs] by simp
  then have r: "boundary_recorded ?es ?s" and i: "boundary_inv ?s"
    by (simp_all add: boundary_tinv_def)
  from i have "session_started ?s \<longrightarrow> active ?s \<and> accepted ?s = required ?s"
    by (cases "phase ?s") (auto simp: boundary_inv_def active_def)
  moreover from i have "accepted ?s \<subseteq> required ?s" by (simp add: boundary_inv_def)
  moreover from i have "evidence_matches ?s" by (simp add: boundary_inv_def)
  then have "dom (attestation_evidence ?s) = (if attested p then accepted ?s else {})"
    if "placement ?s = Some p" for p
    using that by (simp add: evidence_matches_def)
  moreover from r have "accepted ?s = {a. \<exists>ev. Accepted a ev \<in> set ?es}"
    by (simp add: boundary_recorded_def set_eq_iff)
  ultimately show ?thesis
    using r by (simp add: Let_def boundary_recorded_def)
qed

theorem boundary_state_recorded_witness:
  "let sd = \<lparr>to_json = (\<lambda>_. []), from_json = (\<lambda>_. None)\<rparr>;
       s = lc_drive (boundary_lifecycle sd) boundary_default
             [Propose {''a''}, DeclareCeiling placement_local, BindDevice ''d'' ''g'',
              BindDevice ''d2'' ''g2'', Accept ''a'' None, StartSession]
   in device_binding s = Some (''d'', ''g'') \<and> active s"
  using boundary_state_recorded [of "\<lparr>to_json = (\<lambda>_. []), from_json = (\<lambda>_. None)\<rparr>"
      "[Propose {''a''}, DeclareCeiling placement_local, BindDevice ''d'' ''g'',
        BindDevice ''d2'' ''g2'', Accept ''a'' None, StartSession]"]
  by (simp add: Let_def lc_apply_def placement_local_def active_def)

text \<open>
  The placement policy is restrict-only and its strictness is what it says: a policy \<open>q\<close> admits
  no placement that \<open>p\<close> refuses exactly when \<open>q\<close> requires attestation wherever \<open>p\<close> does and
  allows only operators \<open>p\<close> allows (an empty set allowing all); so the open policy is the weakest.
  Through \<open>pairing_admitted\<close> an attested placement also needs its verified measurement.
\<close>

theorem policy_strictness:
  "(\<forall>d v. pairing_admitted q d v \<longrightarrow> pairing_admitted p d v) \<longleftrightarrow>
     (require_attested p \<longrightarrow> require_attested q) \<and>
     (allowed_operators p = {} \<or> allowed_operators p = UNIV \<or>
      (allowed_operators q \<noteq> {} \<and> allowed_operators q \<subseteq> allowed_operators p))"
  (is "?l \<longleftrightarrow> ?r")
proof
  assume l: ?l
  define ops where "ops = (\<lambda>p :: placement_policy. if allowed_operators p = {} then UNIV else allowed_operators p)"
  have adm: "pairing_admitted p \<lparr>operator = x, attested = a\<rparr> True \<longleftrightarrow>
      (require_attested p \<longrightarrow> a) \<and> x \<in> ops p" for p x a
    by (auto simp: pairing_admitted_def policy_admits_def ops_def)
  have sub: "(require_attested q \<longrightarrow> a) \<and> x \<in> ops q \<Longrightarrow> (require_attested p \<longrightarrow> a) \<and> x \<in> ops p"
    for x a using l adm by metis
  have "ops q \<noteq> {}" by (simp add: ops_def)
  then have "require_attested p \<longrightarrow> require_attested q" using sub [of False] by blast
  moreover have "ops q \<subseteq> ops p" using sub [of True] by blast
  ultimately show ?r by (auto simp: ops_def split: if_splits)
next
  assume ?r
  then show ?l by (auto simp: pairing_admitted_def policy_admits_def split: if_splits)
qed

theorem policy_strictness_witness:
  "pairing_admitted \<lparr>require_attested = True, allowed_operators = {Local}\<rparr>
     \<lparr>operator = Local, attested = True\<rparr> True \<and>
   pairing_admitted policy_open \<lparr>operator = Local, attested = True\<rparr> True"
  using policy_strictness [of "\<lparr>require_attested = True, allowed_operators = {Local}\<rparr>" policy_open]
  by (simp add: policy_open_def pairing_admitted_def policy_admits_def)

end
