(* ===== verification/Egress.thy ===== *)
theory Egress
  imports Prelude
begin

text \<open>
  The egress gate and engagement-scoped taint, \<open>crates/core/src/boundary.rs\<close> and
  \<open>crates/core/src/taint.rs\<close>: an output carries the owners of everything its engagement read, and
  crosses to a recipient outside the trusted base only with a basis from every other stakeholder.
\<close>

section \<open>The two gates and the read set\<close>

type_synonym basis = "authority_id \<times> authority_id"

definition taint :: "authority_id set \<Rightarrow> authority_id set" where
  "taint engagement_read_owners = engagement_read_owners"

definition allowed_egress ::
  "authority_id set \<Rightarrow> authority_id \<Rightarrow> authority_id set \<Rightarrow> basis set \<Rightarrow> bool" where
  "allowed_egress stakeholders recipient tcb bases =
     (if recipient \<in> tcb then True
      else \<forall>s \<in> Set.filter (\<lambda>s. s \<noteq> recipient) stakeholders. (s, recipient) \<in> bases)"

record engagement_reads =
  reads :: "string set"

definition reads_new :: engagement_reads where
  "reads_new = \<lparr>reads = {}\<rparr>"

definition reads_read :: "engagement_reads \<Rightarrow> string \<Rightarrow> engagement_reads" where
  "reads_read er item = er\<lparr>reads := insert item (reads er)\<rparr>"

definition reads_taint :: "engagement_reads \<Rightarrow> (string \<Rightarrow> string) \<Rightarrow> string set" where
  "reads_taint er owner_of = owner_of ` reads er"

definition can_egress ::
  "string set \<Rightarrow> string \<Rightarrow> string set \<Rightarrow> (string \<times> string) set \<Rightarrow> bool" where
  "can_egress tnt dst tcb bases \<longleftrightarrow>
     dst \<in> tcb \<or> (\<forall>a \<in> Set.filter (\<lambda>a. a \<noteq> dst) tnt. (a, dst) \<in> bases)"

section \<open>The gate over an engagement\<close>

lemma reads_foldl: "reads (foldl reads_read er items) = reads er \<union> set items"
  by (induction items arbitrary: er) (auto simp: reads_read_def)

lemma can_egress_iff:
  "can_egress tnt dst tcb bases \<longleftrightarrow> dst \<in> tcb \<or> (\<forall>a \<in> tnt. a = dst \<or> (a, dst) \<in> bases)"
  by (auto simp: can_egress_def)

lemma can_egress_antimono:
  assumes "tnt \<subseteq> tnt'" and "can_egress tnt' dst tcb bases"
  shows "can_egress tnt dst tcb bases"
  using assms by (auto simp: can_egress_iff)

text \<open>The gates of the two modules give the same answer.\<close>

lemma gates_agree: "allowed_egress (taint tnt) dst tcb bases = can_egress tnt dst tcb bases"
  by (auto simp: allowed_egress_def taint_def can_egress_def)

text \<open>
  The whole engagement counts: an output produced after the items were read in turn crosses to \<open>dst\<close>
  exactly when \<open>dst\<close> is trusted or every owner of an item other than \<open>dst\<close> itself has a basis towards
  \<open>dst\<close>, and reading more never opens a recipient.
\<close>

lemma engagement_egress:
  "can_egress (reads_taint (foldl reads_read reads_new items) owner_of) dst tcb bases \<longleftrightarrow>
     dst \<in> tcb \<or> (\<forall>i \<in> set items. owner_of i = dst \<or> (owner_of i, dst) \<in> bases)"
  by (auto simp: reads_taint_def reads_foldl reads_new_def can_egress_iff)

lemma engagement_reads_close:
  "can_egress (reads_taint (foldl reads_read er later) owner_of) dst tcb bases \<Longrightarrow>
     can_egress (reads_taint er owner_of) dst tcb bases"
  by (rule can_egress_antimono) (auto simp: reads_taint_def reads_foldl)

end
