(* ===== verification/Access.thy ===== *)
theory Access
  imports Prelude
begin

text \<open>
  The two role mechanisms of the core: the restrict-only attribute policy,
  \<open>crates/core/src/abac.rs\<close>, evaluated over the verdict of the protection floor, and the
  default-deny capability matrix of the admin console, \<open>crates/core/src/rbac.rs\<close>.
\<close>

section \<open>Attributes and the request\<close>

datatype classification = Public | Internal | Pii | Regulated

type_synonym region = string
type_synonym purpose = string
type_synonym role = string
type_synonym tenant = string
type_synonym clearance = u8

definition classification_default :: classification where
  "classification_default = Regulated"

definition implied_by :: "role \<Rightarrow> clearance" where
  "implied_by r =
     (if r = ''owner'' \<or> r = ''admin'' then 3
      else if r = ''member'' then 2
      else if r = ''viewer'' then 1
      else 0)"

record resource_attributes =
  classification :: classification
  res_region :: "region option"
  purpose :: "purpose set"

record authority_attributes =
  clearance :: clearance
  affiliation :: "tenant option"
  roles :: "role set"
  auth_region :: "region option"

definition effective_clearance :: "authority_attributes \<Rightarrow> clearance" where
  "effective_clearance a = Max (implied_by ` roles a \<union> {clearance a})"

datatype action = Access | Run | Export

record abac_context =
  ceiling_attested :: bool

record decision =
  actor :: authority_attributes
  resource :: resource_attributes
  action :: action
  ctx :: abac_context

section \<open>The policy and its evaluation\<close>

datatype condition = Always | ClassificationIs classification | ActorHasRole role

datatype abac_constraint =
    RequireAttestedCeiling
  | RequireResourceRegionMatchesActor
  | DenyAction action

record rule =
  rule_when :: condition
  rule_require :: abac_constraint

record policy =
  rules :: "rule list"

definition enterprise_example :: policy where
  "enterprise_example = \<lparr>rules =
     [\<lparr>rule_when = ClassificationIs Pii, rule_require = RequireAttestedCeiling\<rparr>,
      \<lparr>rule_when = ClassificationIs Pii, rule_require = RequireResourceRegionMatchesActor\<rparr>,
      \<lparr>rule_when = ActorHasRole ''viewer'', rule_require = DenyAction Export\<rparr>]\<rparr>"

record constraints =
  require_attested :: bool
  require_actor_region :: bool
  denied_actions :: "action set"

definition constraints_default :: constraints where
  "constraints_default =
     \<lparr>require_attested = False, require_actor_region = False, denied_actions = {}\<rparr>"

fun condition_holds :: "condition \<Rightarrow> decision \<Rightarrow> bool" where
  "condition_holds Always d = True"
| "condition_holds (ClassificationIs k) d = (classification (resource d) = k)"
| "condition_holds (ActorHasRole r) d = (r \<in> roles (actor d))"

fun impose :: "abac_constraint \<Rightarrow> constraints \<Rightarrow> constraints" where
  "impose RequireAttestedCeiling c = c\<lparr>require_attested := True\<rparr>"
| "impose RequireResourceRegionMatchesActor c = c\<lparr>require_actor_region := True\<rparr>"
| "impose (DenyAction a) c = c\<lparr>denied_actions := insert a (denied_actions c)\<rparr>"

definition evaluate :: "policy \<Rightarrow> decision \<Rightarrow> constraints" where
  "evaluate p d =
     foldl (\<lambda>c r. if condition_holds (rule_when r) d then impose (rule_require r) c else c)
       constraints_default (rules p)"

definition regions_match :: "decision \<Rightarrow> bool" where
  "regions_match d =
     (case (res_region (resource d), auth_region (actor d)) of
        (Some rr, Some ar) \<Rightarrow> rr = ar
      | _ \<Rightarrow> False)"

definition constraints_satisfied :: "constraints \<Rightarrow> decision \<Rightarrow> bool" where
  "constraints_satisfied c d =
     (if require_attested c \<and> \<not> ceiling_attested (ctx d) then False
      else if require_actor_region c \<and> \<not> regions_match d then False
      else if action d \<in> denied_actions c then False
      else True)"

definition permitted_with_policy :: "bool \<Rightarrow> policy \<Rightarrow> decision \<Rightarrow> bool" where
  "permitted_with_policy baseline p d \<longleftrightarrow> baseline \<and> constraints_satisfied (evaluate p d) d"

section \<open>The admin console\<close>

datatype capability =
    ManageOrgLifecycle
  | GrantPrivilegedRoles
  | EditOrgSettings
  | ManageMembers
  | ConfigureSso
  | ConfigureProvisioning
  | ViewAudit
  | ConfigureSecurity
  | ManageBilling

definition capability_ALL :: "capability list" where
  "capability_ALL = [ManageOrgLifecycle, GrantPrivilegedRoles, EditOrgSettings, ManageMembers,
     ConfigureSso, ConfigureProvisioning, ViewAudit, ConfigureSecurity, ManageBilling]"

fun capability_as_str :: "capability \<Rightarrow> string" where
  "capability_as_str ManageOrgLifecycle = ''manage_org_lifecycle''"
| "capability_as_str GrantPrivilegedRoles = ''grant_privileged_roles''"
| "capability_as_str EditOrgSettings = ''edit_org_settings''"
| "capability_as_str ManageMembers = ''manage_members''"
| "capability_as_str ConfigureSso = ''configure_sso''"
| "capability_as_str ConfigureProvisioning = ''configure_provisioning''"
| "capability_as_str ViewAudit = ''view_audit''"
| "capability_as_str ConfigureSecurity = ''configure_security''"
| "capability_as_str ManageBilling = ''manage_billing''"

definition role_can :: "role \<Rightarrow> capability \<Rightarrow> bool" where
  "role_can r cap =
     (if r = ''owner'' then True
      else if r = ''admin'' then
        cap \<in> {EditOrgSettings, ManageMembers, ConfigureSso, ConfigureProvisioning,
                ConfigureSecurity, ViewAudit}
      else if r = ''auditor'' then cap = ViewAudit
      else if r = ''billing'' then cap = ManageBilling
      else False)"

definition can_access_console :: "role \<Rightarrow> bool" where
  "can_access_console r \<longleftrightarrow> list_ex (role_can r) capability_ALL"

section \<open>The evaluator, rule by rule\<close>

definition constraint_met :: "abac_constraint \<Rightarrow> decision \<Rightarrow> bool" where
  "constraint_met k d =
     (case k of
        RequireAttestedCeiling \<Rightarrow> ceiling_attested (ctx d)
      | RequireResourceRegionMatchesActor \<Rightarrow>
          res_region (resource d) = auth_region (actor d) \<and> res_region (resource d) \<noteq> None
      | DenyAction a \<Rightarrow> action d \<noteq> a)"

definition rule_allows :: "rule \<Rightarrow> decision \<Rightarrow> bool" where
  "rule_allows r d \<longleftrightarrow> (condition_holds (rule_when r) d \<longrightarrow> constraint_met (rule_require r) d)"

lemma regions_match_iff:
  "regions_match d \<longleftrightarrow>
     res_region (resource d) = auth_region (actor d) \<and> res_region (resource d) \<noteq> None"
  by (auto simp: regions_match_def split: option.splits)

lemma impose_satisfied:
  "constraints_satisfied (impose k c) d \<longleftrightarrow> constraints_satisfied c d \<and> constraint_met k d"
  by (cases k) (auto simp: constraints_satisfied_def constraint_met_def regions_match_iff)

lemma evaluate_foldl_satisfied:
  "constraints_satisfied
     (foldl (\<lambda>c r. if condition_holds (rule_when r) d then impose (rule_require r) c else c) c rs) d \<longleftrightarrow>
     constraints_satisfied c d \<and> (\<forall>r \<in> set rs. rule_allows r d)"
  by (induction rs arbitrary: c) (auto simp: impose_satisfied rule_allows_def)

lemma permitted_iff:
  "permitted_with_policy b p d \<longleftrightarrow> b \<and> (\<forall>r \<in> set (rules p). rule_allows r d)"
proof -
  have "constraints_satisfied constraints_default d"
    by (simp add: constraints_satisfied_def constraints_default_def)
  then show ?thesis
    by (simp add: permitted_with_policy_def evaluate_def evaluate_foldl_satisfied)
qed

section \<open>The capability matrix\<close>

lemma role_can_simps:
  "role_can ''owner'' c"
  "role_can ''auditor'' c \<longleftrightarrow> c = ViewAudit"
  "role_can ''billing'' c \<longleftrightarrow> c = ManageBilling"
  "role_can ''admin'' c \<longleftrightarrow>
     c \<notin> {ManageOrgLifecycle, GrantPrivilegedRoles, ManageBilling}"
  "r \<notin> {''owner'', ''admin'', ''auditor'', ''billing''} \<Longrightarrow> \<not> role_can r c"
  by (cases c; simp add: role_can_def)+

lemma can_access_console_iff: "can_access_console r \<longleftrightarrow> (\<exists>c. role_can r c)"
proof -
  have "c \<in> set capability_ALL" for c by (cases c) (simp_all add: capability_ALL_def)
  then show ?thesis by (auto simp: can_access_console_def list_ex_iff)
qed

lemma role_can_some: "(\<exists>c. role_can r c) \<longleftrightarrow> r \<in> {''owner'', ''admin'', ''auditor'', ''billing''}"
  using role_can_simps by blast

lemma admin_below_owner: "{c. role_can ''admin'' c} \<subset> {c. role_can ''owner'' c}"
  by (auto simp: role_can_simps)

section \<open>Properties\<close>

text \<open>
  The attribute policy is restrict-only (\<open>ABAC_MONOTONE\<close>): the accumulated constraints permit a
  request exactly when the floor does and every rule, taken alone, allows it. So a policy never
  grants what the floor denies, the order and repetition of rules do not matter, and adding rules
  only narrows.
\<close>

theorem abac_monotone:
  "permitted_with_policy b p d = (b \<and> (\<forall>r \<in> set (rules p). rule_allows r d)) \<and>
   (set (rules p) \<subseteq> set (rules q) \<longrightarrow>
     permitted_with_policy b q d \<longrightarrow> permitted_with_policy b p d \<and> b)"
  using permitted_iff by blast

theorem abac_monotone_witness:
  "\<not> permitted_with_policy True enterprise_example
       \<lparr>actor = \<lparr>clearance = 3, affiliation = None, roles = {''viewer''}, auth_region = None\<rparr>,
        resource = \<lparr>classification = Internal, res_region = None, purpose = {}\<rparr>,
        action = Export, ctx = \<lparr>ceiling_attested = True\<rparr>\<rparr>"
  using abac_monotone [of True enterprise_example
      "\<lparr>actor = \<lparr>clearance = 3, affiliation = None, roles = {''viewer''}, auth_region = None\<rparr>,
        resource = \<lparr>classification = Internal, res_region = None, purpose = {}\<rparr>,
        action = Export, ctx = \<lparr>ceiling_attested = True\<rparr>\<rparr>" enterprise_example]
  by (simp add: enterprise_example_def rule_allows_def constraint_met_def)

text \<open>
  The evaluated clearance is a floor: it is the least level that dominates both what the
  identity provider asserted and what every role of the authority implies, so omitting the claim
  never lowers an authority below its roles and a role never lowers an asserted claim.
\<close>

theorem effective_clearance_least:
  assumes "finite (roles a)"
  shows "effective_clearance a \<le> n \<longleftrightarrow>
    clearance a \<le> n \<and> (\<forall>r \<in> roles a. implied_by r \<le> n)"
  using assms by (auto simp: effective_clearance_def)

theorem effective_clearance_least_witness:
  "(3 :: u8) \<le> effective_clearance \<lparr>clearance = 0, affiliation = None,
      roles = {''billing'', ''admin''}, auth_region = None\<rparr>"
  using effective_clearance_least [of "\<lparr>clearance = 0, affiliation = None,
      roles = {''billing'', ''admin''}, auth_region = None\<rparr>"
      "effective_clearance \<lparr>clearance = 0, affiliation = None,
      roles = {''billing'', ''admin''}, auth_region = None\<rparr>"]
  by (simp add: implied_by_def)

text \<open>
  Separation of duties in the admin console: only the owner can end the organization or grant a
  privileged role; apart from the owner nobody who controls spend can do anything else, and nobody
  who is confined to reading the audit can write; the owner's capabilities strictly include the
  admin's; and the console opens exactly for the four recognized duties.
\<close>

theorem rbac_separation:
  "(role_can r ManageOrgLifecycle \<or> role_can r GrantPrivilegedRoles \<longrightarrow> r = ''owner'') \<and>
   (role_can r ManageBilling \<and> role_can r c \<and> c \<noteq> ManageBilling \<longrightarrow> r = ''owner'') \<and>
   (role_can ''auditor'' c \<longrightarrow> c = ViewAudit) \<and>
   {c. role_can ''admin'' c} \<subset> {c. role_can ''owner'' c} \<and>
   (can_access_console r \<longleftrightarrow> (\<exists>c. role_can r c)) \<and>
   (can_access_console r \<longleftrightarrow> r \<in> {''owner'', ''admin'', ''auditor'', ''billing''})"
proof -
  consider "r = ''owner''" | "r = ''admin''" | "r = ''auditor''" | "r = ''billing''"
    | "r \<notin> {''owner'', ''admin'', ''auditor'', ''billing''}" by blast
  then have "(role_can r ManageOrgLifecycle \<or> role_can r GrantPrivilegedRoles \<longrightarrow> r = ''owner'') \<and>
      (role_can r ManageBilling \<and> role_can r c \<and> c \<noteq> ManageBilling \<longrightarrow> r = ''owner'')"
    by cases (simp_all add: role_can_simps)
  then show ?thesis
    using role_can_some [of r] admin_below_owner can_access_console_iff [of r] role_can_simps(2) [of c]
    by argo
qed

theorem rbac_separation_witness:
  "role_can ''billing'' ManageBilling \<and> \<not> role_can ''billing'' ViewAudit \<and>
   can_access_console ''billing''"
  using rbac_separation [of "''billing''" ViewAudit]
  by (simp add: role_can_def)

end
