(* ===== verification/Bridge.thy ===== *)
theory Bridge
  imports Prelude
begin

text \<open>
  The keys of a federation bridge: signatures (\<open>crates/core/src/signature.rs\<close>), device subkey
  delegations and their revocations (\<open>delegation.rs\<close>), and bridge grants (\<open>bridge_grant.rs\<close>). The
  elliptic-curve and hex crates are parameters, collected in the record \<open>crypto\<close>; what the code
  relies on of them is \<open>crypto_ok\<close>.
\<close>

section \<open>The crates the code calls\<close>

record ('sk, 'vk, 'sg) crypto =
  hex_encode :: "u8 list \<Rightarrow> string"
  hex_decode :: "string \<Rightarrow> u8 list option"
  vk_to_sec1 :: "'vk \<Rightarrow> u8 list"
  vk_from_sec1 :: "u8 list \<Rightarrow> 'vk option"
  sig_to_bytes :: "'sg \<Rightarrow> u8 list"
  sig_from_slice :: "u8 list \<Rightarrow> 'sg option"
  sk_from_slice :: "u8 list \<Rightarrow> 'sk option"
  sk_to_bytes :: "'sk \<Rightarrow> u8 list"
  sk_verifying :: "'sk \<Rightarrow> 'vk"
  sk_sign :: "'sk \<Rightarrow> u8 list \<Rightarrow> 'sg"
  vk_verify :: "'vk \<Rightarrow> u8 list \<Rightarrow> 'sg \<Rightarrow> bool"

definition hex_digit :: "char \<Rightarrow> bool" where
  "hex_digit c \<longleftrightarrow> c \<in> set ''0123456789abcdefABCDEF''"

text \<open>
  The documented behaviour the code relies on: hex, key, signature and seed encodings are read back,
  only hex digits decode, a signature is 64 bytes, and a key verifies what it signed.
\<close>

definition crypto_ok :: "('sk, 'vk, 'sg) crypto \<Rightarrow> bool" where
  "crypto_ok K \<longleftrightarrow>
     (\<forall>bs. hex_decode K (hex_encode K bs) = Some bs) \<and>
     (\<forall>s. hex_decode K s \<noteq> None \<longrightarrow> (\<forall>c \<in> set s. hex_digit c)) \<and>
     (\<forall>vk. vk_from_sec1 K (vk_to_sec1 K vk) = Some vk) \<and>
     (\<forall>sg. sig_from_slice K (sig_to_bytes K sg) = Some sg \<and> length (sig_to_bytes K sg) = 64) \<and>
     (\<forall>sk. sk_from_slice K (sk_to_bytes K sk) = Some sk) \<and>
     (\<forall>sk m. vk_verify K (sk_verifying K sk) m (sk_sign K sk m))"

section \<open>Signatures\<close>

datatype signature = Signature (sig_bytes: "u8 list")

datatype signature_error = SignatureError string

definition P256_SIG_LEN :: nat where
  "P256_SIG_LEN = 64"

definition sk_from_seed :: "('sk, 'vk, 'sg) crypto \<Rightarrow> u8 list \<Rightarrow> signature_error + 'sk" where
  "sk_from_seed K seed =
     (case sk_from_slice K seed of
        None \<Rightarrow> Inl (SignatureError ''seed is not a valid P-256 scalar'')
      | Some k \<Rightarrow> Inr k)"

definition pub_key :: "('sk, 'vk, 'sg) crypto \<Rightarrow> 'sk \<Rightarrow> public_key" where
  "pub_key K sk = hex_encode K (vk_to_sec1 K (sk_verifying K sk))"

definition sign :: "('sk, 'vk, 'sg) crypto \<Rightarrow> 'sk \<Rightarrow> u8 list \<Rightarrow> signature" where
  "sign K sk msg = Signature (sig_to_bytes K (sk_sign K sk msg))"

definition to_seed_bytes :: "('sk, 'vk, 'sg) crypto \<Rightarrow> 'sk \<Rightarrow> u8 list" where
  "to_seed_bytes K sk = sk_to_bytes K sk"

definition verify_signature ::
  "('sk, 'vk, 'sg) crypto \<Rightarrow> u8 list \<Rightarrow> signature \<Rightarrow> public_key \<Rightarrow> signature_error + bool" where
  "verify_signature K msg sg pk =
     (case hex_decode K pk of
        None \<Rightarrow> Inl (SignatureError ''public key is not valid hex'')
      | Some key_bytes \<Rightarrow>
          (case vk_from_sec1 K key_bytes of
             None \<Rightarrow> Inl (SignatureError ''public key is not a valid P-256 point'')
           | Some verifying \<Rightarrow>
               if length (sig_bytes sg) \<noteq> P256_SIG_LEN then Inr False
               else (case sig_from_slice K (sig_bytes sg) of
                       Some parsed \<Rightarrow> Inr (vk_verify K verifying msg parsed)
                     | None \<Rightarrow> Inr False)))"

section \<open>Device delegations and revocations\<close>

record device_delegation =
  subkey :: public_key
  authority_root :: public_key
  expiry :: u64
  signature :: signature

definition delegation_text :: "public_key \<Rightarrow> public_key \<Rightarrow> u64 \<Rightarrow> string" where
  "delegation_text sub root ex =
     ''gaugewright-device-delegation::v1::root='' @ root @ ''::sub='' @ sub @ ''::exp='' @
     decimal (unat ex)"

definition delegation_bytes :: "public_key \<Rightarrow> public_key \<Rightarrow> u64 \<Rightarrow> u8 list" where
  "delegation_bytes sub root ex = bytes_of (delegation_text sub root ex)"

datatype delegation_rejection = BadSignature | Expired

definition delegation_issue ::
  "('sk, 'vk, 'sg) crypto \<Rightarrow> 'sk \<Rightarrow> public_key \<Rightarrow> u64 \<Rightarrow> device_delegation" where
  "delegation_issue K root sub ex =
     (let rt = pub_key K root; bs = delegation_bytes sub rt ex
      in \<lparr>subkey = sub, authority_root = rt, expiry = ex, signature = sign K root bs\<rparr>)"

definition delegation_verify ::
  "('sk, 'vk, 'sg) crypto \<Rightarrow> device_delegation \<Rightarrow> u64 \<Rightarrow> delegation_rejection + unit" where
  "delegation_verify K d now =
     (if now \<ge> expiry d then Inl Expired
      else let bs = delegation_bytes (subkey d) (authority_root d) (expiry d)
           in if verify_signature K bs (signature d) (authority_root d) = Inr True then Inr ()
              else Inl BadSignature)"

record subkey_revocation =
  rev_subkey :: public_key
  rev_authority_root :: public_key
  issued_at :: u64
  rev_signature :: signature

definition revocation_text :: "public_key \<Rightarrow> public_key \<Rightarrow> u64 \<Rightarrow> string" where
  "revocation_text sub root t =
     ''gaugewright-subkey-revocation::v1::root='' @ root @ ''::sub='' @ sub @ ''::at='' @
     decimal (unat t)"

definition revocation_bytes :: "public_key \<Rightarrow> public_key \<Rightarrow> u64 \<Rightarrow> u8 list" where
  "revocation_bytes sub root t = bytes_of (revocation_text sub root t)"

definition revocation_issue ::
  "('sk, 'vk, 'sg) crypto \<Rightarrow> 'sk \<Rightarrow> public_key \<Rightarrow> u64 \<Rightarrow> subkey_revocation" where
  "revocation_issue K root sub t =
     (let rt = pub_key K root; bs = revocation_bytes sub rt t
      in \<lparr>rev_subkey = sub, rev_authority_root = rt, issued_at = t, rev_signature = sign K root bs\<rparr>)"

definition revocation_verify ::
  "('sk, 'vk, 'sg) crypto \<Rightarrow> subkey_revocation \<Rightarrow> delegation_rejection + unit" where
  "revocation_verify K r =
     (let bs = revocation_bytes (rev_subkey r) (rev_authority_root r) (issued_at r)
      in if verify_signature K bs (rev_signature r) (rev_authority_root r) = Inr True then Inr ()
         else Inl BadSignature)"

section \<open>Bridge grants\<close>

record bridge_grant =
  grant_id :: bridge_grant_id
  source_authority_root_pubkey :: public_key
  source_authority_key_id :: key_id
  target_environment :: string
  target_route :: string
  device_key :: public_key
  governance_scope :: string
  grant_expiry :: u64
  grant_active :: bool

definition grant_is_valid :: "bridge_grant \<Rightarrow> u64 \<Rightarrow> bool" where
  "grant_is_valid g now \<longleftrightarrow> grant_active g \<and> now < grant_expiry g"

section \<open>The authorities at a federation edge\<close>

datatype authority = NoAuthority | Source | Target | Relay

section \<open>Signing and verifying\<close>

lemma verify_sign:
  assumes "crypto_ok K"
  shows "verify_signature K m (sign K sk m) (pub_key K sk) = Inr True"
  using assms by (simp add: crypto_ok_def verify_signature_def sign_def pub_key_def P256_SIG_LEN_def)

lemma verified_key_is_hex:
  assumes "crypto_ok K" and "verify_signature K m sg pk = Inr b" and "c \<in> set pk"
  shows "hex_digit c"
  using assms by (auto simp: crypto_ok_def verify_signature_def split: option.splits)

section \<open>What the signed bytes determine\<close>

lemma takeWhile_split_eq:
  assumes "x @ c # r = y @ c # s" and "c \<notin> set x" and "c \<notin> set y"
  shows "x = y \<and> r = s"
  using assms
proof (induction x arbitrary: y)
  case Nil
  then show ?case by (cases y) auto
next
  case (Cons a x)
  then show ?case by (cases y) auto
qed

lemma last_split_eq:
  assumes "r @ c # x = s @ c # y" and "c \<notin> set x" and "c \<notin> set y"
  shows "x = y \<and> r = s"
proof -
  have "rev x @ c # rev r = rev y @ c # rev s"
    using arg_cong [OF assms(1), of rev] by simp
  from takeWhile_split_eq [OF this] assms(2,3) show ?thesis by simp
qed

lemma hex_not_colon: "hex_digit c \<Longrightarrow> c \<noteq> CHR '':''"
  by (auto simp: hex_digit_def)

lemma delegation_text_inj:
  assumes eq: "delegation_text s r e = delegation_text s' r' e'"
    and r: "CHR '':'' \<notin> set r" "CHR '':'' \<notin> set r'"
  shows "s = s' \<and> r = r' \<and> e = e'"
proof -
  have "r @ CHR '':'' # '':sub='' @ s @ ''::exp='' @ decimal (unat e) =
      r' @ CHR '':'' # '':sub='' @ s' @ ''::exp='' @ decimal (unat e')"
    using eq by (simp add: delegation_text_def)
  from takeWhile_split_eq [OF this r]
  have rr: "r = r'" and "(s @ '':'') @ CHR '':'' # ''exp='' @ decimal (unat e) =
      (s' @ '':'') @ CHR '':'' # ''exp='' @ decimal (unat e')"
    by simp_all
  from last_split_eq [OF this(2)] have "s = s'" and "decimal (unat e) = decimal (unat e')"
    using decimal_no_colon by simp_all
  with rr show ?thesis using decimal_inj by (simp add: unsigned_word_eqI)
qed

lemma delegation_not_revocation: "delegation_bytes s r e \<noteq> revocation_bytes s' r' t"
  by (simp add: delegation_bytes_def revocation_bytes_def bytes_of_inj
      delegation_text_def revocation_text_def)

section \<open>A concrete instance of the parameters\<close>

text \<open>Hex itself, and a keyed checksum in the place of the curve: it meets \<open>crypto_ok\<close>, so the
  hypothesis of the properties can hold.\<close>

definition hex_chr :: "nat \<Rightarrow> char" where
  "hex_chr n = ''0123456789abcdef'' ! n"

definition hex_val :: "char \<Rightarrow> nat option" where
  "hex_val c = map_of (zip ''0123456789abcdefABCDEF''
     ([0..<16] @ [10..<16])) c"

fun ref_hex_encode :: "u8 list \<Rightarrow> string" where
  "ref_hex_encode [] = []"
| "ref_hex_encode (b # bs) = hex_chr (unat b div 16) # hex_chr (unat b mod 16) # ref_hex_encode bs"

fun ref_hex_decode :: "string \<Rightarrow> u8 list option" where
  "ref_hex_decode [] = Some []"
| "ref_hex_decode [c] = None"
| "ref_hex_decode (c # d # cs) =
     (case (hex_val c, hex_val d, ref_hex_decode cs) of
        (Some a, Some b, Some bs) \<Rightarrow> Some (word_of_nat (16 * a + b) # bs)
      | _ \<Rightarrow> None)"

definition ref_crypto :: "(u8, u8, u8) crypto" where
  "ref_crypto = \<lparr>hex_encode = ref_hex_encode, hex_decode = ref_hex_decode,
     vk_to_sec1 = (\<lambda>v. [v]), vk_from_sec1 = (\<lambda>bs. case bs of [v] \<Rightarrow> Some v | _ \<Rightarrow> None),
     sig_to_bytes = (\<lambda>g. replicate 64 g),
     sig_from_slice = (\<lambda>bs. case bs of g # _ \<Rightarrow> Some g | [] \<Rightarrow> None),
     sk_from_slice = (\<lambda>bs. case bs of [v] \<Rightarrow> Some v | _ \<Rightarrow> None), sk_to_bytes = (\<lambda>v. [v]),
     sk_verifying = (\<lambda>k. k), sk_sign = (\<lambda>k m. k + sum_list m),
     vk_verify = (\<lambda>v m g. g = v + sum_list m)\<rparr>"

lemma hex_val_chr: "n < 16 \<Longrightarrow> hex_val (hex_chr n) = Some n"
  by (auto simp: less_Suc_eq numeral_eq_Suc hex_val_def hex_chr_def upt_conv_Cons)

lemma hex_val_digit: "hex_val c = Some n \<Longrightarrow> hex_digit c"
  unfolding hex_val_def hex_digit_def
  by (drule map_of_SomeD, drule set_zip_leftD) simp

lemma ref_hex_roundtrip: "ref_hex_decode (ref_hex_encode bs) = Some bs"
proof (induction bs)
  case (Cons b bs)
  have "unat b < 256" using unsigned_less [of b] by simp
  then have "unat b div 16 < 16" by simp
  with Cons show ?case by (simp add: hex_val_chr)
qed simp

lemma ref_hex_digits: "ref_hex_decode s \<noteq> None \<Longrightarrow> \<forall>c \<in> set s. hex_digit c"
  by (induction s rule: ref_hex_decode.induct) (auto split: option.splits dest: hex_val_digit)

lemma ref_crypto_ok: "crypto_ok ref_crypto"
  using ref_hex_digits by (auto simp: crypto_ok_def ref_crypto_def ref_hex_roundtrip numeral_eq_Suc)

section \<open>Properties\<close>

text \<open>
  A delegation, once issued by a root key, verifies exactly until its expiry, under any crates
  that behave as documented; so does a revocation, which never expires.
\<close>

theorem delegation_issue_verifies:
  assumes "crypto_ok K"
  shows "(delegation_verify K (delegation_issue K root sub ex) now = Inr () \<longleftrightarrow> now < ex) \<and>
    revocation_verify K (revocation_issue K root sub now) = Inr ()"
  using verify_sign [OF assms]
  by (auto simp: delegation_verify_def delegation_issue_def revocation_verify_def
      revocation_issue_def Let_def)

theorem delegation_issue_verifies_witness:
  "delegation_verify ref_crypto (delegation_issue ref_crypto 5 ''0a'' 100) 99 = Inr () \<and>
   delegation_verify ref_crypto (delegation_issue ref_crypto 5 ''0a'' 100) 100 \<noteq> Inr ()"
  using delegation_issue_verifies [OF ref_crypto_ok, of 5 "''0a''" 100 99]
    delegation_issue_verifies [OF ref_crypto_ok, of 5 "''0a''" 100 100]
  by simp

text \<open>
  C37. A signature on a delegation cannot be replayed: two delegations that verify and were signed over
  the same bytes make the same claim (subkey, root and expiry), and the bytes of a delegation are
  never those of a revocation. The first half needs the roots to be decodable keys, which
  verification enforces; a subkey may be any text.
\<close>

theorem delegation_no_replay:
  assumes "crypto_ok K"
    and "delegation_verify K d now = Inr ()" and "delegation_verify K d' now' = Inr ()"
    and "delegation_bytes (subkey d) (authority_root d) (expiry d) =
      delegation_bytes (subkey d') (authority_root d') (expiry d')"
  shows "subkey d = subkey d' \<and> authority_root d = authority_root d' \<and> expiry d = expiry d' \<and>
    delegation_bytes (subkey d) (authority_root d) (expiry d) \<noteq> revocation_bytes s r t"
proof -
  have root: "CHR '':'' \<notin> set (authority_root d)" if "delegation_verify K d now = Inr ()" for d now
    using that verified_key_is_hex [OF assms(1)] hex_not_colon
    by (fastforce simp: delegation_verify_def Let_def split: if_splits)
  have "delegation_text (subkey d) (authority_root d) (expiry d) =
      delegation_text (subkey d') (authority_root d') (expiry d')"
    using assms(4) by (simp add: delegation_bytes_def bytes_of_inj)
  from delegation_text_inj [OF this root [OF assms(2)] root [OF assms(3)]]
  show ?thesis using delegation_not_revocation by simp
qed

theorem delegation_no_replay_witness:
  "let d = delegation_issue ref_crypto 5 ''0a'' 100
   in delegation_verify ref_crypto d 1 = Inr () \<and>
      delegation_bytes (subkey d) (authority_root d) (expiry d) \<noteq> revocation_bytes ''x'' ''y'' 0"
proof -
  let ?d = "delegation_issue ref_crypto 5 ''0a'' 100"
  have "delegation_verify ref_crypto ?d 1 = Inr ()"
    using verify_sign [OF ref_crypto_ok]
    by (simp add: delegation_verify_def delegation_issue_def Let_def word_le_nat_alt)
  then show ?thesis
    using delegation_no_replay [OF ref_crypto_ok, of ?d 1 ?d 1 "''x''" "''y''" 0]
    by (simp add: Let_def)
qed

end
