(* ===== verification/Federation.thy ===== *)
theory Federation
  imports Lifecycle Bridge
begin

text \<open>
  The federation crossing rule, \<open>crates/core/src/federation.rs\<close>: a source authorizes a crossing, a
  relay routes it, and the target admits it after checking that the envelope's key chains to the
  root its bridge grant pins, that the signature verifies and that the grant is still valid.
\<close>

section \<open>States, commands, events\<close>

datatype crossing_phase = Init | SourcePermitted | Routed | Admitted

record crossing_state =
  phase :: crossing_phase

definition source_permitted :: "crossing_state \<Rightarrow> bool" where
  "source_permitted s \<longleftrightarrow> phase s \<noteq> Init"

definition routed :: "crossing_state \<Rightarrow> bool" where
  "routed s \<longleftrightarrow> phase s \<in> {Routed, Admitted}"

definition target_admitted :: "crossing_state \<Rightarrow> bool" where
  "target_admitted s \<longleftrightarrow> phase s = Admitted"

definition target_fact_admitted_by :: "crossing_state \<Rightarrow> authority" where
  "target_fact_admitted_by s = (if target_admitted s then Target else NoAuthority)"

definition payload_authority :: "crossing_state \<Rightarrow> authority" where
  "payload_authority s = Source"

definition relay_has_payload_access :: "crossing_state \<Rightarrow> bool" where
  "relay_has_payload_access s = False"

definition crossing_default :: crossing_state where
  "crossing_default = \<lparr>phase = Init\<rparr>"

record crossing_envelope =
  signed_bytes :: "u8 list"
  env_signature :: signature
  source_pubkey :: public_key
  delegation :: "device_delegation option"

datatype crossing_command =
    SourceAuthorize
  | RelayRoute
  | TargetAdmit crossing_envelope bridge_grant u64

datatype crossing_event = SourcePermittedEv | RoutedEv | TargetFactWritten

section \<open>The reducer\<close>

text \<open>The key the envelope must verify under, or the rejection of a key that does not chain to the
  pinned root.\<close>

definition verify_key ::
  "('sk, 'vk, 'sg) crypto \<Rightarrow> crossing_envelope \<Rightarrow> bridge_grant \<Rightarrow> u64 \<Rightarrow> public_key outcome" where
  "verify_key K env g now =
     (case delegation env of
        None \<Rightarrow>
          if source_pubkey env \<noteq> source_authority_root_pubkey g
          then reject ''targetAdmit: envelope source key does not match the grant's pinned source-authority key (INV-21, C-1)''
          else Inr (source_authority_root_pubkey g)
      | Some d \<Rightarrow>
          if authority_root d \<noteq> source_authority_root_pubkey g
          then reject ''targetAdmit: device delegation is not issued by the grant's pinned source-authority root (INV-21, C-1)''
          else if \<not> is_ok (delegation_verify K d now)
          then reject ''targetAdmit: device delegation is invalid or expired (INV-21)''
          else if source_pubkey env \<noteq> subkey d
          then reject ''targetAdmit: envelope source key is not the delegated device subkey (INV-21)''
          else Inr (subkey d))"

fun crossing_decide ::
  "('sk, 'vk, 'sg) crypto \<Rightarrow> crossing_state \<Rightarrow> crossing_command \<Rightarrow> crossing_event list outcome" where
  "crossing_decide K s SourceAuthorize = Inr [SourcePermittedEv]"
| "crossing_decide K s RelayRoute =
     (if source_permitted s then Inr [RoutedEv]
      else reject ''relayRoute: crossing not source-permitted (no BYPASS_SOURCE)'')"
| "crossing_decide K s (TargetAdmit env g now) =
     (if \<not> (routed s \<and> source_permitted s)
      then reject ''targetAdmit: needs a routed, source-permitted crossing (INV-13)''
      else and_then (verify_key K env g now) (\<lambda>key.
        case verify_signature K (signed_bytes env) (env_signature env) key of
          Inr True \<Rightarrow>
            (if \<not> grant_is_valid g now
             then reject ''targetAdmit: bridge grant is revoked or expired (INV-21)''
             else Inr [TargetFactWritten])
        | Inr False \<Rightarrow> reject ''targetAdmit: source signature did not verify (INV-21)''
        | Inl _ \<Rightarrow> reject ''targetAdmit: source signature could not be verified (INV-21)''))"

fun crossing_evolve :: "crossing_state \<Rightarrow> crossing_event \<Rightarrow> crossing_state" where
  "crossing_evolve s SourcePermittedEv =
     (if phase s = Init then s\<lparr>phase := SourcePermitted\<rparr> else s)"
| "crossing_evolve s RoutedEv =
     (if phase s = SourcePermitted then s\<lparr>phase := Routed\<rparr> else s)"
| "crossing_evolve s TargetFactWritten = s\<lparr>phase := Admitted\<rparr>"

definition crossing_lifecycle ::
  "('sk, 'vk, 'sg) crypto \<Rightarrow> crossing_event serde \<Rightarrow>
   (crossing_state, crossing_command, crossing_event) lifecycle" where
  "crossing_lifecycle K sd =
     \<lparr>lc_kind = ''federation'', lc_default = crossing_default, lc_decide = crossing_decide K,
      lc_evolve = crossing_evolve, lc_serde = sd, lc_snapshot_codec = None\<rparr>"

lemma crossing_lifecycle_simps [simp]:
  "lc_default (crossing_lifecycle K sd) = crossing_default"
  "lc_decide (crossing_lifecycle K sd) = crossing_decide K"
  "lc_evolve (crossing_lifecycle K sd) = crossing_evolve"
  by (simp_all add: crossing_lifecycle_def)

section \<open>An authentic envelope\<close>

text \<open>
  \<open>speaks_for K key g dl now\<close>: \<open>key\<close> is the root that the grant pins, or a subkey that this root
  delegated until some time after \<open>now\<close>. \<open>authentic K env g now\<close>: the grant is valid and the
  envelope is signed by a key that speaks for the grant's source and is the one it names.
\<close>

definition speaks_for ::
  "('sk, 'vk, 'sg) crypto \<Rightarrow> public_key \<Rightarrow> bridge_grant \<Rightarrow> device_delegation option \<Rightarrow> u64 \<Rightarrow> bool" where
  "speaks_for K key g dl now \<longleftrightarrow>
     (dl = None \<and> key = source_authority_root_pubkey g) \<or>
     (\<exists>d. dl = Some d \<and> key = subkey d \<and> now < expiry d \<and>
        verify_signature K
          (delegation_bytes key (source_authority_root_pubkey g) (expiry d)) (signature d)
          (source_authority_root_pubkey g) = Inr True \<and>
        authority_root d = source_authority_root_pubkey g)"

definition authentic ::
  "('sk, 'vk, 'sg) crypto \<Rightarrow> crossing_envelope \<Rightarrow> bridge_grant \<Rightarrow> u64 \<Rightarrow> bool" where
  "authentic K env g now \<longleftrightarrow>
     grant_active g \<and> now < grant_expiry g \<and>
     speaks_for K (source_pubkey env) g (delegation env) now \<and>
     verify_signature K (signed_bytes env) (env_signature env) (source_pubkey env) = Inr True"

lemma delegation_verify_ok:
  "delegation_verify K d now = Inr () \<longleftrightarrow>
     now < expiry d \<and>
     verify_signature K (delegation_bytes (subkey d) (authority_root d) (expiry d)) (signature d)
       (authority_root d) = Inr True"
  by (auto simp: delegation_verify_def Let_def not_le)

lemma verify_key_iff:
  "verify_key K env g now = Inr key \<longleftrightarrow>
     key = source_pubkey env \<and> speaks_for K (source_pubkey env) g (delegation env) now"
proof -
  have ok: "is_ok r \<longleftrightarrow> r = Inr ()" for r :: "delegation_rejection + unit" by (cases r) auto
  show ?thesis
    by (cases "delegation env")
       (auto simp: verify_key_def speaks_for_def ok delegation_verify_ok)
qed

lemma target_admit_iff:
  "crossing_decide K s (TargetAdmit env g now) = Inr es \<longleftrightarrow>
     es = [TargetFactWritten] \<and> phase s \<in> {Routed, Admitted} \<and> authentic K env g now"
proof (cases "verify_key K env g now")
  case (Inl r)
  then have "\<not> speaks_for K (source_pubkey env) g (delegation env) now"
    using verify_key_iff by (metis Inl_Inr_False)
  with Inl show ?thesis by (auto simp: authentic_def)
next
  case (Inr key)
  then have "key = source_pubkey env" "speaks_for K (source_pubkey env) g (delegation env) now"
    using verify_key_iff [of K env g now key] by simp_all
  with Inr show ?thesis
    by (auto simp: authentic_def grant_is_valid_def routed_def source_permitted_def
        split: sum.splits bool.splits)
qed

section \<open>Which commands led to an admission\<close>

definition was_permitted :: "crossing_command list \<Rightarrow> bool" where
  "was_permitted = some_at (\<lambda>_ c. c = SourceAuthorize)"

definition was_routed :: "crossing_command list \<Rightarrow> bool" where
  "was_routed = some_at (\<lambda>xs c. c = RelayRoute \<and> was_permitted xs)"

definition was_admitted :: "('sk, 'vk, 'sg) crypto \<Rightarrow> crossing_command list \<Rightarrow> bool" where
  "was_admitted K = some_at (\<lambda>xs c. was_routed xs \<and>
     (\<exists>env g now. c = TargetAdmit env g now \<and> authentic K env g now))"

lemma was_snoc [simp]:
  "\<not> was_permitted []" "\<not> was_routed []" "\<not> was_admitted K []"
  "was_permitted (cs @ [c]) \<longleftrightarrow> was_permitted cs \<or> c = SourceAuthorize"
  "was_routed (cs @ [c]) \<longleftrightarrow> was_routed cs \<or> (c = RelayRoute \<and> was_permitted cs)"
  "was_admitted K (cs @ [c]) \<longleftrightarrow> was_admitted K cs \<or>
     was_routed cs \<and> (\<exists>env g now. c = TargetAdmit env g now \<and> authentic K env g now)"
  by (simp_all add: was_permitted_def was_routed_def was_admitted_def)

lemma was_routed_permitted: "was_routed cs \<Longrightarrow> was_permitted cs"
  by (induction cs rule: rev_induct) auto

lemma was_admitted_routed: "was_admitted K cs \<Longrightarrow> was_routed cs"
  by (induction cs rule: rev_induct) auto

lemma crossing_apply:
  "lc_apply (crossing_lifecycle K sd) s SourceAuthorize =
     (if phase s = Init then s\<lparr>phase := SourcePermitted\<rparr> else s)"
  "lc_apply (crossing_lifecycle K sd) s RelayRoute =
     (if phase s = SourcePermitted then s\<lparr>phase := Routed\<rparr> else s)"
  "lc_apply (crossing_lifecycle K sd) s (TargetAdmit env g now) =
     (if phase s \<in> {Routed, Admitted} \<and> authentic K env g now then s\<lparr>phase := Admitted\<rparr> else s)"
proof -
  show "lc_apply (crossing_lifecycle K sd) s (TargetAdmit env g now) =
     (if phase s \<in> {Routed, Admitted} \<and> authentic K env g now then s\<lparr>phase := Admitted\<rparr> else s)"
    using target_admit_iff [of K s env g now "[TargetFactWritten]"]
      target_admit_iff [of K s env g now "projr (crossing_decide K s (TargetAdmit env g now))"]
    by (cases "crossing_decide K s (TargetAdmit env g now)")
       (auto simp: lc_apply_def simp del: crossing_decide.simps)
qed (simp_all add: lc_apply_def source_permitted_def)

lemma crossing_drive_phase:
  "phase (lc_drive (crossing_lifecycle K sd) crossing_default cs) =
     (if was_admitted K cs then Admitted else if was_routed cs then Routed
      else if was_permitted cs then SourcePermitted else Init)"
proof (induction cs rule: rev_induct)
  case Nil
  then show ?case by (simp add: crossing_default_def)
next
  case (snoc c cs)
  then show ?case
    using was_routed_permitted [of cs] was_admitted_routed [of K cs]
    by (cases c) (simp_all add: crossing_apply)
qed

section \<open>Properties\<close>

text \<open>
  C10. A crossing is admitted exactly when it was authorized, then routed, then admitted on an authentic
  envelope (\<open>CROSSING_REQUIRES_BOTH\<close>, \<open>SOURCE_KEY_PINNED\<close>, \<open>SIGNATURE_VERIFIED_BEFORE_ADMISSION\<close>,
  \<open>GRANT_NOT_EXPIRED_BEFORE_ADMISSION\<close>): after any commands the target's fact exists if and only if
  among the commands the source's authorization precedes the relay's routing, which precedes an
  admission whose grant is active and unexpired and whose envelope is signed by the grant's pinned
  root or by a subkey that this root delegated and that has not expired.
\<close>

theorem crossing_admitted_exactly:
  "target_admitted (lc_drive (crossing_lifecycle K sd) crossing_default cs) \<longleftrightarrow>
     (\<exists>us vs ws xs env g now.
        cs = us @ [SourceAuthorize] @ vs @ [RelayRoute] @ ws @ [TargetAdmit env g now] @ xs \<and>
        authentic K env g now)"
proof -
  have "was_admitted K cs \<longleftrightarrow>
     (\<exists>us vs ws xs env g now.
        cs = us @ [SourceAuthorize] @ vs @ [RelayRoute] @ ws @ [TargetAdmit env g now] @ xs \<and>
        authentic K env g now)"
    unfolding was_admitted_def was_routed_def was_permitted_def some_at_def
    by (simp, metis append_Cons append_assoc)
  then show ?thesis by (simp add: target_admitted_def crossing_drive_phase)
qed

end
