(* ===== verification/Delivery.thy ===== *)
theory Delivery
  imports Lifecycle Bridge
begin

text \<open>
  One federated delivery attempt, \<open>crates/core/src/federated_delivery.rs\<close>: bound to a bridge grant and
  a device while a draft, authorized, queued, delivered by the relay, and admitted by the target on
  a verified envelope.
\<close>

section \<open>States, commands, events\<close>

definition original_handles :: "string set" where
  "original_handles = {''method'', ''context''}"

definition DEFAULT_BRIDGE_GRANT_ID :: string where
  "DEFAULT_BRIDGE_GRANT_ID = ''bridge-grant-7''"

definition DEFAULT_DEVICE_KEY :: string where
  "DEFAULT_DEVICE_KEY = ''04dev1ce0ke7''"

definition DEFAULT_DEVICE_ID :: string where
  "DEFAULT_DEVICE_ID = ''device:pixel-9''"

datatype delivery_phase =
    Draft | Authorized | Queued | Delivered | TargetAdmitted | TargetRejected | Failed | Expired
  | Canceled

record delivery_state =
  phase :: delivery_phase
  source_authorized :: bool
  delivered :: bool
  target_admitted :: bool
  target_admitted_by :: authority
  payload_authority :: authority
  relay_has_payload_access :: bool
  handles :: "string set"
  correlation_intact :: bool
  expired :: bool
  retried :: bool
  signature_verified :: bool
  bound_bridge_grant_id :: bridge_grant_id
  seen_nonces :: "nonce set"
  bound_device :: device_id
  bound_device_key :: public_key

definition delivery_default :: delivery_state where
  "delivery_default = \<lparr>phase = Draft, source_authorized = False, delivered = False,
     target_admitted = False, target_admitted_by = NoAuthority, payload_authority = Source,
     relay_has_payload_access = False, handles = original_handles, correlation_intact = True,
     expired = False, retried = False, signature_verified = False,
     bound_bridge_grant_id = DEFAULT_BRIDGE_GRANT_ID, seen_nonces = {},
     bound_device = DEFAULT_DEVICE_ID, bound_device_key = DEFAULT_DEVICE_KEY\<rparr>"

record delivery_envelope =
  signed_bytes :: "u8 list"
  env_signature :: signature
  source_pubkey :: public_key
  env_nonce :: nonce
  env_bridge_grant_id :: bridge_grant_id
  env_device_key :: public_key
  device_active :: bool

datatype delivery_command =
    BindDelivery bridge_grant_id public_key device_id
  | AuthorizeFederatedMessage
  | EnqueueFederatedMessage
  | RecordRelayDelivery
  | AdmitTargetReceipt delivery_envelope
  | ValidateDeviceBinding delivery_envelope
  | RejectTargetReceipt
  | RecordDeliveryFailure
  | ExpireFederatedDelivery
  | CancelFederatedDelivery
  | RetryFederatedDelivery

datatype delivery_event =
    DeliveryBound bridge_grant_id public_key device_id
  | MessageAuthorized
  | MessageQueued
  | RelayDeliveryRecorded
  | TargetReceiptAdmitted nonce
  | TargetReceiptRejected
  | DeliveryFailed
  | DeliveryExpired
  | DeliveryCanceled
  | DeliveryRetried

section \<open>The reducer\<close>

definition check_device_binding :: "delivery_state \<Rightarrow> delivery_envelope \<Rightarrow> unit outcome" where
  "check_device_binding s env =
     (if env_device_key env \<noteq> bound_device_key s
      then reject ''device binding: envelope device key does not match the bound device (INV-21)''
      else if \<not> device_active env
      then reject ''device binding: presenting device's bridge grant is revoked (INV-21)''
      else Inr ())"

fun delivery_decide ::
  "('sk, 'vk, 'sg) crypto \<Rightarrow> delivery_state \<Rightarrow> delivery_command \<Rightarrow> delivery_event list outcome" where
  "delivery_decide K s (BindDelivery g k d) =
     (if phase s = Draft then Inr [DeliveryBound g k d]
      else reject ''bindDelivery: can only bind a draft delivery (binding precedes authorize)'')"
| "delivery_decide K s AuthorizeFederatedMessage =
     (if phase s = Draft then Inr [MessageAuthorized] else reject ''authorize: not a draft'')"
| "delivery_decide K s EnqueueFederatedMessage =
     (if phase s = Authorized \<and> source_authorized s \<and> \<not> expired s then Inr [MessageQueued]
      else reject ''enqueue: requires a source-authorized message (no BYPASS_SOURCE)'')"
| "delivery_decide K s RecordRelayDelivery =
     (if phase s = Queued \<and> \<not> expired s then Inr [RelayDeliveryRecorded]
      else reject ''recordRelayDelivery: not queued'')"
| "delivery_decide K s (AdmitTargetReceipt env) =
     (if phase s \<noteq> Delivered
      then reject ''admitTargetReceipt: needs a delivered, non-expired message (INV-13)''
      else case verify_signature K (signed_bytes env) (env_signature env) (source_pubkey env) of
        Inr True \<Rightarrow>
          (if env_bridge_grant_id env \<noteq> bound_bridge_grant_id s
           then reject ''admitTargetReceipt: envelope bridge grant does not match the bound grant (INV-21)''
           else and_then (check_device_binding s env) (\<lambda>_.
             if env_nonce env \<in> seen_nonces s
             then reject (''admitTargetReceipt: envelope nonce was already admitted '' @ em_dash @ '' replay (INV-21)'')
             else Inr [TargetReceiptAdmitted (env_nonce env)]))
      | Inr False \<Rightarrow> reject ''admitTargetReceipt: source signature did not verify (INV-21)''
      | Inl _ \<Rightarrow> reject ''admitTargetReceipt: source signature could not be verified (INV-21)'')"
| "delivery_decide K s (ValidateDeviceBinding env) =
     and_then (check_device_binding s env) (\<lambda>_. Inr [])"
| "delivery_decide K s RejectTargetReceipt =
     (if phase s = Delivered then Inr [TargetReceiptRejected]
      else reject ''rejectTargetReceipt: nothing delivered to reject'')"
| "delivery_decide K s RecordDeliveryFailure =
     (if phase s \<in> {Authorized, Queued, Delivered} then Inr [DeliveryFailed]
      else reject ''recordDeliveryFailure: not in flight'')"
| "delivery_decide K s ExpireFederatedDelivery =
     (if phase s \<in> {Draft, Authorized, Queued, Delivered} then Inr [DeliveryExpired]
      else reject ''expire: already terminal'')"
| "delivery_decide K s CancelFederatedDelivery =
     (if phase s \<in> {Draft, Authorized, Queued, Delivered} then Inr [DeliveryCanceled]
      else reject ''cancel: already terminal'')"
| "delivery_decide K s RetryFederatedDelivery =
     (if phase s \<in> {Failed, Expired, Canceled} then Inr [DeliveryRetried]
      else reject ''retry: not in a retryable terminal state'')"

fun delivery_evolve :: "delivery_state \<Rightarrow> delivery_event \<Rightarrow> delivery_state" where
  "delivery_evolve s (DeliveryBound g k d) =
     s\<lparr>bound_bridge_grant_id := g, bound_device_key := k, bound_device := d\<rparr>"
| "delivery_evolve s MessageAuthorized = s\<lparr>phase := Authorized, source_authorized := True\<rparr>"
| "delivery_evolve s MessageQueued = s\<lparr>phase := Queued\<rparr>"
| "delivery_evolve s RelayDeliveryRecorded = s\<lparr>phase := Delivered, delivered := True\<rparr>"
| "delivery_evolve s (TargetReceiptAdmitted n) =
     s\<lparr>phase := TargetAdmitted, target_admitted := True, target_admitted_by := Target,
       signature_verified := True, seen_nonces := insert n (seen_nonces s)\<rparr>"
| "delivery_evolve s TargetReceiptRejected = s\<lparr>phase := TargetRejected\<rparr>"
| "delivery_evolve s DeliveryFailed = s\<lparr>phase := Failed\<rparr>"
| "delivery_evolve s DeliveryExpired = s\<lparr>phase := Expired, expired := True\<rparr>"
| "delivery_evolve s DeliveryCanceled = s\<lparr>phase := Canceled\<rparr>"
| "delivery_evolve s DeliveryRetried =
     s\<lparr>phase := Authorized, source_authorized := True, delivered := False,
       target_admitted := False, target_admitted_by := NoAuthority, handles := original_handles,
       expired := False, retried := True, signature_verified := False\<rparr>"

definition delivery_lifecycle ::
  "('sk, 'vk, 'sg) crypto \<Rightarrow> delivery_event serde \<Rightarrow>
   (delivery_state, delivery_command, delivery_event) lifecycle" where
  "delivery_lifecycle K sd =
     \<lparr>lc_kind = ''federated_delivery'', lc_default = delivery_default,
      lc_decide = delivery_decide K, lc_evolve = delivery_evolve, lc_serde = sd,
      lc_snapshot_codec = None\<rparr>"

lemma delivery_lifecycle_simps [simp]:
  "lc_default (delivery_lifecycle K sd) = delivery_default"
  "lc_decide (delivery_lifecycle K sd) = delivery_decide K"
  "lc_evolve (delivery_lifecycle K sd) = delivery_evolve"
  by (simp_all add: delivery_lifecycle_def)

section \<open>The state invariant\<close>

definition delivery_inv :: "delivery_state \<Rightarrow> bool" where
  "delivery_inv s \<longleftrightarrow>
     payload_authority s = Source \<and> \<not> relay_has_payload_access s \<and> correlation_intact s \<and>
     handles s = original_handles \<and> expired s = (phase s = Expired) \<and>
     target_admitted s = (phase s = TargetAdmitted) \<and>
     signature_verified s = (phase s = TargetAdmitted) \<and>
     target_admitted_by s = (if phase s = TargetAdmitted then Target else NoAuthority) \<and>
     (phase s \<noteq> TargetAdmitted \<longrightarrow> seen_nonces s = {}) \<and>
     (phase s = Draft \<longrightarrow> \<not> source_authorized s) \<and>
     (phase s \<notin> {Draft, Expired, Canceled} \<longrightarrow> source_authorized s) \<and>
     (phase s \<in> {Delivered, TargetAdmitted, TargetRejected} \<longrightarrow> delivered s)"

lemma delivery_default_phase [simp]: "phase delivery_default = Draft"
  by (simp add: delivery_default_def)

lemma delivery_default_inv: "delivery_inv delivery_default"
  by (simp add: delivery_inv_def delivery_default_def)

definition admissible ::
  "('sk, 'vk, 'sg) crypto \<Rightarrow> delivery_state \<Rightarrow> delivery_envelope \<Rightarrow> bool" where
  "admissible K s env \<longleftrightarrow> phase s = Delivered \<and>
     verify_signature K (signed_bytes env) (env_signature env) (source_pubkey env) = Inr True \<and>
     env_bridge_grant_id env = bound_bridge_grant_id s \<and>
     env_device_key env = bound_device_key s \<and> device_active env \<and>
     env_nonce env \<notin> seen_nonces s"

lemma admit_receipt_iff:
  "delivery_decide K s (AdmitTargetReceipt env) = Inr es \<longleftrightarrow>
     es = [TargetReceiptAdmitted (env_nonce env)] \<and> admissible K s env"
  by (auto simp: admissible_def check_device_binding_def split: sum.splits bool.splits)

lemma validate_iff:
  "delivery_decide K s (ValidateDeviceBinding env) = Inr es \<longleftrightarrow>
     es = [] \<and> env_device_key env = bound_device_key s \<and> device_active env"
  by (auto simp: check_device_binding_def)

lemmas delivery_decide_iff =
  admit_receipt_iff validate_iff delivery_decide.simps(1-4) delivery_decide.simps(7-11)

declare delivery_decide.simps [simp del]

lemma delivery_decide_inv:
  assumes "delivery_inv s" and "delivery_decide K s c = Inr es"
  shows "delivery_inv (lc_fold (delivery_lifecycle K sd) s es)"
  using assms
  by (cases c; cases "phase s")
     (auto simp: delivery_decide_iff delivery_inv_def admissible_def)

interpretation delivery_law: lifecycle_invariant "delivery_lifecycle K sd" delivery_inv
  by unfold_locales (simp add: delivery_default_inv, auto intro: delivery_decide_inv)

section \<open>Admission, by commands and by log\<close>

lemma delivery_apply_admitted:
  assumes "delivery_inv s"
  shows "target_admitted (lc_apply (delivery_lifecycle K sd) s c) \<longleftrightarrow>
    target_admitted s \<or> (\<exists>env. c = AdmitTargetReceipt env \<and> admissible K s env)"
proof (cases "delivery_decide K s c")
  case (Inl r)
  then have "\<not> admissible K s env" if "c = AdmitTargetReceipt env" for env
    using that admit_receipt_iff [of K s env "[TargetReceiptAdmitted (env_nonce env)]"] by auto
  with Inl show ?thesis by (auto simp: lc_apply_def)
next
  case (Inr es)
  then have "lc_apply (delivery_lifecycle K sd) s c = lc_fold (delivery_lifecycle K sd) s es"
    by (simp add: lc_apply_ok)
  with assms Inr show ?thesis
    by (cases c; cases "phase s") (auto simp: delivery_decide_iff delivery_inv_def admissible_def)
qed

text \<open>The last events of the log, latest first, by phase: an attempt is authorized or retried,
  queued, delivered and admitted, with nothing in between.\<close>

definition delivery_tail :: "delivery_event list \<Rightarrow> delivery_state \<Rightarrow> bool" where
  "delivery_tail es s \<longleftrightarrow>
     (case phase s of
        Authorized \<Rightarrow> \<exists>a zs. a \<in> {MessageAuthorized, DeliveryRetried} \<and> rev es = a # zs
      | Queued \<Rightarrow> \<exists>a zs. a \<in> {MessageAuthorized, DeliveryRetried} \<and>
          rev es = MessageQueued # a # zs
      | Delivered \<Rightarrow> \<exists>a zs. a \<in> {MessageAuthorized, DeliveryRetried} \<and>
          rev es = RelayDeliveryRecorded # MessageQueued # a # zs
      | TargetAdmitted \<Rightarrow> \<exists>n a zs. a \<in> {MessageAuthorized, DeliveryRetried} \<and>
          rev es = TargetReceiptAdmitted n # RelayDeliveryRecorded # MessageQueued # a # zs \<and>
          seen_nonces s = {n} \<and> (\<forall>m. TargetReceiptAdmitted m \<notin> set zs)
      | _ \<Rightarrow> True)"

definition delivery_tinv :: "delivery_event list \<Rightarrow> delivery_state \<Rightarrow> bool" where
  "delivery_tinv es s \<longleftrightarrow> delivery_inv s \<and> delivery_tail es s \<and>
     (phase s \<noteq> TargetAdmitted \<longrightarrow> (\<forall>n. TargetReceiptAdmitted n \<notin> set (rev es)))"

lemma delivery_decide_tail:
  assumes "delivery_tinv es s" and "delivery_decide K s c = Inr fs"
  shows "delivery_tail (es @ fs) (lc_fold (delivery_lifecycle K sd) s fs)"
  using assms
  by (cases c; cases "phase s")
     (auto simp: delivery_decide_iff delivery_tinv_def delivery_tail_def delivery_inv_def admissible_def
       simp del: set_rev)

lemma delivery_decide_fresh:
  assumes "delivery_tinv es s" and "delivery_decide K s c = Inr fs"
    and "phase (lc_fold (delivery_lifecycle K sd) s fs) \<noteq> TargetAdmitted"
  shows "TargetReceiptAdmitted n \<notin> set (es @ fs)"
  using assms
  by (cases c; cases "phase s") (auto simp: delivery_decide_iff delivery_tinv_def)

lemma delivery_decide_tinv:
  assumes "delivery_tinv es s" and "delivery_decide K s c = Inr fs"
  shows "delivery_tinv (es @ fs) (lc_fold (delivery_lifecycle K sd) s fs)"
  using assms delivery_decide_inv [of s K c fs sd] delivery_decide_tail [OF assms, of sd]
    delivery_decide_fresh [OF assms, of sd]
  by (simp add: delivery_tinv_def)

interpretation delivery_trace: lifecycle_trace "delivery_lifecycle K sd" delivery_tinv
  by unfold_locales
     (simp add: delivery_tinv_def delivery_tail_def delivery_default_inv,
      auto intro: delivery_decide_tinv)

lemma delivery_apply_bound:
  assumes "phase s \<noteq> Draft"
  shows "let t = lc_apply (delivery_lifecycle K sd) s c
    in phase t \<noteq> Draft \<and> bound_bridge_grant_id t = bound_bridge_grant_id s \<and>
       bound_device_key t = bound_device_key s \<and> bound_device t = bound_device s"
proof (cases "delivery_decide K s c")
  case (Inr es)
  then have "lc_apply (delivery_lifecycle K sd) s c = lc_fold (delivery_lifecycle K sd) s es"
    by (simp add: lc_apply_ok)
  with assms Inr show ?thesis
    by (cases c) (auto simp: delivery_decide_iff Let_def split: if_splits)
qed (simp add: assms lc_apply_def Let_def)

lemma delivery_drive_bound:
  assumes "phase s \<noteq> Draft"
  shows "let t = lc_drive (delivery_lifecycle K sd) s cs
    in phase t \<noteq> Draft \<and> bound_bridge_grant_id t = bound_bridge_grant_id s \<and>
       bound_device_key t = bound_device_key s \<and> bound_device t = bound_device s"
  using assms
proof (induction cs arbitrary: s)
  case (Cons c cs)
  then show ?case using delivery_apply_bound [of s K sd c] by (simp add: Let_def)
qed (simp add: Let_def)

text \<open>The log of a direct delivery, and of one retried from an expired draft.\<close>

lemma delivery_log_admit:
  assumes "verify_signature K (signed_bytes env) (env_signature env) (source_pubkey env) = Inr True"
    and "env_bridge_grant_id env = DEFAULT_BRIDGE_GRANT_ID"
    and "env_device_key env = DEFAULT_DEVICE_KEY" and "device_active env"
  shows "lc_log (delivery_lifecycle K sd) delivery_default
      [AuthorizeFederatedMessage, EnqueueFederatedMessage, RecordRelayDelivery,
       AdmitTargetReceipt env] =
      [MessageAuthorized, MessageQueued, RelayDeliveryRecorded, TargetReceiptAdmitted (env_nonce env)]"
    and "lc_log (delivery_lifecycle K sd) delivery_default
      [ExpireFederatedDelivery, RetryFederatedDelivery, EnqueueFederatedMessage,
       RecordRelayDelivery, AdmitTargetReceipt env] =
      [DeliveryExpired, DeliveryRetried, MessageQueued, RelayDeliveryRecorded,
       TargetReceiptAdmitted (env_nonce env)]"
  using assms
  by (simp_all add: delivery_decide.simps check_device_binding_def delivery_default_def)

section \<open>Properties\<close>

text \<open>
  C11. A receipt is admitted exactly on an envelope the delivery is bound to
  (\<open>SIGNATURE_VERIFIED_BEFORE_ADMISSION\<close>, \<open>BRIDGE_GRANT_MATCHES\<close>, \<open>DEVICE_BINDING_MATCHES\<close>,
  \<open>NONCE_NOT_REUSED\<close>): after any commands the delivery is target-admitted if and only if one of them
  was an admission that found the message delivered and an envelope whose signature verifies, whose
  grant and device key are the bound ones, whose device is active and whose nonce is unspent.
\<close>

theorem delivery_admitted_exactly:
  "target_admitted (lc_drive (delivery_lifecycle K sd) delivery_default cs) \<longleftrightarrow>
     (\<exists>xs env ys. cs = xs @ AdmitTargetReceipt env # ys \<and>
        admissible K (lc_drive (delivery_lifecycle K sd) delivery_default xs) env)"
proof -
  let ?d = "lc_drive (delivery_lifecycle K sd) delivery_default"
  have inv: "delivery_inv (?d cs)" for cs
    by (rule delivery_law.drive_inv) (rule delivery_default_inv)
  have "target_admitted (?d cs) \<longleftrightarrow>
      some_at (\<lambda>xs c. \<exists>env. c = AdmitTargetReceipt env \<and> admissible K (?d xs) env) cs"
  proof (induction cs rule: rev_induct)
    case Nil
    then show ?case by (simp add: delivery_default_def)
  next
    case (snoc c cs)
    then show ?case by (simp add: delivery_apply_admitted [OF inv])
  qed
  then show ?thesis by (auto simp: some_at_def)
qed

text \<open>
  C12. One delivery writes at most one target fact, at the end of one attempt: in the log of any
  commands an admission is the last event of all, the three events before it are an authorization
  or a retry, the queueing and the relay's delivery, and its nonce is the one the state holds spent.
\<close>

theorem delivery_admission_final:
  assumes "lc_log (delivery_lifecycle K sd) delivery_default cs = xs @ TargetReceiptAdmitted n # ys"
  shows "ys = [] \<and>
    (\<exists>ps a. a \<in> {MessageAuthorized, DeliveryRetried} \<and>
       xs = ps @ [a, MessageQueued, RelayDeliveryRecorded]) \<and>
    (\<forall>m. TargetReceiptAdmitted m \<notin> set xs) \<and>
    seen_nonces (lc_drive (delivery_lifecycle K sd) delivery_default cs) = {n}"
proof -
  let ?s = "lc_drive (delivery_lifecycle K sd) delivery_default cs"
  let ?es = "lc_log (delivery_lifecycle K sd) delivery_default cs"
  have t: "delivery_tinv ?es ?s" using delivery_trace.log_tinv [of K sd cs] by simp
  then have "phase ?s = TargetAdmitted" using assms by (auto simp: delivery_tinv_def)
  with t obtain m a zs where a: "a \<in> {MessageAuthorized, DeliveryRetried}"
    and es: "rev ?es = TargetReceiptAdmitted m # RelayDeliveryRecorded # MessageQueued # a # zs"
    and m: "seen_nonces ?s = {m}" and zs: "\<forall>m. TargetReceiptAdmitted m \<notin> set zs"
    by (auto simp: delivery_tinv_def delivery_tail_def)
  from es assms have eq: "rev ys @ TargetReceiptAdmitted n # rev xs =
      TargetReceiptAdmitted m # RelayDeliveryRecorded # MessageQueued # a # zs" by simp
  have ys: "ys = []"
  proof (rule ccontr)
    assume "ys \<noteq> []"
    then obtain us u where "ys = us @ [u]" by (cases ys rule: rev_cases) auto
    with eq have "rev us @ TargetReceiptAdmitted n # rev xs =
      RelayDeliveryRecorded # MessageQueued # a # zs" by simp
    from arg_cong [OF this, of set] a zs show False by auto
  qed
  with eq have "n = m" and "rev xs = RelayDeliveryRecorded # MessageQueued # a # zs" by simp_all
  then have "xs = rev zs @ [a, MessageQueued, RelayDeliveryRecorded]"
    by (simp add: rev_swap)
  with ys a m zs \<open>n = m\<close> show ?thesis by auto
qed

theorem delivery_admission_final_witness:
  "let sd = \<lparr>to_json = (\<lambda>_. []), from_json = (\<lambda>_. None)\<rparr>;
       env = \<lparr>signed_bytes = [1, 2], env_signature = sign ref_crypto 5 [1, 2],
              source_pubkey = pub_key ref_crypto 5, env_nonce = ''n-1'',
              env_bridge_grant_id = DEFAULT_BRIDGE_GRANT_ID,
              env_device_key = DEFAULT_DEVICE_KEY, device_active = True\<rparr>
   in seen_nonces (lc_drive (delivery_lifecycle ref_crypto sd) delivery_default
        [AuthorizeFederatedMessage, EnqueueFederatedMessage, RecordRelayDelivery,
         AdmitTargetReceipt env]) = {''n-1''}"
proof -
  let ?sd = "\<lparr>to_json = (\<lambda>_. []), from_json = (\<lambda>_. None)\<rparr>"
  let ?env = "\<lparr>signed_bytes = [1, 2], env_signature = sign ref_crypto 5 [1, 2],
              source_pubkey = pub_key ref_crypto 5, env_nonce = ''n-1'',
              env_bridge_grant_id = DEFAULT_BRIDGE_GRANT_ID,
              env_device_key = DEFAULT_DEVICE_KEY, device_active = True\<rparr>"
  have "lc_log (delivery_lifecycle ref_crypto ?sd) delivery_default
      [AuthorizeFederatedMessage, EnqueueFederatedMessage, RecordRelayDelivery,
       AdmitTargetReceipt ?env] =
      [MessageAuthorized, MessageQueued, RelayDeliveryRecorded] @ TargetReceiptAdmitted ''n-1'' # []"
    by (subst delivery_log_admit(1)) (simp_all add: verify_sign [OF ref_crypto_ok])
  from delivery_admission_final [OF this] show ?thesis by (simp only: Let_def)
qed

text \<open>Without an authorization in the log: before any retry the message never left its draft unless it expired
  or was cancelled there, and the first retry follows such an end.\<close>

definition unauthorized_course :: "delivery_event list \<Rightarrow> delivery_state \<Rightarrow> bool" where
  "unauthorized_course es s \<longleftrightarrow> MessageAuthorized \<in> set es \<or>
     (if DeliveryRetried \<in> set es
      then \<exists>xs ys. es = xs @ DeliveryRetried # ys \<and> (DeliveryExpired \<in> set xs \<or> DeliveryCanceled \<in> set xs)
      else phase s = Draft \<or> phase s = Expired \<and> DeliveryExpired \<in> set es \<or> phase s = Canceled \<and> DeliveryCanceled \<in> set es)"

lemma unauthorized_course_extend:
  assumes "unauthorized_course es s" and "DeliveryRetried \<in> set es"
  shows "unauthorized_course (es @ fs) t"
proof (cases "MessageAuthorized \<in> set es")
  case False
  then obtain xs ys where "es = xs @ DeliveryRetried # ys" "DeliveryExpired \<in> set xs \<or> DeliveryCanceled \<in> set xs"
    using assms by (auto simp: unauthorized_course_def)
  then have "\<exists>xs ys. es @ fs = xs @ DeliveryRetried # ys \<and> (DeliveryExpired \<in> set xs \<or> DeliveryCanceled \<in> set xs)"
    by (intro exI [of _ xs] exI [of _ "ys @ fs"]) simp
  then show ?thesis using assms(2) by (simp add: unauthorized_course_def)
qed (simp add: unauthorized_course_def)

lemma unauthorized_course_decide:
  assumes "unauthorized_course es s" and "delivery_decide K s c = Inr fs"
  shows "unauthorized_course (es @ fs) (lc_fold (delivery_lifecycle K sd) s fs)"
proof (cases "DeliveryRetried \<in> set es \<or> MessageAuthorized \<in> set es")
  case True
  with unauthorized_course_extend [OF assms(1)] show ?thesis by (auto simp: unauthorized_course_def)
next
  case False
  with assms(1) have "phase s = Draft \<or> phase s = Expired \<and> DeliveryExpired \<in> set es \<or>
      phase s = Canceled \<and> DeliveryCanceled \<in> set es"
    by (simp add: unauthorized_course_def)
  with assms(2) False show ?thesis
    by (cases c) (auto simp: unauthorized_course_def delivery_decide_iff admissible_def split: if_splits)
qed

interpretation delivery_course: lifecycle_trace "delivery_lifecycle K sd" unauthorized_course
  by unfold_locales (simp add: unauthorized_course_def, auto intro: unauthorized_course_decide)

lemma retried_log:
  assumes "delivery_inv s" and "phase s \<in> {Failed, Expired, Canceled}"
    and "verify_signature K (signed_bytes env) (env_signature env) (source_pubkey env) = Inr True"
    and "env_bridge_grant_id env = bound_bridge_grant_id s" and "env_device_key env = bound_device_key s" and "device_active env"
  shows "lc_log (delivery_lifecycle K sd) s
      [RetryFederatedDelivery, EnqueueFederatedMessage, RecordRelayDelivery, AdmitTargetReceipt env] =
    [DeliveryRetried, MessageQueued, RelayDeliveryRecorded, TargetReceiptAdmitted (env_nonce env)]"
    and "target_admitted (lc_drive (delivery_lifecycle K sd) s
      [RetryFederatedDelivery, EnqueueFederatedMessage, RecordRelayDelivery, AdmitTargetReceipt env])"
proof -
  let ?s1 = "delivery_evolve s DeliveryRetried"
  let ?s2 = "delivery_evolve ?s1 MessageQueued"
  let ?s3 = "delivery_evolve ?s2 RelayDeliveryRecorded"
  have nonces: "seen_nonces s = {}" using assms(1,2) by (auto simp: delivery_inv_def)
  have 1: "delivery_decide K s RetryFederatedDelivery = Inr [DeliveryRetried]"
    using assms(2) by (simp add: delivery_decide.simps(11))
  have 2: "delivery_decide K ?s1 EnqueueFederatedMessage = Inr [MessageQueued]"
    by (simp add: delivery_decide.simps(3))
  have 3: "delivery_decide K ?s2 RecordRelayDelivery = Inr [RelayDeliveryRecorded]"
    by (simp add: delivery_decide.simps(4))
  have "admissible K ?s3 env" using assms(3-6) nonces by (simp add: admissible_def)
  then have 4: "delivery_decide K ?s3 (AdmitTargetReceipt env) = Inr [TargetReceiptAdmitted (env_nonce env)]"
    by (simp add: admit_receipt_iff)
  let ?L = "delivery_lifecycle K sd"
  show "lc_log ?L s [RetryFederatedDelivery, EnqueueFederatedMessage, RecordRelayDelivery, AdmitTargetReceipt env] =
      [DeliveryRetried, MessageQueued, RelayDeliveryRecorded, TargetReceiptAdmitted (env_nonce env)]"
    using 1 2 3 4 by (simp del: delivery_evolve.simps)
  have "lc_drive ?L s [RetryFederatedDelivery, EnqueueFederatedMessage, RecordRelayDelivery, AdmitTargetReceipt env] =
      delivery_evolve ?s3 (TargetReceiptAdmitted (env_nonce env))"
    using 1 2 3 4 by (simp add: lc_apply_ok del: delivery_evolve.simps)
  then show "target_admitted (lc_drive ?L s [RetryFederatedDelivery, EnqueueFederatedMessage, RecordRelayDelivery, AdmitTargetReceipt env])"
    by simp
qed

text \<open>
  C38. A retry stands in for the authorization of the source. From every delivery whose log holds no
  authorization and that expired or was cancelled, a retry, a queueing, a relay delivery and an
  admission are accepted one after the other, for every envelope that verifies and matches the
  binding, and the message is target-admitted; and this is the only way: a log without an
  authorization admits a message only after an expiry or a cancellation followed by a retry.
\<close>

theorem delivery_retry_skips_authorization:
  fixes env :: delivery_envelope
  assumes es: "es = lc_log (delivery_lifecycle K sd) delivery_default cs"
    and s: "s = lc_drive (delivery_lifecycle K sd) delivery_default cs"
    and unauthorized: "MessageAuthorized \<notin> set es"
  shows "(phase s \<in> {Expired, Canceled} \<and>
      verify_signature K (signed_bytes env) (env_signature env) (source_pubkey env) = Inr True \<and>
      env_bridge_grant_id env = bound_bridge_grant_id s \<and> env_device_key env = bound_device_key s \<and> device_active env \<longrightarrow>
    (let retry = [RetryFederatedDelivery, EnqueueFederatedMessage, RecordRelayDelivery, AdmitTargetReceipt env] in
      lc_log (delivery_lifecycle K sd) delivery_default (cs @ retry) =
        es @ [DeliveryRetried, MessageQueued, RelayDeliveryRecorded, TargetReceiptAdmitted (env_nonce env)] \<and>
      target_admitted (lc_drive (delivery_lifecycle K sd) delivery_default (cs @ retry)))) \<and>
    (\<forall>n. TargetReceiptAdmitted n \<in> set es \<longrightarrow>
      (\<exists>xs ys. es = xs @ DeliveryRetried # ys \<and> (DeliveryExpired \<in> set xs \<or> DeliveryCanceled \<in> set xs)))"
proof (intro conjI allI impI)
  have inv: "delivery_tinv es s" "unauthorized_course es s"
    using delivery_trace.log_tinv [of K sd cs] delivery_course.log_tinv [of K sd cs] by (simp_all add: es s)
  show "\<exists>xs ys. es = xs @ DeliveryRetried # ys \<and> (DeliveryExpired \<in> set xs \<or> DeliveryCanceled \<in> set xs)"
    if "TargetReceiptAdmitted n \<in> set es" for n
    using inv that unauthorized by (auto simp: delivery_tinv_def unauthorized_course_def split: if_splits)
  assume ended: "phase s \<in> {Expired, Canceled} \<and>
      verify_signature K (signed_bytes env) (env_signature env) (source_pubkey env) = Inr True \<and>
      env_bridge_grant_id env = bound_bridge_grant_id s \<and> env_device_key env = bound_device_key s \<and> device_active env"
  have "delivery_inv s" using inv(1) by (simp add: delivery_tinv_def)
  note log = retried_log [OF this, of K env sd]
  let ?retry = "[RetryFederatedDelivery, EnqueueFederatedMessage, RecordRelayDelivery, AdmitTargetReceipt env]"
  show "let retry = ?retry in lc_log (delivery_lifecycle K sd) delivery_default (cs @ retry) =
        es @ [DeliveryRetried, MessageQueued, RelayDeliveryRecorded, TargetReceiptAdmitted (env_nonce env)] \<and>
      target_admitted (lc_drive (delivery_lifecycle K sd) delivery_default (cs @ retry))"
    unfolding Let_def lc_log_append lc_drive_simps(3) es [symmetric] s [symmetric] using log ended by blast
qed

theorem delivery_retry_skips_authorization_witness:
  "let sd = \<lparr>to_json = (\<lambda>_. []), from_json = (\<lambda>_. None)\<rparr>;
       env = \<lparr>signed_bytes = [1, 2], env_signature = sign ref_crypto 5 [1, 2],
              source_pubkey = pub_key ref_crypto 5, env_nonce = ''n-1'',
              env_bridge_grant_id = DEFAULT_BRIDGE_GRANT_ID,
              env_device_key = DEFAULT_DEVICE_KEY, device_active = True\<rparr>
   in lc_log (delivery_lifecycle ref_crypto sd) delivery_default
        ([ExpireFederatedDelivery] @ [RetryFederatedDelivery, EnqueueFederatedMessage, RecordRelayDelivery, AdmitTargetReceipt env]) =
      [DeliveryExpired] @ [DeliveryRetried, MessageQueued, RelayDeliveryRecorded, TargetReceiptAdmitted ''n-1'']"
proof -
  let ?sd = "\<lparr>to_json = (\<lambda>_. []), from_json = (\<lambda>_. None)\<rparr>"
  let ?env = "\<lparr>signed_bytes = [1, 2], env_signature = sign ref_crypto 5 [1, 2],
              source_pubkey = pub_key ref_crypto 5, env_nonce = ''n-1'',
              env_bridge_grant_id = DEFAULT_BRIDGE_GRANT_ID,
              env_device_key = DEFAULT_DEVICE_KEY, device_active = True\<rparr>"
  let ?s = "lc_drive (delivery_lifecycle ref_crypto ?sd) delivery_default [ExpireFederatedDelivery]"
  have log: "lc_log (delivery_lifecycle ref_crypto ?sd) delivery_default [ExpireFederatedDelivery] = [DeliveryExpired]"
    by (simp add: delivery_decide.simps)
  have "phase ?s = Expired" "bound_bridge_grant_id ?s = DEFAULT_BRIDGE_GRANT_ID" "bound_device_key ?s = DEFAULT_DEVICE_KEY"
    by (simp_all add: delivery_decide.simps lc_apply_def delivery_default_def)
  then show ?thesis
    using delivery_retry_skips_authorization [OF log [symmetric] refl, of ?env] verify_sign [OF ref_crypto_ok]
    by (simp add: Let_def)
qed

text \<open>
  The binding is fixed before the message leaves its draft (\<open>BIND_BEFORE_AUTHORIZE\<close>): from any
  state past \<open>Draft\<close>, no commands change the bound grant, device or device key, retries included.
\<close>

theorem delivery_binding_fixed:
  assumes "phase s \<noteq> Draft"
  shows "let t = lc_drive (delivery_lifecycle K sd) s cs
    in phase t \<noteq> Draft \<and> bound_bridge_grant_id t = bound_bridge_grant_id s \<and>
       bound_device_key t = bound_device_key s \<and> bound_device t = bound_device s"
  using assms by (rule delivery_drive_bound)

theorem delivery_binding_fixed_witness:
  "let sd = \<lparr>to_json = (\<lambda>_. []), from_json = (\<lambda>_. None)\<rparr>;
       t = lc_drive (delivery_lifecycle ref_crypto sd) (delivery_default\<lparr>phase := Authorized\<rparr>)
             [BindDelivery ''other'' ''k'' ''d'', CancelFederatedDelivery, RetryFederatedDelivery]
   in bound_bridge_grant_id t = ''bridge-grant-7''"
  using delivery_binding_fixed [of "delivery_default\<lparr>phase := Authorized\<rparr>" ref_crypto
      "\<lparr>to_json = (\<lambda>_. []), from_json = (\<lambda>_. None)\<rparr>"
      "[BindDelivery ''other'' ''k'' ''d'', CancelFederatedDelivery, RetryFederatedDelivery]"]
  by (simp add: Let_def delivery_default_def DEFAULT_BRIDGE_GRANT_ID_def)

end
