(* ===== verification/Ordered_Map.thy ===== *)
theory Ordered_Map
  imports Prelude
begin

text \<open>
  \<open>std::collections::BTreeMap\<close>, where the code iterates over it: the entries in key order. The locale
  \<open>ordered_map\<close> is the contract the reducers rely on (what a lookup answers after an insertion or an
  update in place), and the interpretation \<open>bt\<close> discharges it for the list of entries.
\<close>

type_synonym ('k, 'v) btree = "('k \<times> 'v) list"

section \<open>Operations\<close>

definition bt_get :: "('k, 'v) btree \<Rightarrow> 'k \<Rightarrow> 'v option" where
  "bt_get m k = map_of m k"

fun bt_insert :: "'k::linorder \<Rightarrow> 'v \<Rightarrow> ('k, 'v) btree \<Rightarrow> ('k, 'v) btree" where
  "bt_insert k v [] = [(k, v)]"
| "bt_insert k v (e # m) =
     (if k < fst e then (k, v) # e # m
      else if k = fst e then (k, v) # m
      else e # bt_insert k v m)"

text \<open>\<open>get_mut\<close> and an assignment through it: an absent key changes nothing.\<close>

definition bt_modify :: "'k \<Rightarrow> ('v \<Rightarrow> 'v) \<Rightarrow> ('k, 'v) btree \<Rightarrow> ('k, 'v) btree" where
  "bt_modify k f m = map (\<lambda>(k', v). (k', if k' = k then f v else v)) m"

definition bt_values :: "('k, 'v) btree \<Rightarrow> 'v list" where
  "bt_values m = map snd m"

definition bt_keys :: "('k, 'v) btree \<Rightarrow> 'k list" where
  "bt_keys m = map fst m"

definition bt_collect :: "('k::linorder \<times> 'v) list \<Rightarrow> ('k, 'v) btree" where
  "bt_collect kvs = foldl (\<lambda>m (k, v). bt_insert k v m) [] kvs"

definition bt_wf :: "('k::linorder, 'v) btree \<Rightarrow> bool" where
  "bt_wf m \<longleftrightarrow> sorted_wrt (<) (map fst m)"

section \<open>The contract\<close>

locale ordered_map =
  fixes get :: "'m \<Rightarrow> 'k \<Rightarrow> 'v option"
    and insert :: "'k \<Rightarrow> 'v \<Rightarrow> 'm \<Rightarrow> 'm"
    and modify :: "'k \<Rightarrow> ('v \<Rightarrow> 'v) \<Rightarrow> 'm \<Rightarrow> 'm"
    and empty :: 'm
    and entries :: "'m \<Rightarrow> ('k \<times> 'v) list"
    and wf :: "'m \<Rightarrow> bool"
  assumes wf_empty: "wf empty" and entries_empty: "entries empty = []"
    and wf_insert: "wf m \<Longrightarrow> wf (insert k v m)"
    and wf_modify: "wf m \<Longrightarrow> wf (modify k f m)"
    and get_insert: "wf m \<Longrightarrow> get (insert k v m) j = (if j = k then Some v else get m j)"
    and get_modify: "get (modify k f m) j = (if j = k then map_option f (get m j) else get m j)"
    and entries_get: "wf m \<Longrightarrow> (k, v) \<in> set (entries m) \<longleftrightarrow> get m k = Some v"
    and entries_distinct: "wf m \<Longrightarrow> distinct (map fst (entries m))"
begin

lemma get_empty: "get empty k = None"
proof -
  have "get empty k \<noteq> Some v" for v
    using entries_get [OF wf_empty, of k v] by (simp add: entries_empty)
  then show ?thesis by (cases "get empty k") auto
qed

lemma wf_collect: "wf m \<Longrightarrow> wf (foldl (\<lambda>m (k, v). insert k v m) m kvs)"
  by (induction kvs arbitrary: m) (auto simp: wf_insert)

lemma get_collect:
  "wf m \<Longrightarrow> get (foldl (\<lambda>m (k, v). insert k v m) m kvs) k =
     (case map_of (rev kvs) k of None \<Rightarrow> get m k | Some v \<Rightarrow> Some v)"
  by (induction kvs arbitrary: m)
    (auto simp: wf_insert get_insert map_add_def split: option.splits)

lemma get_entries: "wf m \<Longrightarrow> get m k = map_of (entries m) k"
proof -
  assume "wf m"
  then have "map_of (entries m) k = Some v \<longleftrightarrow> get m k = Some v" for v
    using entries_get entries_distinct by (simp add: map_of_eq_Some_iff)
  then show ?thesis by (metis option.exhaust)
qed

text \<open>What holds of every value of the map, after each operation.\<close>

lemma all_get_iff: "wf m \<Longrightarrow> (\<forall>v \<in> set (map snd (entries m)). P v) \<longleftrightarrow> (\<forall>k v. get m k = Some v \<longrightarrow> P v)"
  using entries_get by fastforce

end

section \<open>The entries in key order implement it\<close>

lemma set_bt_insert: "set (bt_insert k v m) \<subseteq> insert (k, v) (set m)"
  by (induction m) auto

lemma fst_bt_insert: "fst ` set (bt_insert k v m) = insert k (fst ` set m)"
  by (induction m) auto

lemma bt_wf_Cons: "bt_wf (e # m) \<longleftrightarrow> (\<forall>x \<in> set m. fst e < fst x) \<and> bt_wf m"
  by (auto simp: bt_wf_def)

lemma bt_wf_insert: "bt_wf m \<Longrightarrow> bt_wf (bt_insert k v m)"
proof (induction m)
  case Nil
  show ?case by (simp add: bt_wf_def)
next
  case (Cons e m)
  have "fst e < fst x" if "x \<in> set (bt_insert k v m)" "fst e < k" for x
    using that Cons.prems set_bt_insert [of k v m] by (auto simp: bt_wf_Cons)
  with Cons show ?case by (auto simp: bt_wf_Cons not_less_iff_gr_or_eq intro: less_trans)
qed

lemma bt_get_insert: "bt_wf m \<Longrightarrow> bt_get (bt_insert k v m) j = (if j = k then Some v else bt_get m j)"
  by (induction m) (auto simp: bt_get_def bt_wf_Cons)

lemma bt_get_modify: "bt_get (bt_modify k f m) j = (if j = k then map_option f (bt_get m j) else bt_get m j)"
  by (induction m) (auto simp: bt_get_def bt_modify_def)

lemma bt_keys_modify [simp]: "bt_keys (bt_modify k f m) = bt_keys m"
  by (auto simp: bt_keys_def bt_modify_def)

lemma bt_wf_modify: "bt_wf m \<Longrightarrow> bt_wf (bt_modify k f m)"
proof -
  have "map fst (bt_modify k f m) = map fst m" by (auto simp: bt_modify_def)
  then show "bt_wf m \<Longrightarrow> bt_wf (bt_modify k f m)" by (simp add: bt_wf_def)
qed

lemma bt_wf_distinct: "bt_wf m \<Longrightarrow> distinct (map fst m)"
  using strict_sorted_iff by (auto simp: bt_wf_def)

lemma bt_entries_get: "bt_wf m \<Longrightarrow> (k, v) \<in> set m \<longleftrightarrow> bt_get m k = Some v"
  by (simp add: bt_get_def map_of_eq_Some_iff bt_wf_distinct)

interpretation bt: ordered_map bt_get bt_insert bt_modify "[]" "\<lambda>m. m" bt_wf
proof unfold_locales
  show "bt_wf []" by (simp add: bt_wf_def)
qed (auto simp: bt_wf_insert bt_wf_modify bt_get_insert bt_get_modify bt_wf_distinct bt_entries_get)

lemma bt_wf_collect: "bt_wf (bt_collect kvs)"
  using bt.wf_collect [OF bt.wf_empty] by (simp add: bt_collect_def)

lemma bt_get_collect: "bt_get (bt_collect kvs) k = map_of (rev kvs) k"
  using bt.get_collect [OF bt.wf_empty, of kvs k]
  by (simp add: bt_collect_def bt.get_empty split: option.splits)

lemma bt_values_iff: "bt_wf m \<Longrightarrow> v \<in> set (bt_values m) \<longleftrightarrow> (\<exists>k. bt_get m k = Some v)"
  using bt.entries_get [of m] by (force simp: bt_values_def)

lemma bt_keys_iff: "k \<in> set (bt_keys m) \<longleftrightarrow> bt_get m k \<noteq> None"
  by (auto simp: bt_keys_def bt_get_def map_of_eq_None_iff)

lemma length_bt_modify [simp]: "length (bt_modify k f m) = length m"
  by (simp add: bt_modify_def)

end
