(* ===== verification/Settlement.thy ===== *)
theory Settlement
  imports Lifecycle Ordered_Map
begin

text \<open>
  Receipt-driven settlement of a change set on several targets, the coordinator of
  \<open>crates/core/src/target_settlement.rs\<close>: a declaration's members are preflighted, started under a
  permit of their target's lane and settled by authenticated receipts. Member phases have the prefix
  \<open>M\<close> and coordinator phases the prefix \<open>P\<close>, the aliases under which the source imports them.
\<close>

section \<open>Data\<close>

datatype settlement_act = Propose | Apply | Publish | Release | ManagedAdvance

record settlement_member_declaration =
  md_member_id :: string
  md_target_id :: string
  md_operation_id :: string
  md_expected_basis :: string
  md_candidate_digest :: string
  md_expected_result_digest :: string
  md_policy_decision_handle :: string
  md_adapter :: string
  md_act :: settlement_act
  md_retry_safe_after_failure :: bool
  md_authoritative_query :: bool

record target_settlement_declaration =
  td_declaration_id :: string
  td_project_id :: string
  td_chat_id :: string
  td_source_change_set_ref :: string
  td_promotion_manifest_ref :: "string option"
  td_members :: "settlement_member_declaration list"

record member_preflight_evidence =
  pe_member_id :: string
  pe_observed_basis :: string
  pe_observed_candidate_digest :: string
  pe_adapter_contract_ref :: string
  pe_governance_decision_ref :: string
  pe_admitted :: bool
  pe_refusal_reason :: "string option"

record target_lane_permit =
  lp_lane_id :: string
  lp_target_id :: string
  lp_member_id :: string
  lp_operation_id :: string
  lp_sequence :: u64
  lp_authority_position :: string

datatype receipt_outcome = ReceiptSucceeded | ReceiptFailed

record authenticated_target_receipt =
  rc_receipt_ref :: string
  rc_member_id :: string
  rc_target_id :: string
  rc_operation_id :: string
  rc_expected_basis :: string
  rc_resulting_basis :: "string option"
  rc_resulting_digest :: "string option"
  rc_outcome :: receipt_outcome
  rc_authority_ref :: string
  rc_authentication_ref :: string
  rc_failure_reason :: "string option"

record compensation_receipt_link =
  cl_original_receipt_ref :: string
  cl_compensation_declaration_id :: string
  cl_compensation_member_id :: string
  cl_compensation_receipt_ref :: string

datatype settlement_phase =
    PUndeclared | PDeclared | PPreflighting | PReady | PApplying | PCompleted | PPartiallyApplied
  | PReconciliationRequired | PRefused | PCancelled | PExpired | PCompensated | PAbandonedPartial

fun terminal :: "settlement_phase \<Rightarrow> bool" where
  "terminal PCompleted = True"
| "terminal PRefused = True"
| "terminal PCancelled = True"
| "terminal PExpired = True"
| "terminal PCompensated = True"
| "terminal PAbandonedPartial = True"
| "terminal _ = False"

datatype settlement_member_phase =
    MPending | MPreflightPassed | MStarted | MSucceeded | MFailed | MUnknown
  | MCancelledBeforeStart | MSupersededBeforeStart

record settlement_member_state =
  ms_phase :: settlement_member_phase
  ms_preflight_evidence :: "member_preflight_evidence option"
  ms_lane_permit :: "target_lane_permit option"
  ms_attempts :: u32
  ms_receipt :: "authenticated_target_receipt option"
  ms_unknown_evidence_ref :: "string option"
  ms_query_refs :: "string list"
  ms_superseded_by :: "string option"

definition member_state_default :: settlement_member_state where
  "member_state_default = \<lparr>ms_phase = MPending, ms_preflight_evidence = None, ms_lane_permit = None,
     ms_attempts = 0, ms_receipt = None, ms_unknown_evidence_ref = None, ms_query_refs = [],
     ms_superseded_by = None\<rparr>"

record target_settlement_state =
  ts_phase :: settlement_phase
  ts_declaration :: "target_settlement_declaration option"
  ts_members :: "(string, settlement_member_state) btree"
  ts_started_effects :: u32
  ts_terminal_reason :: "string option"
  ts_compensation_receipt_refs :: "string list"
  ts_compensation_receipt_links :: "compensation_receipt_link list"
  ts_history_events :: u64

definition settlement_default :: target_settlement_state where
  "settlement_default = \<lparr>ts_phase = PUndeclared, ts_declaration = None, ts_members = [],
     ts_started_effects = 0, ts_terminal_reason = None, ts_compensation_receipt_refs = [],
     ts_compensation_receipt_links = [], ts_history_events = 0\<rparr>"

datatype target_settlement_command =
    Declare target_settlement_declaration
  | BeginPreflight
  | RecordPreflight member_preflight_evidence
  | CancelBeforeEffects string
  | ExpireBeforeEffects string
  | StartMember string target_lane_permit
  | RecordReceipt authenticated_target_receipt
  | RecordUnknown string string
  | RequestAuthoritativeQuery string string
  | RecordQueryReceipt authenticated_target_receipt
  | RetryKnownFailure string target_lane_permit
  | CancelUnstarted string
  | SupersedeNotStarted string string
  | MarkCompensated "compensation_receipt_link list"
  | AbandonPartial string

datatype target_settlement_event =
    DeclarationRecorded target_settlement_declaration
  | PreflightStarted
  | MemberPreflightPassed member_preflight_evidence
  | MemberPreflightRefused member_preflight_evidence
  | CoordinatorReady
  | CoordinatorRefused string
  | CoordinatorCancelled string
  | CoordinatorExpired string
  | MemberStarted string target_lane_permit
  | MemberReceiptRecorded authenticated_target_receipt
  | MemberOutcomeUnknown string string
  | AuthoritativeQueryRequested string string
  | MemberRetryStarted string target_lane_permit
  | MemberCancelledBeforeStart string string
  | MemberSupersededBeforeStart string string
  | CoordinatorPhaseChanged settlement_phase
  | CoordinatorCompensated "string list"
  | CoordinatorCompensatedV2 "compensation_receipt_link list"
  | CoordinatorAbandonedPartial string

section \<open>What evidence must match\<close>

definition valid_identity :: "string \<Rightarrow> bool" where
  "valid_identity value \<longleftrightarrow> \<not> blank value \<and> \<not> has_control value"

definition member_valid :: "settlement_member_declaration \<Rightarrow> bool" where
  "member_valid m \<longleftrightarrow>
     list_all valid_identity
       [md_member_id m, md_target_id m, md_operation_id m, md_expected_basis m, md_candidate_digest m,
        md_expected_result_digest m, md_policy_decision_handle m, md_adapter m] \<and>
     md_authoritative_query m"

fun members_valid :: "string set \<Rightarrow> string set \<Rightarrow> settlement_member_declaration list \<Rightarrow> bool" where
  "members_valid ids ops [] = True"
| "members_valid ids ops (m # ms) =
     (member_valid m \<and> md_member_id m \<notin> ids \<and> md_operation_id m \<notin> ops \<and>
      members_valid (insert (md_member_id m) ids) (insert (md_operation_id m) ops) ms)"

definition declaration_valid :: "target_settlement_declaration \<Rightarrow> bool" where
  "declaration_valid d =
     (if \<not> valid_identity (td_declaration_id d) \<or> \<not> valid_identity (td_project_id d) \<or>
         \<not> valid_identity (td_chat_id d) \<or> \<not> valid_identity (td_source_change_set_ref d) \<or>
         td_members d = [] \<or>
         (case td_promotion_manifest_ref d of None \<Rightarrow> False | Some v \<Rightarrow> \<not> valid_identity v)
      then False
      else members_valid {} {} (td_members d))"

definition is_some_and :: "'a option \<Rightarrow> ('a \<Rightarrow> bool) \<Rightarrow> bool" where
  "is_some_and x P = (case x of None \<Rightarrow> False | Some v \<Rightarrow> P v)"

definition preflight_exact_for :: "member_preflight_evidence \<Rightarrow> settlement_member_declaration \<Rightarrow> bool" where
  "preflight_exact_for ev m \<longleftrightarrow>
     pe_member_id ev = md_member_id m \<and>
     pe_governance_decision_ref ev = md_policy_decision_handle m \<and>
     valid_identity (pe_adapter_contract_ref ev) \<and>
     (if pe_admitted ev
      then pe_observed_basis ev = md_expected_basis m \<and>
           pe_observed_candidate_digest ev = md_candidate_digest m \<and> pe_refusal_reason ev = None
      else valid_identity (pe_observed_basis ev) \<and> valid_identity (pe_observed_candidate_digest ev) \<and>
           is_some_and (pe_refusal_reason ev) valid_identity)"

definition permit_exact_for :: "target_lane_permit \<Rightarrow> settlement_member_declaration \<Rightarrow> bool" where
  "permit_exact_for p m \<longleftrightarrow>
     lp_target_id p = md_target_id m \<and> lp_member_id p = md_member_id m \<and>
     lp_operation_id p = md_operation_id m \<and> 0 < lp_sequence p \<and>
     valid_identity (lp_lane_id p) \<and> valid_identity (lp_authority_position p)"

definition link_valid :: "compensation_receipt_link \<Rightarrow> bool" where
  "link_valid l \<longleftrightarrow>
     valid_identity (cl_original_receipt_ref l) \<and> valid_identity (cl_compensation_declaration_id l) \<and>
     valid_identity (cl_compensation_member_id l) \<and> valid_identity (cl_compensation_receipt_ref l) \<and>
     cl_original_receipt_ref l \<noteq> cl_compensation_receipt_ref l"

definition receipt_exact_for :: "authenticated_target_receipt \<Rightarrow> settlement_member_declaration \<Rightarrow> bool" where
  "receipt_exact_for r m =
     (if rc_member_id r \<noteq> md_member_id m \<or> rc_target_id r \<noteq> md_target_id m \<or>
         rc_operation_id r \<noteq> md_operation_id m \<or> rc_expected_basis r \<noteq> md_expected_basis m \<or>
         \<not> valid_identity (rc_receipt_ref r) \<or> \<not> valid_identity (rc_authority_ref r) \<or>
         \<not> valid_identity (rc_authentication_ref r)
      then False
      else case rc_outcome r of
             ReceiptSucceeded \<Rightarrow>
               is_some_and (rc_resulting_basis r) valid_identity \<and>
               rc_resulting_digest r = Some (md_expected_result_digest m) \<and> rc_failure_reason r = None
           | ReceiptFailed \<Rightarrow>
               rc_resulting_digest r = None \<and> is_some_and (rc_failure_reason r) valid_identity)"

section \<open>Deciding\<close>

definition settlement_declaration :: "target_settlement_state \<Rightarrow> target_settlement_declaration outcome" where
  "settlement_declaration s =
     (case ts_declaration s of
        None \<Rightarrow> reject ''target settlement declaration is absent''
      | Some d \<Rightarrow> Inr d)"

definition settlement_member ::
  "target_settlement_state \<Rightarrow> string \<Rightarrow> (settlement_member_declaration \<times> settlement_member_state) outcome" where
  "settlement_member s i =
     and_then (settlement_declaration s) (\<lambda>d.
       case find (\<lambda>m. md_member_id m = i) (td_members d) of
         None \<Rightarrow> reject ''target settlement member is not declared''
       | Some m \<Rightarrow>
           (case bt_get (ts_members s) i of
              None \<Rightarrow> reject ''target settlement member state is absent''
            | Some st \<Rightarrow> Inr (m, st)))"

fun resolved_without_success :: "settlement_member_phase \<Rightarrow> bool" where
  "resolved_without_success MFailed = True"
| "resolved_without_success MCancelledBeforeStart = True"
| "resolved_without_success MSupersededBeforeStart = True"
| "resolved_without_success _ = False"

fun still_active :: "settlement_member_phase \<Rightarrow> bool" where
  "still_active MPending = True"
| "still_active MPreflightPassed = True"
| "still_active MStarted = True"
| "still_active _ = False"

definition projected_phase :: "(string, settlement_member_state) btree \<Rightarrow> settlement_phase" where
  "projected_phase ms =
     (let phases = map ms_phase (bt_values ms);
          succeeded = length (filter (\<lambda>p. p = MSucceeded) phases);
          resolved_not_success = length (filter resolved_without_success phases);
          unknown = (MUnknown \<in> set phases);
          active = list_ex still_active phases
      in if unknown then PReconciliationRequired
         else if \<not> active \<and> resolved_not_success = 0 \<and> succeeded = length ms then PCompleted
         else if \<not> active \<and> 0 < succeeded \<and> 0 < resolved_not_success then PPartiallyApplied
         else PApplying)"

definition set_member_phase ::
  "string \<Rightarrow> settlement_member_phase \<Rightarrow> (string, settlement_member_state) btree \<Rightarrow>
   (string, settlement_member_state) btree" where
  "set_member_phase i p ms = bt_modify i (\<lambda>st. st\<lparr>ms_phase := p\<rparr>) ms"

definition phase_after_member_change ::
  "target_settlement_state \<Rightarrow> string \<Rightarrow> settlement_member_phase \<Rightarrow> settlement_phase" where
  "phase_after_member_change s i p = projected_phase (set_member_phase i p (ts_members s))"

fun receipt_phase :: "receipt_outcome \<Rightarrow> settlement_member_phase" where
  "receipt_phase ReceiptSucceeded = MSucceeded"
| "receipt_phase ReceiptFailed = MFailed"

definition record_receipt ::
  "target_settlement_state \<Rightarrow> authenticated_target_receipt \<Rightarrow> bool \<Rightarrow> target_settlement_event list outcome" where
  "record_receipt s r from_query =
     and_then (settlement_member s (rc_member_id r)) (\<lambda>(declared, current).
       let expected_phase = if from_query then MUnknown else MStarted
       in if ms_phase current \<noteq> expected_phase \<or> ms_receipt current \<noteq> None
          then reject ''recordReceipt: member is not awaiting this receipt''
          else if from_query \<and> ms_query_refs current = []
          then reject ''recordReceipt: unknown member was not authoritatively queried''
          else if \<not> receipt_exact_for r declared
          then reject ''recordReceipt: authenticated receipt does not match declaration''
          else Inr [MemberReceiptRecorded r,
                    CoordinatorPhaseChanged
                      (phase_after_member_change s (rc_member_id r) (receipt_phase (rc_outcome r)))])"

definition before_effects :: "target_settlement_state \<Rightarrow> string \<Rightarrow> bool" where
  "before_effects s why \<longleftrightarrow>
     ts_phase s \<in> {PDeclared, PPreflighting, PReady} \<and> ts_started_effects s = 0 \<and> valid_identity why"

definition successful_receipts :: "(string, settlement_member_state) btree \<Rightarrow> string set" where
  "successful_receipts ms =
     set (List.map_filter (\<lambda>st. case ms_receipt st of
            None \<Rightarrow> None
          | Some r \<Rightarrow> if rc_outcome r = ReceiptSucceeded then Some (rc_receipt_ref r) else None)
        (bt_values ms))"

definition compensates ::
  "target_settlement_state \<Rightarrow> compensation_receipt_link list \<Rightarrow> bool" where
  "compensates s links \<longleftrightarrow>
     (let successful = successful_receipts (ts_members s);
          originals = set (map cl_original_receipt_ref links);
          compensations = set (map cl_compensation_receipt_ref links);
          linked_members = set (map (\<lambda>l. (cl_compensation_declaration_id l, cl_compensation_member_id l)) links)
      in \<not> (ts_phase s \<noteq> PPartiallyApplied \<or> successful = {} \<or> length links \<noteq> card successful \<or>
            list_ex (\<lambda>l. \<not> link_valid l) links \<or> originals \<noteq> successful \<or>
            card compensations \<noteq> length links \<or> card linked_members \<noteq> length links))"

definition unstarted_ids :: "(string, settlement_member_state) btree \<Rightarrow> string list" where
  "unstarted_ids ms = map fst (filter (\<lambda>(i, st). ms_phase st \<in> {MPending, MPreflightPassed}) ms)"

fun settlement_decide ::
  "target_settlement_state \<Rightarrow> target_settlement_command \<Rightarrow> target_settlement_event list outcome" where
  "settlement_decide s (Declare d) =
     (if ts_phase s \<noteq> PUndeclared \<or> ts_declaration s \<noteq> None
      then reject ''declare: coordinator is already declared''
      else if \<not> declaration_valid d
      then reject ''declare: exact unique declaration members are required''
      else Inr [DeclarationRecorded d])"
| "settlement_decide s BeginPreflight =
     (if ts_phase s \<noteq> PDeclared then reject ''beginPreflight: coordinator is not declared''
      else Inr [PreflightStarted])"
| "settlement_decide s (RecordPreflight ev) =
     (if ts_phase s \<noteq> PPreflighting then reject ''recordPreflight: coordinator is not preflighting''
      else and_then (settlement_member s (pe_member_id ev)) (\<lambda>(declared, current).
        if ms_phase current \<noteq> MPending \<or> ms_preflight_evidence current \<noteq> None
        then reject ''recordPreflight: member was already preflighted''
        else if \<not> preflight_exact_for ev declared
        then reject ''recordPreflight: evidence does not match the declaration''
        else if \<not> pe_admitted ev
        then Inr [MemberPreflightRefused ev, CoordinatorRefused (the (pe_refusal_reason ev))]
        else let all_others_passed =
                   list_all (\<lambda>(i, st). i = md_member_id declared \<or> ms_phase st = MPreflightPassed) (ts_members s)
             in Inr (MemberPreflightPassed ev # (if all_others_passed then [CoordinatorReady] else []))))"
| "settlement_decide s (CancelBeforeEffects why) =
     (if \<not> before_effects s why
      then reject ''cancelBeforeEffects: cancellation is invalid or effects started''
      else Inr [CoordinatorCancelled why])"
| "settlement_decide s (ExpireBeforeEffects why) =
     (if \<not> before_effects s why
      then reject ''expireBeforeEffects: expiry is invalid or effects started''
      else Inr [CoordinatorExpired why])"
| "settlement_decide s (StartMember i permit) =
     (if ts_phase s \<notin> {PReady, PApplying}
      then reject ''startMember: all-member preflight is not ready''
      else and_then (settlement_member s i) (\<lambda>(declared, current).
        if ms_phase current \<noteq> MPreflightPassed \<or> ms_receipt current \<noteq> None
        then reject ''startMember: member is not startable''
        else if \<not> permit_exact_for permit declared
        then reject ''startMember: ordered target-lane permit is not exact''
        else Inr [MemberStarted i permit, CoordinatorPhaseChanged PApplying]))"
| "settlement_decide s (RecordReceipt r) = record_receipt s r False"
| "settlement_decide s (RecordUnknown i ev) =
     and_then (settlement_member s i) (\<lambda>(_, current).
       if ms_phase current \<noteq> MStarted \<or> \<not> valid_identity ev
       then reject ''recordUnknown: only a started member may become unknown''
       else Inr [MemberOutcomeUnknown i ev, CoordinatorPhaseChanged PReconciliationRequired])"
| "settlement_decide s (RequestAuthoritativeQuery i q) =
     and_then (settlement_member s i) (\<lambda>(declared, current).
       if ms_phase current \<noteq> MUnknown \<or> \<not> md_authoritative_query declared \<or> \<not> valid_identity q \<or>
          q \<in> set (ms_query_refs current)
       then reject ''requestAuthoritativeQuery: member is not queryable''
       else Inr [AuthoritativeQueryRequested i q])"
| "settlement_decide s (RecordQueryReceipt r) = record_receipt s r True"
| "settlement_decide s (RetryKnownFailure i permit) =
     and_then (settlement_member s i) (\<lambda>(declared, current).
       if ms_phase current \<noteq> MFailed \<or> \<not> md_retry_safe_after_failure declared
       then reject ''retryKnownFailure: member is not safely retryable''
       else if \<not> permit_exact_for permit declared \<or>
               is_some_and (ms_lane_permit current) (\<lambda>old. lp_sequence permit \<le> lp_sequence old)
       then reject ''retryKnownFailure: a newer exact lane permit is required''
       else Inr [MemberRetryStarted i permit, CoordinatorPhaseChanged PApplying])"
| "settlement_decide s (CancelUnstarted why) =
     (if terminal (ts_phase s) \<or> ts_started_effects s = 0 \<or> \<not> valid_identity why
      then reject ''cancelUnstarted: effects have not started or state is terminal''
      else let ids = unstarted_ids (ts_members s)
           in if ids = [] then reject ''cancelUnstarted: no unstarted member remains''
              else Inr (map (\<lambda>i. MemberCancelledBeforeStart i why) ids @
                        [CoordinatorPhaseChanged (projected_phase
                          (foldl (\<lambda>ms i. set_member_phase i MCancelledBeforeStart ms) (ts_members s) ids))]))"
| "settlement_decide s (SupersedeNotStarted i later) =
     and_then (settlement_member s i) (\<lambda>(_, current).
       if ms_phase current \<notin> {MPending, MPreflightPassed} \<or> \<not> valid_identity later
       then reject ''supersedeNotStarted: only an exact not-started member may supersede''
       else Inr [MemberSupersededBeforeStart i later,
                 CoordinatorPhaseChanged (phase_after_member_change s i MSupersededBeforeStart)])"
| "settlement_decide s (MarkCompensated links) =
     (if \<not> compensates s links
      then reject ''markCompensated: exact one-to-one forward-repair evidence is required''
      else Inr [CoordinatorCompensatedV2 links])"
| "settlement_decide s (AbandonPartial why) =
     (if ts_phase s \<notin> {PApplying, PPartiallyApplied, PReconciliationRequired} \<or>
         ts_started_effects s = 0 \<or> \<not> valid_identity why
      then reject ''abandonPartial: an explicit nonterminal partial state is required''
      else Inr [CoordinatorAbandonedPartial why])"

section \<open>Evolving\<close>

text \<open>
  The source updates a member in place and panics when it is not declared; the model then changes
  no member. \<open>expected_member\<close> names the member an event needs, and no event that \<open>decide\<close> emits
  lacks it (lemma \<open>settlement_never_panics\<close>).
\<close>

definition update_member ::
  "string \<Rightarrow> (settlement_member_state \<Rightarrow> settlement_member_state) \<Rightarrow> target_settlement_state \<Rightarrow>
   target_settlement_state" where
  "update_member i f s = s\<lparr>ts_members := bt_modify i f (ts_members s)\<rparr>"

definition start_member :: "string \<Rightarrow> target_lane_permit \<Rightarrow> target_settlement_state \<Rightarrow> target_settlement_state" where
  "start_member i permit s =
     (update_member i (\<lambda>m. m\<lparr>ms_phase := MStarted, ms_lane_permit := Some permit,
        ms_attempts := saturating_add (ms_attempts m) 1, ms_receipt := None,
        ms_unknown_evidence_ref := None\<rparr>) s)
     \<lparr>ts_started_effects := saturating_add (ts_started_effects s) 1\<rparr>"

fun evolve_event :: "target_settlement_state \<Rightarrow> target_settlement_event \<Rightarrow> target_settlement_state" where
  "evolve_event s (DeclarationRecorded d) =
     s\<lparr>ts_phase := PDeclared,
       ts_members := bt_collect (map (\<lambda>m. (md_member_id m, member_state_default)) (td_members d)),
       ts_declaration := Some d\<rparr>"
| "evolve_event s PreflightStarted = s\<lparr>ts_phase := PPreflighting\<rparr>"
| "evolve_event s (MemberPreflightPassed ev) =
     update_member (pe_member_id ev)
       (\<lambda>m. m\<lparr>ms_phase := MPreflightPassed, ms_preflight_evidence := Some ev\<rparr>) s"
| "evolve_event s (MemberPreflightRefused ev) =
     update_member (pe_member_id ev) (\<lambda>m. m\<lparr>ms_preflight_evidence := Some ev\<rparr>) s"
| "evolve_event s CoordinatorReady = s\<lparr>ts_phase := PReady\<rparr>"
| "evolve_event s (CoordinatorRefused why) = s\<lparr>ts_phase := PRefused, ts_terminal_reason := Some why\<rparr>"
| "evolve_event s (CoordinatorCancelled why) = s\<lparr>ts_phase := PCancelled, ts_terminal_reason := Some why\<rparr>"
| "evolve_event s (CoordinatorExpired why) = s\<lparr>ts_phase := PExpired, ts_terminal_reason := Some why\<rparr>"
| "evolve_event s (MemberStarted i permit) = start_member i permit s"
| "evolve_event s (MemberRetryStarted i permit) = start_member i permit s"
| "evolve_event s (MemberReceiptRecorded r) =
     update_member (rc_member_id r)
       (\<lambda>m. m\<lparr>ms_phase := receipt_phase (rc_outcome r), ms_receipt := Some r,
          ms_unknown_evidence_ref := None\<rparr>) s"
| "evolve_event s (MemberOutcomeUnknown i ev) =
     update_member i (\<lambda>m. m\<lparr>ms_phase := MUnknown, ms_unknown_evidence_ref := Some ev\<rparr>) s"
| "evolve_event s (AuthoritativeQueryRequested i q) =
     update_member i (\<lambda>m. m\<lparr>ms_query_refs := ms_query_refs m @ [q]\<rparr>) s"
| "evolve_event s (MemberCancelledBeforeStart i _) =
     update_member i (\<lambda>m. m\<lparr>ms_phase := MCancelledBeforeStart\<rparr>) s"
| "evolve_event s (MemberSupersededBeforeStart i later) =
     update_member i (\<lambda>m. m\<lparr>ms_phase := MSupersededBeforeStart, ms_superseded_by := Some later\<rparr>) s"
| "evolve_event s (CoordinatorPhaseChanged p) = s\<lparr>ts_phase := p\<rparr>"
| "evolve_event s (CoordinatorCompensated refs) =
     s\<lparr>ts_phase := PCompensated, ts_compensation_receipt_refs := refs\<rparr>"
| "evolve_event s (CoordinatorCompensatedV2 links) =
     s\<lparr>ts_phase := PCompensated, ts_compensation_receipt_refs := map cl_compensation_receipt_ref links,
       ts_compensation_receipt_links := links\<rparr>"
| "evolve_event s (CoordinatorAbandonedPartial why) =
     s\<lparr>ts_phase := PAbandonedPartial, ts_terminal_reason := Some why\<rparr>"

definition settlement_evolve ::
  "target_settlement_state \<Rightarrow> target_settlement_event \<Rightarrow> target_settlement_state" where
  "settlement_evolve s e = evolve_event (s\<lparr>ts_history_events := saturating_add (ts_history_events s) 1\<rparr>) e"

definition settlement_lifecycle ::
  "target_settlement_event serde \<Rightarrow> (target_settlement_state \<Rightarrow> string option) \<Rightarrow>
   (string \<Rightarrow> target_settlement_state option) \<Rightarrow>
   (target_settlement_state, target_settlement_command, target_settlement_event) lifecycle" where
  "settlement_lifecycle sd enc dec =
     \<lparr>lc_kind = ''target_settlement'', lc_default = settlement_default, lc_decide = settlement_decide,
      lc_evolve = settlement_evolve, lc_serde = sd,
      lc_snapshot_codec = Some (snapshot_codec_serde ''target_settlement'' 1 enc dec)\<rparr>"

lemma settlement_lifecycle_simps [simp]:
  "lc_default (settlement_lifecycle sd enc dec) = settlement_default"
  "lc_decide (settlement_lifecycle sd enc dec) = settlement_decide"
  "lc_evolve (settlement_lifecycle sd enc dec) = settlement_evolve"
  by (simp_all add: settlement_lifecycle_def)

end
