(* ===== verification/Settlement_Effects.thy ===== *)
theory Settlement_Effects
  imports Settlement
begin

text \<open>
  What the settlement coordinator guarantees along its log: the effects of a member, the receipts
  behind a completed settlement, and that evolving never misses a member.
\<close>

section \<open>The effects of a member in a log\<close>

datatype mark = Start | Success | Failure

fun receipt_mark :: "receipt_outcome \<Rightarrow> mark" where
  "receipt_mark ReceiptSucceeded = Success"
| "receipt_mark ReceiptFailed = Failure"

fun mark_of :: "string \<Rightarrow> target_settlement_event \<Rightarrow> mark option" where
  "mark_of i (MemberStarted j _) = (if j = i then Some Start else None)"
| "mark_of i (MemberRetryStarted j _) = (if j = i then Some Start else None)"
| "mark_of i (MemberReceiptRecorded r) =
     (if rc_member_id r = i then Some (receipt_mark (rc_outcome r)) else None)"
| "mark_of i _ = None"

definition effect_marks :: "string \<Rightarrow> target_settlement_event list \<Rightarrow> mark list" where
  "effect_marks i es = List.map_filter (mark_of i) es"

lemma effect_marks_simps [simp]:
  "effect_marks i [] = []"
  "effect_marks i (es @ fs) = effect_marks i es @ effect_marks i fs"
  "effect_marks i (e # es) = (case mark_of i e of None \<Rightarrow> effect_marks i es | Some m \<Rightarrow> m # effect_marks i es)"
  by (auto simp: effect_marks_def List.map_filter_def split: option.splits)

text \<open>Every start is the first or follows a failure; every receipt follows a start.\<close>

definition attempts_ok :: "mark list \<Rightarrow> bool" where
  "attempts_ok ms = every_at (\<lambda>before m.
     case m of Start \<Rightarrow> before = [] \<or> last before = Failure
             | _ \<Rightarrow> before \<noteq> [] \<and> last before = Start) ms"

lemma attempts_ok_simps [simp]:
  "attempts_ok []"
  "attempts_ok (ms @ [m]) \<longleftrightarrow> attempts_ok ms \<and>
     (case m of Start \<Rightarrow> ms = [] \<or> last ms = Failure | _ \<Rightarrow> ms \<noteq> [] \<and> last ms = Start)"
  by (simp_all add: attempts_ok_def)

lemma attempts_ok_single [simp]: "attempts_ok [m] \<longleftrightarrow> m = Start"
  using attempts_ok_simps(2) [of "[]" m] by (cases m) simp_all

lemma attempts_ok_success:
  assumes "attempts_ok (xs @ Success # ys)"
  shows "ys = []"
proof (cases ys)
  case (Cons y zs)
  then have split: "xs @ Success # ys = (xs @ [Success]) @ y # zs" by simp
  from every_atD [OF assms [unfolded attempts_ok_def] split] show ?thesis
    by (cases y) auto
qed

section \<open>When an event is admitted\<close>

inductive settlement_admits :: "target_settlement_state \<Rightarrow> target_settlement_event \<Rightarrow> bool" where
  declared:
    "\<lbrakk>ts_phase s = PUndeclared; ts_declaration s = None; declaration_valid d\<rbrakk> \<Longrightarrow>
     settlement_admits s (DeclarationRecorded d)"
| moved:
    "\<lbrakk>ts_declaration s \<noteq> None;
      e \<in> {PreflightStarted, CoordinatorReady, CoordinatorRefused why, CoordinatorCancelled why,
           CoordinatorExpired why, CoordinatorAbandonedPartial why}\<rbrakk> \<Longrightarrow>
     settlement_admits s e"
| passed:
    "\<lbrakk>settlement_member s (pe_member_id ev) = Inr (m, st); ms_phase st = MPending;
      preflight_exact_for ev m; pe_admitted ev; ts_phase s \<noteq> PCompleted\<rbrakk> \<Longrightarrow>
     settlement_admits s (MemberPreflightPassed ev)"
| refused:
    "\<lbrakk>settlement_member s (pe_member_id ev) = Inr (m, st); ms_phase st = MPending\<rbrakk> \<Longrightarrow>
     settlement_admits s (MemberPreflightRefused ev)"
| started:
    "\<lbrakk>settlement_member s i = Inr (m, st); ms_phase st = MPreflightPassed; permit_exact_for p m\<rbrakk> \<Longrightarrow>
     settlement_admits s (MemberStarted i p)"
| retried:
    "\<lbrakk>settlement_member s i = Inr (m, st); ms_phase st = MFailed; permit_exact_for p m;
      md_retry_safe_after_failure m\<rbrakk> \<Longrightarrow>
     settlement_admits s (MemberRetryStarted i p)"
| receipt:
    "\<lbrakk>settlement_member s (rc_member_id r) = Inr (m, st); ms_phase st \<in> {MStarted, MUnknown};
      receipt_exact_for r m\<rbrakk> \<Longrightarrow>
     settlement_admits s (MemberReceiptRecorded r)"
| unknown:
    "\<lbrakk>settlement_member s i = Inr (m, st); ms_phase st = MStarted\<rbrakk> \<Longrightarrow>
     settlement_admits s (MemberOutcomeUnknown i ev)"
| queried:
    "\<lbrakk>settlement_member s i = Inr (m, st); ms_phase st = MUnknown\<rbrakk> \<Longrightarrow>
     settlement_admits s (AuthoritativeQueryRequested i q)"
| cancelled:
    "\<lbrakk>settlement_member s i = Inr (m, st); ms_phase st \<in> {MPending, MPreflightPassed}\<rbrakk> \<Longrightarrow>
     settlement_admits s (MemberCancelledBeforeStart i why)"
| superseded:
    "\<lbrakk>settlement_member s i = Inr (m, st); ms_phase st \<in> {MPending, MPreflightPassed}\<rbrakk> \<Longrightarrow>
     settlement_admits s (MemberSupersededBeforeStart i later)"
| changed:
    "\<lbrakk>ts_declaration s \<noteq> None;
      p \<in> {PApplying, PReconciliationRequired} \<or> p = projected_phase (ts_members s)\<rbrakk> \<Longrightarrow>
     settlement_admits s (CoordinatorPhaseChanged p)"
| compensated:
    "compensates s links \<Longrightarrow> ts_declaration s \<noteq> None \<Longrightarrow> settlement_admits s (CoordinatorCompensatedV2 links)"

inductive_cases settlement_admitsE: "settlement_admits s e"

fun settlement_admitted :: "target_settlement_state \<Rightarrow> target_settlement_event list \<Rightarrow> bool" where
  "settlement_admitted s [] = True"
| "settlement_admitted s (e # es) = (settlement_admits s e \<and> settlement_admitted (settlement_evolve s e) es)"

lemma settlement_admitted_append [simp]:
  "settlement_admitted s (es @ fs) \<longleftrightarrow>
     settlement_admitted s es \<and> settlement_admitted (foldl settlement_evolve s es) fs"
  by (induction es arbitrary: s) auto

section \<open>Member lookups and phases under the updates\<close>

lemma settlement_member_Inr:
  "settlement_member s i = Inr (m, st) \<longleftrightarrow>
     (\<exists>d. ts_declaration s = Some d \<and> find (\<lambda>m. md_member_id m = i) (td_members d) = Some m \<and>
          bt_get (ts_members s) i = Some st)"
  by (auto simp: settlement_member_def settlement_declaration_def and_then_Inr split: option.splits)

lemma settlement_member_id: "settlement_member s i = Inr (m, st) \<Longrightarrow> md_member_id m = i"
  by (auto simp: settlement_member_Inr find_Some_iff)

lemma settlement_member_declared: "settlement_member s i = Inr x \<Longrightarrow> ts_declaration s \<noteq> None"
  by (cases x) (auto simp: settlement_member_Inr)

lemma settlement_member_update:
  "settlement_member (update_member i f s) j = Inr (m, st) \<longleftrightarrow>
     (\<exists>st0. settlement_member s j = Inr (m, st0) \<and> st = (if j = i then f st0 else st0))"
  by (auto simp: settlement_member_Inr update_member_def bt_get_modify)

lemma update_member_simps [simp]:
  "ts_phase (update_member i f s) = ts_phase s"
  "ts_declaration (update_member i f s) = ts_declaration s"
  "ts_started_effects (update_member i f s) = ts_started_effects s"
  "ts_members (update_member i f s) = bt_modify i f (ts_members s)"
  by (simp_all add: update_member_def)

lemma settlement_member_cong:
  "ts_declaration t = ts_declaration s \<Longrightarrow> ts_members t = ts_members s \<Longrightarrow>
   settlement_member t i = settlement_member s i"
  by (simp add: settlement_member_def settlement_declaration_def cong: option.case_cong)

lemma projected_phase_modify:
  assumes "\<And>st. ms_phase (f st) = p"
  shows "projected_phase (bt_modify i f ms) = projected_phase (set_member_phase i p ms)"
proof -
  have "map ms_phase (bt_values (bt_modify i f ms)) = map ms_phase (bt_values (set_member_phase i p ms))"
    using assms by (auto simp: bt_values_def bt_modify_def set_member_phase_def)
  moreover have "length (bt_modify i f ms) = length (set_member_phase i p ms)"
    by (simp add: set_member_phase_def)
  ultimately show ?thesis by (simp only: projected_phase_def)
qed

lemma length_filter_all: "length (filter P xs) = length xs \<longleftrightarrow> (\<forall>x \<in> set xs. P x)"
  by (metis filter_True length_filter_less less_irrefl)

lemma phase_not_succeeded:
  "still_active p \<Longrightarrow> p \<noteq> MSucceeded"
  "resolved_without_success p \<Longrightarrow> p \<noteq> MSucceeded"
  by (cases p; simp)+

lemma projected_phase_completed:
  "projected_phase ms = PCompleted \<longleftrightarrow> (\<forall>st \<in> set (bt_values ms). ms_phase st = MSucceeded)"
proof -
  have len: "length ms = length (map ms_phase (bt_values ms))" by (simp add: bt_values_def)
  have "projected_phase ms = PCompleted \<longleftrightarrow> (\<forall>p \<in> set (map ms_phase (bt_values ms)). p = MSucceeded)"
    unfolding projected_phase_def Let_def len length_filter_all
    by (auto simp: list_ex_iff filter_empty_conv dest: phase_not_succeeded)
  then show ?thesis by simp
qed

section \<open>The invariant of a settlement and its log\<close>

definition member_standing :: "settlement_member_declaration \<Rightarrow> settlement_member_state \<Rightarrow> mark list \<Rightarrow> bool" where
  "member_standing m st marks \<longleftrightarrow>
     attempts_ok marks \<and>
     (1 < length (filter (\<lambda>k. k = Start) marks) \<longrightarrow> md_retry_safe_after_failure m) \<and>
     (marks \<noteq> [] \<longrightarrow> (\<exists>ev p. ms_preflight_evidence st = Some ev \<and> pe_admitted ev \<and> preflight_exact_for ev m \<and>
        ms_lane_permit st = Some p \<and> permit_exact_for p m)) \<and>
     (case ms_phase st of
        MStarted \<Rightarrow> marks \<noteq> [] \<and> last marks = Start \<and> ms_receipt st = None
      | MUnknown \<Rightarrow> marks \<noteq> [] \<and> last marks = Start \<and> ms_receipt st = None
      | MSucceeded \<Rightarrow> marks \<noteq> [] \<and> last marks = Success \<and>
          (\<exists>r. ms_receipt st = Some r \<and> rc_outcome r = ReceiptSucceeded \<and> receipt_exact_for r m)
      | MFailed \<Rightarrow> marks \<noteq> [] \<and> last marks = Failure \<and>
          (\<exists>r. ms_receipt st = Some r \<and> rc_outcome r = ReceiptFailed \<and> receipt_exact_for r m)
      | MPreflightPassed \<Rightarrow> marks = [] \<and> ms_receipt st = None \<and>
          (\<exists>ev. ms_preflight_evidence st = Some ev \<and> pe_admitted ev \<and> preflight_exact_for ev m)
      | _ \<Rightarrow> marks = [] \<and> ms_receipt st = None)"

definition settlement_inv :: "target_settlement_event list \<Rightarrow> target_settlement_state \<Rightarrow> bool" where
  "settlement_inv es s \<longleftrightarrow>
     bt_wf (ts_members s) \<and>
     (case ts_declaration s of
        None \<Rightarrow> ts_phase s = PUndeclared \<and> ts_members s = []
      | Some d \<Rightarrow> ts_phase s \<noteq> PUndeclared \<and> declaration_valid d \<and>
          set (bt_keys (ts_members s)) = md_member_id ` set (td_members d)) \<and>
     (\<forall>i m st. settlement_member s i = Inr (m, st) \<longrightarrow> member_standing m st (effect_marks i es)) \<and>
     (\<forall>i. bt_get (ts_members s) i = None \<longrightarrow> effect_marks i es = []) \<and>
     (ts_phase s = PCompleted \<longrightarrow> (\<forall>i st. bt_get (ts_members s) i = Some st \<longrightarrow> ms_phase st = MSucceeded)) \<and>
     (ts_phase s = PUndeclared \<longrightarrow> ts_declaration s = None)"

lemma settlement_inv_member:
  "settlement_inv es s \<Longrightarrow> settlement_member s i = Inr (m, st) \<Longrightarrow> member_standing m st (effect_marks i es)"
  by (simp add: settlement_inv_def)

lemma settlement_inv_update:
  assumes inv: "settlement_inv es s" and member: "settlement_member s i = Inr (m, st)"
    and t: "ts_members t = bt_modify i f (ts_members s)" "ts_declaration t = ts_declaration s"
      "ts_phase t = ts_phase s"
    and others: "\<And>j. j \<noteq> i \<Longrightarrow> mark_of j e = None"
    and standing: "member_standing m st (effect_marks i es) \<Longrightarrow> member_standing m (f st) (effect_marks i (es @ [e]))"
    and completed: "ms_phase st = MSucceeded \<Longrightarrow> ms_phase (f st) = MSucceeded"
  shows "settlement_inv (es @ [e]) t"
proof -
  from member obtain d where d: "ts_declaration s = Some d" and get: "bt_get (ts_members s) i = Some st"
    by (auto simp: settlement_member_Inr)
  have lookup: "settlement_member t j = Inr (k, u) \<longleftrightarrow>
      (\<exists>u0. settlement_member s j = Inr (k, u0) \<and> u = (if j = i then f u0 else u0))" for j k u
    using settlement_member_update [of i f s j k u] settlement_member_cong [of t "update_member i f s" j] t
    by simp
  have unmarked: "effect_marks j (es @ [e]) = effect_marks j es" if "j \<noteq> i" for j
    using others [OF that] by simp
  have "member_standing k u (effect_marks j (es @ [e]))" if "settlement_member t j = Inr (k, u)" for j k u
  proof (cases "j = i")
    case True
    with that lookup member have "k = m \<and> u = f st" by auto
    with True standing settlement_inv_member [OF inv member] show ?thesis by simp
  next
    case False
    with that lookup have "settlement_member s j = Inr (k, u)" by auto
    with inv unmarked [OF False] show ?thesis by (simp add: settlement_inv_def)
  qed
  moreover have "effect_marks j (es @ [e]) = []" if "bt_get (ts_members t) j = None" for j
  proof -
    from that get t(1) have "j \<noteq> i" "bt_get (ts_members s) j = None"
      by (auto simp: bt_get_modify split: if_splits)
    with inv unmarked show ?thesis by (simp add: settlement_inv_def)
  qed
  moreover have "ms_phase u = MSucceeded"
    if "ts_phase t = PCompleted" "bt_get (ts_members t) j = Some u" for j u
    using that inv t completed get
    by (auto simp: settlement_inv_def bt_get_modify split: if_splits)
  ultimately show ?thesis
    using inv t d by (simp add: settlement_inv_def bt_wf_modify)
qed

text \<open>Events that leave the members alone.\<close>

lemma settlement_inv_moved:
  assumes inv: "settlement_inv es s" and d: "ts_declaration s \<noteq> None"
    and t: "ts_members t = ts_members s" "ts_declaration t = ts_declaration s"
    and p: "ts_phase t \<noteq> PUndeclared"
    and completed: "ts_phase t = PCompleted \<Longrightarrow> projected_phase (ts_members s) = PCompleted"
    and unmarked: "\<And>i. mark_of i e = None"
  shows "settlement_inv (es @ [e]) t"
proof -
  have lookup: "settlement_member t i = settlement_member s i" for i
    by (rule settlement_member_cong [OF t(2,1)])
  have "ms_phase st = MSucceeded" if "ts_phase t = PCompleted" "bt_get (ts_members s) i = Some st" for i st
    using completed that inv bt_values_iff [of "ts_members s" st]
    by (auto simp: projected_phase_completed settlement_inv_def)
  with inv d t p unmarked lookup show ?thesis
    by (auto simp: settlement_inv_def split: option.splits)
qed

lemma map_of_const_map: "map_of (map (\<lambda>m. (f m, c)) ms) i = (if i \<in> f ` set ms then Some c else None)"
  by (induction ms) auto

lemma settlement_inv_declared:
  assumes inv: "settlement_inv es s" and none: "ts_declaration s = None" and d: "declaration_valid d"
  shows "settlement_inv (es @ [DeclarationRecorded d]) (settlement_evolve s (DeclarationRecorded d))"
proof -
  let ?t = "settlement_evolve s (DeclarationRecorded d)"
  have get: "bt_get (ts_members ?t) i =
      (if i \<in> md_member_id ` set (td_members d) then Some member_state_default else None)" for i
    using map_of_const_map [of md_member_id member_state_default "rev (td_members d)" i]
    by (simp add: settlement_evolve_def bt_get_collect flip: rev_map)
  have marks: "effect_marks i es = []" for i
    using inv none by (simp add: settlement_inv_def bt_get_def)
  have "member_standing m st []" if "settlement_member ?t i = Inr (m, st)" for i m st
    using that get by (auto simp: settlement_member_Inr member_standing_def member_state_default_def split: if_splits)
  moreover have "set (bt_keys (ts_members ?t)) = md_member_id ` set (td_members d)"
    using get by (auto simp: bt_keys_iff split: if_splits)
  ultimately show ?thesis
    using d marks by (simp add: settlement_inv_def) (simp add: settlement_evolve_def bt_wf_collect)
qed

lemmas standing_simps = member_standing_def settlement_evolve_def start_member_def update_member_def

lemma standing_restarted:
  assumes "member_standing m st marks" and "ms_phase st = MFailed" and "permit_exact_for p m"
    and "md_retry_safe_after_failure m"
  shows "member_standing m (st\<lparr>ms_phase := MStarted, ms_lane_permit := Some p,
    ms_attempts := n, ms_receipt := None, ms_unknown_evidence_ref := None\<rparr>) (marks @ [Start])"
  using assms unfolding member_standing_def by (simp, blast)

lemma standing_receipt:
  assumes "member_standing m st marks" and "ms_phase st \<in> {MStarted, MUnknown}" and "receipt_exact_for r m"
  shows "member_standing m (st\<lparr>ms_phase := receipt_phase (rc_outcome r), ms_receipt := Some r,
    ms_unknown_evidence_ref := None\<rparr>) (marks @ [receipt_mark (rc_outcome r)])"
proof -
  from assms(1,2) have "attempts_ok marks" "marks \<noteq> []" "last marks = Start"
    "1 < length (filter (\<lambda>k. k = Start) marks) \<longrightarrow> md_retry_safe_after_failure m"
    "\<exists>ev p. ms_preflight_evidence st = Some ev \<and> pe_admitted ev \<and> preflight_exact_for ev m \<and>
        ms_lane_permit st = Some p \<and> permit_exact_for p m"
    unfolding member_standing_def by auto
  with assms(3) show ?thesis unfolding member_standing_def by (cases "rc_outcome r") simp_all
qed

lemma settlement_admits_inv:
  assumes inv: "settlement_inv es s" and admits: "settlement_admits s e"
  shows "settlement_inv (es @ [e]) (settlement_evolve s e)"
  using admits
proof (cases rule: settlement_admits.cases)
  case (declared d)
  with inv show ?thesis by (simp add: settlement_inv_declared)
next
  case (moved why)
  then show ?thesis
    by (intro settlement_inv_moved [OF inv]) (auto simp: settlement_evolve_def)
next
  case (changed p)
  moreover have "projected_phase (ts_members s) \<noteq> PUndeclared"
    by (simp add: projected_phase_def Let_def)
  ultimately show ?thesis
    by (intro settlement_inv_moved [OF inv]) (auto simp: settlement_evolve_def)
next
  case (compensated links)
  then show ?thesis
    by (intro settlement_inv_moved [OF inv]) (auto simp: settlement_evolve_def)
next
  case (passed ev m st)
  then show ?thesis
    by (intro settlement_inv_update [OF inv passed(2)]) (auto simp: standing_simps)
next
  case (refused ev m st)
  then show ?thesis
    by (intro settlement_inv_update [OF inv refused(2)]) (auto simp: standing_simps)
next
  case (started i m st p)
  then show ?thesis
    by (intro settlement_inv_update [OF inv started(2)]) (auto simp: standing_simps)
next
  case (retried i m st p)
  then show ?thesis
    by (intro settlement_inv_update [OF inv retried(2)])
      (auto simp: settlement_evolve_def start_member_def update_member_def intro: standing_restarted)
next
  case (receipt r m st)
  then show ?thesis
    by (intro settlement_inv_update [OF inv receipt(2)])
      (auto simp: settlement_evolve_def update_member_def intro: standing_receipt)
next
  case (unknown i m st ev)
  then show ?thesis
    by (intro settlement_inv_update [OF inv unknown(2)]) (auto simp: standing_simps)
next
  case (queried i m st q)
  then show ?thesis
    by (intro settlement_inv_update [OF inv queried(2)]) (auto simp: standing_simps)
next
  case (cancelled i m st why)
  then show ?thesis
    by (intro settlement_inv_update [OF inv cancelled(2)]) (auto simp: standing_simps)
next
  case (superseded i m st later)
  then show ?thesis
    by (intro settlement_inv_update [OF inv superseded(2)]) (auto simp: standing_simps)
qed

section \<open>Deciding emits admitted events\<close>

lemma settlement_member_get:
  assumes "settlement_inv es s" and "bt_get (ts_members s) i = Some st"
  obtains m where "settlement_member s i = Inr (m, st)"
proof -
  from assms obtain d where d: "ts_declaration s = Some d"
    by (auto simp: settlement_inv_def bt_get_def split: option.splits)
  with assms bt_keys_iff [of i "ts_members s"] have "i \<in> md_member_id ` set (td_members d)"
    by (simp add: settlement_inv_def)
  then obtain m where "find (\<lambda>m. md_member_id m = i) (td_members d) = Some m"
    by (cases "find (\<lambda>m. md_member_id m = i) (td_members d)") (auto simp: find_None_iff)
  with d assms(2) show ?thesis by (intro that) (simp add: settlement_member_Inr)
qed

lemma cancels_admitted:
  assumes "distinct ids"
    and "\<forall>i \<in> set ids. \<exists>m st. settlement_member s i = Inr (m, st) \<and> ms_phase st \<in> {MPending, MPreflightPassed}"
  shows "let es = map (\<lambda>i. MemberCancelledBeforeStart i why) ids; t = foldl settlement_evolve s es in
    settlement_admitted s es \<and> ts_declaration t = ts_declaration s \<and>
    ts_members t = foldl (\<lambda>ms i. set_member_phase i MCancelledBeforeStart ms) (ts_members s) ids"
  using assms
proof (induction ids arbitrary: s)
  case (Cons i ids)
  let ?t = "settlement_evolve s (MemberCancelledBeforeStart i why)"
  have evolved: "settlement_member ?t j = Inr (m, st)" if "settlement_member s j = Inr (m, st)" "j \<noteq> i" for j m st
    using that by (auto simp: settlement_evolve_def settlement_member_Inr bt_get_modify)
  have "\<forall>j \<in> set ids. \<exists>m st. settlement_member ?t j = Inr (m, st) \<and> ms_phase st \<in> {MPending, MPreflightPassed}"
    using Cons.prems evolved by (metis distinct.simps(2) list.set_intros(2))
  moreover have "settlement_admits s (MemberCancelledBeforeStart i why)"
    using Cons.prems(2) by (auto intro: settlement_admits.cancelled)
  ultimately show ?case
    using Cons.IH [of ?t] Cons.prems(1)
    by (simp add: Let_def) (simp add: settlement_evolve_def set_member_phase_def)
qed simp

lemma unstarted_ids_members:
  assumes "settlement_inv es s"
  shows "distinct (unstarted_ids (ts_members s))"
    and "\<forall>i \<in> set (unstarted_ids (ts_members s)).
      \<exists>m st. settlement_member s i = Inr (m, st) \<and> ms_phase st \<in> {MPending, MPreflightPassed}"
proof -
  have wf: "bt_wf (ts_members s)" using assms by (simp add: settlement_inv_def)
  then show "distinct (unstarted_ids (ts_members s))"
    unfolding unstarted_ids_def by (intro distinct_map_filter bt_wf_distinct)
  have "\<exists>st. bt_get (ts_members s) i = Some st \<and> ms_phase st \<in> {MPending, MPreflightPassed}"
    if "i \<in> set (unstarted_ids (ts_members s))" for i
    using that wf by (auto simp: unstarted_ids_def bt_entries_get)
  with assms show "\<forall>i \<in> set (unstarted_ids (ts_members s)).
      \<exists>m st. settlement_member s i = Inr (m, st) \<and> ms_phase st \<in> {MPending, MPreflightPassed}"
    by (metis settlement_member_get)
qed

lemma member_then_phase:
  assumes "settlement_admits s e" "ts_declaration (settlement_evolve s e) \<noteq> None"
    and "p \<in> {PApplying, PReconciliationRequired} \<or> p = projected_phase (ts_members (settlement_evolve s e))"
  shows "settlement_admitted s [e, CoordinatorPhaseChanged p]"
  using assms by (simp add: settlement_admits.changed)

lemma record_receipt_admitted:
  assumes "record_receipt s r q = Inr es"
  shows "settlement_admitted s es"
proof -
  from assms obtain m st where member: "settlement_member s (rc_member_id r) = Inr (m, st)"
    and st: "ms_phase st \<in> {MStarted, MUnknown}" and r: "receipt_exact_for r m"
    and es: "es = [MemberReceiptRecorded r,
      CoordinatorPhaseChanged (phase_after_member_change s (rc_member_id r) (receipt_phase (rc_outcome r)))]"
    by (auto simp: record_receipt_def and_then_Inr Let_def split: if_splits)
  have "settlement_admits s (MemberReceiptRecorded r)" by (rule settlement_admits.receipt [OF member st r])
  with member show ?thesis unfolding es
    by (intro member_then_phase)
      (auto simp: settlement_evolve_def phase_after_member_change_def settlement_member_Inr projected_phase_modify)
qed

text \<open>A compensation pairs every successful receipt with a repair of its own.\<close>

lemma compensation_one_to_one:
  assumes "compensates s links"
  shows "ts_phase s = PPartiallyApplied"
    and "set (map cl_original_receipt_ref links) = successful_receipts (ts_members s)"
    and "distinct (map cl_original_receipt_ref links)" "distinct (map cl_compensation_receipt_ref links)"
    and "distinct (map (\<lambda>l. (cl_compensation_declaration_id l, cl_compensation_member_id l)) links)"
  using assms card_distinct [of "map cl_original_receipt_ref links"]
    card_distinct [of "map cl_compensation_receipt_ref links"]
    card_distinct [of "map (\<lambda>l. (cl_compensation_declaration_id l, cl_compensation_member_id l)) links"]
  by (simp_all add: compensates_def Let_def)

lemma settlement_decide_admitted:
  assumes inv: "settlement_inv es s" and ok: "settlement_decide s c = Inr fs"
  shows "settlement_admitted s fs"
proof (cases c)
  case (CancelUnstarted why)
  let ?ids = "unstarted_ids (ts_members s)"
  note cancels = cancels_admitted [OF unstarted_ids_members [OF inv], where why = why]
  from CancelUnstarted ok have fs: "fs = map (\<lambda>i. MemberCancelledBeforeStart i why) ?ids @
      [CoordinatorPhaseChanged (projected_phase
        (foldl (\<lambda>ms i. set_member_phase i MCancelledBeforeStart ms) (ts_members s) ?ids))]"
    and "?ids \<noteq> []"
    by (auto simp: Let_def split: if_splits)
  then obtain i where "i \<in> set ?ids" by (cases ?ids) auto
  with unstarted_ids_members(2) [OF inv] have "ts_declaration s \<noteq> None"
    by (fastforce simp: settlement_member_Inr)
  with cancels show ?thesis unfolding fs by (simp add: Let_def settlement_admits.changed)
next
  case (SupersedeNotStarted i later)
  with ok obtain m st where member: "settlement_member s i = Inr (m, st)"
    and st: "ms_phase st \<in> {MPending, MPreflightPassed}"
    and fs: "fs = [MemberSupersededBeforeStart i later,
      CoordinatorPhaseChanged (phase_after_member_change s i MSupersededBeforeStart)]"
    by (auto simp: and_then_Inr split: if_splits)
  have "settlement_admits s (MemberSupersededBeforeStart i later)"
    by (rule settlement_admits.superseded [OF member st])
  with member show ?thesis unfolding fs
    by (intro member_then_phase)
      (auto simp: settlement_evolve_def phase_after_member_change_def settlement_member_Inr projected_phase_modify)
next
  case (RecordPreflight ev)
  with ok obtain m st where member: "settlement_member s (pe_member_id ev) = Inr (m, st)"
    and st: "ms_phase st = MPending" "preflight_exact_for ev m" "ts_phase s \<noteq> PCompleted"
    and fs: "fs = (if \<not> pe_admitted ev
      then [MemberPreflightRefused ev, CoordinatorRefused (the (pe_refusal_reason ev))]
      else MemberPreflightPassed ev #
        (if list_all (\<lambda>(i, st). i = md_member_id m \<or> ms_phase st = MPreflightPassed) (ts_members s)
         then [CoordinatorReady] else []))"
    by (auto simp: and_then_Inr Let_def split: if_splits)
  from member have d: "ts_declaration s \<noteq> None" by (auto simp: settlement_member_Inr)
  have moved: "settlement_admits t CoordinatorReady" "settlement_admits t (CoordinatorRefused why)"
    if "ts_declaration t \<noteq> None" for t why
    using that by (auto intro: settlement_admits.moved [where why = why])
  have "ts_declaration (settlement_evolve s (MemberPreflightPassed ev)) \<noteq> None"
    "ts_declaration (settlement_evolve s (MemberPreflightRefused ev)) \<noteq> None"
    using d by (simp_all add: settlement_evolve_def)
  with member st show ?thesis unfolding fs
    by (auto simp: moved intro: settlement_admits.passed settlement_admits.refused)
next
  case (StartMember i p)
  with ok obtain m st where member: "settlement_member s i = Inr (m, st)" and st: "ms_phase st = MPreflightPassed" "permit_exact_for p m"
    and fs: "fs = [MemberStarted i p, CoordinatorPhaseChanged PApplying]"
    by (auto simp: and_then_Inr split: if_splits)
  from settlement_admits.started [OF member] settlement_member_declared [OF member] st
  show ?thesis unfolding fs
    by (intro member_then_phase) (simp_all add: settlement_evolve_def start_member_def)
next
  case (RetryKnownFailure i p)
  with ok obtain m st where member: "settlement_member s i = Inr (m, st)" and st: "ms_phase st = MFailed" "permit_exact_for p m"
      "md_retry_safe_after_failure m"
    and fs: "fs = [MemberRetryStarted i p, CoordinatorPhaseChanged PApplying]"
    by (auto simp: and_then_Inr split: if_splits)
  from settlement_admits.retried [OF member] settlement_member_declared [OF member] st
  show ?thesis unfolding fs
    by (intro member_then_phase) (simp_all add: settlement_evolve_def start_member_def)
next
  case (RecordUnknown i ev)
  with ok obtain m st where member: "settlement_member s i = Inr (m, st)" and st: "ms_phase st = MStarted"
    and fs: "fs = [MemberOutcomeUnknown i ev, CoordinatorPhaseChanged PReconciliationRequired]"
    by (auto simp: and_then_Inr split: if_splits)
  from settlement_admits.unknown [OF member] settlement_member_declared [OF member] st
  show ?thesis unfolding fs
    by (intro member_then_phase) (simp_all add: settlement_evolve_def start_member_def)
next
  case (RequestAuthoritativeQuery i q)
  with ok show ?thesis
    by (auto simp: and_then_Inr split: if_splits intro: settlement_admits.queried)
qed (use inv ok in \<open>auto simp: before_effects_def settlement_inv_def record_receipt_admitted
  dest: compensation_one_to_one(1) split: option.splits if_splits intro: settlement_admits.intros\<close>)

lemma settlement_admitted_inv:
  assumes "settlement_inv es s" and "settlement_admitted s fs"
  shows "settlement_inv (es @ fs) (foldl settlement_evolve s fs)"
  using assms
proof (induction fs arbitrary: es s)
  case (Cons f fs)
  then have "settlement_inv (es @ [f]) (settlement_evolve s f)" by (simp add: settlement_admits_inv)
  with Cons.IH [OF this] Cons.prems(2) show ?case by simp
qed simp

interpretation settlement_trace: lifecycle_trace "settlement_lifecycle sd enc dec" settlement_inv
proof unfold_locales
  show "settlement_inv [] (lc_default (settlement_lifecycle sd enc dec))"
    by (simp add: settlement_inv_def settlement_default_def bt.wf_empty settlement_member_Inr)
next
  fix es s c fs
  assume "settlement_inv es s" and "lc_decide (settlement_lifecycle sd enc dec) s c = Inr fs"
  then show "settlement_inv (es @ fs) (lc_fold (settlement_lifecycle sd enc dec) s fs)"
    by (simp add: lc_fold_def settlement_admitted_inv settlement_decide_admitted)
qed

section \<open>Evolving never panics\<close>

fun expected_member :: "target_settlement_event \<Rightarrow> string option" where
  "expected_member (MemberPreflightPassed ev) = Some (pe_member_id ev)"
| "expected_member (MemberPreflightRefused ev) = Some (pe_member_id ev)"
| "expected_member (MemberStarted i _) = Some i"
| "expected_member (MemberRetryStarted i _) = Some i"
| "expected_member (MemberReceiptRecorded r) = Some (rc_member_id r)"
| "expected_member (MemberOutcomeUnknown i _) = Some i"
| "expected_member (AuthoritativeQueryRequested i _) = Some i"
| "expected_member (MemberCancelledBeforeStart i _) = Some i"
| "expected_member (MemberSupersededBeforeStart i _) = Some i"
| "expected_member _ = None"

fun evolves :: "target_settlement_state \<Rightarrow> target_settlement_event list \<Rightarrow> bool" where
  "evolves s [] = True"
| "evolves s (e # es) =
     ((case expected_member e of None \<Rightarrow> True | Some i \<Rightarrow> bt_get (ts_members s) i \<noteq> None) \<and>
      evolves (settlement_evolve s e) es)"

lemma settlement_admits_expected:
  "settlement_admits s e \<Longrightarrow> expected_member e = Some i \<Longrightarrow> \<exists>st. bt_get (ts_members s) i = Some st"
  by (cases rule: settlement_admits.cases) (auto simp: settlement_member_Inr)

lemma settlement_never_panics:
  assumes "settlement_admitted s fs"
  shows "evolves s fs"
  using assms
  by (induction fs arbitrary: s) (auto simp: settlement_admits_expected split: option.splits)

lemma settlement_log_admitted:
  "settlement_admitted settlement_default (lc_log (settlement_lifecycle sd enc dec) settlement_default cs)"
proof (induction cs rule: rev_induct)
  case (snoc c cs)
  let ?L = "settlement_lifecycle sd enc dec"
  let ?s = "lc_drive ?L settlement_default cs"
  have fold: "foldl settlement_evolve settlement_default (lc_log ?L settlement_default cs) = ?s"
    using lc_fold_log [of ?L settlement_default cs] by (simp add: lc_fold_def)
  have "settlement_admitted ?s fs" if "settlement_decide ?s c = Inr fs" for fs
    using settlement_decide_admitted [OF _ that] settlement_trace.log_tinv [of sd enc dec cs] by simp
  with snoc fold show ?case by (auto split: sum.splits)
qed simp

section \<open>Facts for the properties\<close>

lemma attempts_ok_split:
  assumes "attempts_ok (xs @ m # ys)"
  shows "case m of Start \<Rightarrow> xs = [] \<or> last xs = Failure | _ \<Rightarrow> xs \<noteq> [] \<and> last xs = Start"
  using assms unfolding attempts_ok_def by (rule every_atD) simp

lemma attempts_ok_first: "attempts_ok ms \<Longrightarrow> ms \<noteq> [] \<Longrightarrow> Start \<in> set ms"
proof -
  assume ok: "attempts_ok ms" and "ms \<noteq> []"
  then obtain m rest where "ms = [] @ m # rest" by (cases ms) auto
  with ok attempts_ok_split [of "[]" m rest] show ?thesis by (cases m) auto
qed

lemma retried_safely:
  assumes "member_standing m st (xs @ Start # ys)" and "xs \<noteq> []"
  shows "md_retry_safe_after_failure m"
proof -
  from assms(1) have "attempts_ok ((xs @ [Start]) @ ys)" by (simp add: member_standing_def)
  then have "attempts_ok xs"
    unfolding attempts_ok_def every_at_def by (metis append.assoc append_Cons)
  with assms(2) have "0 < length (filter (\<lambda>k. k = Start) xs)"
    using attempts_ok_first by (auto simp: filter_empty_conv)
  with assms(1) show ?thesis by (simp add: member_standing_def)
qed

lemma members_valid_ids:
  "members_valid ids ops ms \<Longrightarrow> distinct (map md_member_id ms) \<and> md_member_id ` set ms \<inter> ids = {}"
  by (induction ms arbitrary: ids ops) auto

lemma find_distinct:
  "distinct (map f xs) \<Longrightarrow> x \<in> set xs \<Longrightarrow> find (\<lambda>y. f y = f x) xs = Some x"
  by (induction xs) (auto simp: rev_image_eqI)

lemma marked_member:
  assumes "settlement_inv es s" and "effect_marks i es \<noteq> []"
  obtains m st where "settlement_member s i = Inr (m, st)" "member_standing m st (effect_marks i es)"
proof -
  from assms obtain st where "bt_get (ts_members s) i = Some st"
    by (cases "bt_get (ts_members s) i") (auto simp: settlement_inv_def)
  with assms(1) obtain m where "settlement_member s i = Inr (m, st)" by (rule settlement_member_get)
  with assms(1) that show ?thesis by (simp add: settlement_inv_def)
qed

section \<open>A settlement of two members\<close>

definition sample_member :: "string \<Rightarrow> settlement_member_declaration" where
  "sample_member i = \<lparr>md_member_id = i, md_target_id = ''t:'' @ i, md_operation_id = ''op:'' @ i,
     md_expected_basis = ''b'', md_candidate_digest = ''c'', md_expected_result_digest = ''r'',
     md_policy_decision_handle = ''pol'', md_adapter = ''git/v1'', md_act = Publish,
     md_retry_safe_after_failure = True, md_authoritative_query = True\<rparr>"

definition sample_declaration :: target_settlement_declaration where
  "sample_declaration = \<lparr>td_declaration_id = ''d'', td_project_id = ''p'', td_chat_id = ''chat'',
     td_source_change_set_ref = ''cs'', td_promotion_manifest_ref = None,
     td_members = [sample_member ''a'', sample_member ''b'']\<rparr>"

definition sample_preflight :: "string \<Rightarrow> member_preflight_evidence" where
  "sample_preflight i = \<lparr>pe_member_id = i, pe_observed_basis = ''b'', pe_observed_candidate_digest = ''c'',
     pe_adapter_contract_ref = ''k'', pe_governance_decision_ref = ''pol'', pe_admitted = True,
     pe_refusal_reason = None\<rparr>"

definition sample_permit :: "string \<Rightarrow> u64 \<Rightarrow> target_lane_permit" where
  "sample_permit i n = \<lparr>lp_lane_id = ''lane'', lp_target_id = ''t:'' @ i, lp_member_id = i,
     lp_operation_id = ''op:'' @ i, lp_sequence = n, lp_authority_position = ''pos''\<rparr>"

definition sample_receipt :: "string \<Rightarrow> receipt_outcome \<Rightarrow> authenticated_target_receipt" where
  "sample_receipt i out = \<lparr>rc_receipt_ref = ''rc:'' @ i, rc_member_id = i, rc_target_id = ''t:'' @ i,
     rc_operation_id = ''op:'' @ i, rc_expected_basis = ''b'',
     rc_resulting_basis = (if out = ReceiptSucceeded then Some ''b2'' else None),
     rc_resulting_digest = (if out = ReceiptSucceeded then Some ''r'' else None), rc_outcome = out,
     rc_authority_ref = ''auth'', rc_authentication_ref = ''sig'',
     rc_failure_reason = (if out = ReceiptSucceeded then None else Some ''refused'')\<rparr>"

definition sample_serde :: "target_settlement_event serde" where
  "sample_serde = \<lparr>to_json = (\<lambda>_. []), from_json = (\<lambda>_. None)\<rparr>"

abbreviation sample_settlement ::
  "(target_settlement_state, target_settlement_command, target_settlement_event) lifecycle" where
  "sample_settlement \<equiv> settlement_lifecycle sample_serde (\<lambda>_. None) (\<lambda>_. None)"

definition sample_ready :: "target_settlement_command list" where
  "sample_ready = [Declare sample_declaration, BeginPreflight, RecordPreflight (sample_preflight ''a''),
     RecordPreflight (sample_preflight ''b'')]"

definition sample_retry :: "target_settlement_command list" where
  "sample_retry = sample_ready @
     [StartMember ''a'' (sample_permit ''a'' 1), RecordReceipt (sample_receipt ''a'' ReceiptFailed),
      RetryKnownFailure ''a'' (sample_permit ''a'' 2), RecordReceipt (sample_receipt ''a'' ReceiptSucceeded),
      StartMember ''b'' (sample_permit ''b'' 1), RecordUnknown ''b'' ''timeout'',
      RequestAuthoritativeQuery ''b'' ''q1'', RecordQueryReceipt (sample_receipt ''b'' ReceiptSucceeded)]"

lemma sample_retry_log:
  "lc_log sample_settlement settlement_default sample_retry =
     [DeclarationRecorded sample_declaration, PreflightStarted, MemberPreflightPassed (sample_preflight ''a''),
      MemberPreflightPassed (sample_preflight ''b''), CoordinatorReady,
      MemberStarted ''a'' (sample_permit ''a'' 1), CoordinatorPhaseChanged PApplying,
      MemberReceiptRecorded (sample_receipt ''a'' ReceiptFailed), CoordinatorPhaseChanged PApplying,
      MemberRetryStarted ''a'' (sample_permit ''a'' 2), CoordinatorPhaseChanged PApplying,
      MemberReceiptRecorded (sample_receipt ''a'' ReceiptSucceeded), CoordinatorPhaseChanged PApplying,
      MemberStarted ''b'' (sample_permit ''b'' 1), CoordinatorPhaseChanged PApplying,
      MemberOutcomeUnknown ''b'' ''timeout'', CoordinatorPhaseChanged PReconciliationRequired,
      AuthoritativeQueryRequested ''b'' ''q1'',
      MemberReceiptRecorded (sample_receipt ''b'' ReceiptSucceeded), CoordinatorPhaseChanged PCompleted]"
  by code_simp

lemma sample_retry_completed:
  "ts_phase (lc_drive sample_settlement settlement_default sample_retry) = PCompleted"
  by code_simp

section \<open>Properties\<close>

text \<open>
  C13. An effect on a target is issued once. In the log of any command sequence, a member is started for
  the first time, or again only when its latest attempt is settled by a failed receipt and its
  declaration says a failure is safe to retry; a receipt settles the open attempt of its member; and
  after a receipt of success the member is never started or settled again. Evolving the log never
  meets an undeclared member.
\<close>

theorem settlement_effects_once:
  assumes log: "lc_log (settlement_lifecycle sd enc dec) settlement_default cs = xs @ e # ys"
  shows "evolves settlement_default (xs @ e # ys) \<and>
    (mark_of i e = Some Start \<longrightarrow> effect_marks i xs = [] \<or>
       last (effect_marks i xs) = Failure \<and>
       (\<exists>d m. ts_declaration (lc_drive (settlement_lifecycle sd enc dec) settlement_default cs) = Some d \<and>
          m \<in> set (td_members d) \<and> md_member_id m = i \<and> md_retry_safe_after_failure m)) \<and>
    (mark_of i e \<in> {Some Success, Some Failure} \<longrightarrow> effect_marks i xs \<noteq> [] \<and> last (effect_marks i xs) = Start) \<and>
    (mark_of i e = Some Success \<longrightarrow> effect_marks i ys = [])"
proof -
  let ?s = "lc_drive (settlement_lifecycle sd enc dec) settlement_default cs"
  have inv: "settlement_inv (xs @ e # ys) ?s"
    using settlement_trace.log_tinv [of sd enc dec cs] log by simp
  have marked: "attempts_ok (effect_marks i xs @ k # effect_marks i ys) \<and>
      (\<exists>m st. settlement_member ?s i = Inr (m, st) \<and> member_standing m st (effect_marks i xs @ k # effect_marks i ys))"
    if "mark_of i e = Some k" for k
  proof -
    have marks: "effect_marks i (xs @ e # ys) = effect_marks i xs @ k # effect_marks i ys"
      using that by simp
    then obtain m st where "settlement_member ?s i = Inr (m, st)" "member_standing m st (effect_marks i (xs @ e # ys))"
      using marked_member [OF inv, of i] by auto
    then show ?thesis unfolding marks by (auto simp: member_standing_def)
  qed
  have "evolves settlement_default (xs @ e # ys)"
    using settlement_never_panics [OF settlement_log_admitted [of sd enc dec cs]] log by simp
  moreover have "effect_marks i xs = [] \<or> last (effect_marks i xs) = Failure \<and>
      (\<exists>d m. ts_declaration ?s = Some d \<and> m \<in> set (td_members d) \<and> md_member_id m = i \<and>
        md_retry_safe_after_failure m)" if "mark_of i e = Some Start"
    using marked [OF that] attempts_ok_split [of "effect_marks i xs" Start "effect_marks i ys"] retried_safely
    by (force simp: settlement_member_Inr find_Some_iff)
  moreover have "effect_marks i xs \<noteq> [] \<and> last (effect_marks i xs) = Start"
    if "mark_of i e = Some k" "k \<noteq> Start" for k
    using marked [OF that(1)] that(2) attempts_ok_split [of "effect_marks i xs" k "effect_marks i ys"]
    by (cases k) auto
  moreover have "effect_marks i ys = []" if "mark_of i e = Some Success"
    using marked [OF that] attempts_ok_success by blast
  ultimately show ?thesis by blast
qed

theorem settlement_effects_once_witness:
  "\<exists>xs ys. lc_log sample_settlement settlement_default sample_retry =
       xs @ MemberReceiptRecorded (sample_receipt ''a'' ReceiptSucceeded) # ys \<and>
     effect_marks ''a'' xs = [Start, Failure, Start] \<and> effect_marks ''a'' ys = []"
proof -
  let ?e = "MemberReceiptRecorded (sample_receipt ''a'' ReceiptSucceeded)"
  let ?log = "lc_log sample_settlement settlement_default sample_retry"
  have split: "?log = take 11 ?log @ ?e # drop 12 ?log" by code_simp
  have "mark_of ''a'' ?e = Some Success" by code_simp
  with settlement_effects_once [OF split, of "''a''"] have "effect_marks ''a'' (drop 12 ?log) = []" by blast
  moreover have "effect_marks ''a'' (take 11 ?log) = [Start, Failure, Start]" by code_simp
  ultimately show ?thesis using split by blast
qed

text \<open>
  C14. A settlement is completed on receipts: in the phase completed the declaration has members, and
  each of them holds the receipt of a success that names it, its target, its operation and its
  expected basis, with exactly the result digest it declared; its preflight was admitted on the
  declared basis and candidate.
\<close>

theorem settlement_completed_receipts:
  assumes "ts_phase (lc_drive (settlement_lifecycle sd enc dec) settlement_default cs) = PCompleted"
  shows "\<exists>d. ts_declaration (lc_drive (settlement_lifecycle sd enc dec) settlement_default cs) = Some d \<and>
    td_members d \<noteq> [] \<and>
    (\<forall>m \<in> set (td_members d). \<exists>st r ev.
       bt_get (ts_members (lc_drive (settlement_lifecycle sd enc dec) settlement_default cs)) (md_member_id m) = Some st \<and>
       ms_receipt st = Some r \<and> rc_outcome r = ReceiptSucceeded \<and> receipt_exact_for r m \<and>
       ms_preflight_evidence st = Some ev \<and> pe_admitted ev \<and> preflight_exact_for ev m)"
proof -
  let ?s = "lc_drive (settlement_lifecycle sd enc dec) settlement_default cs"
  obtain es where inv: "settlement_inv es ?s" using settlement_trace.log_tinv [of sd enc dec cs] by auto
  with assms obtain d where d: "ts_declaration ?s = Some d" "declaration_valid d"
    by (auto simp: settlement_inv_def split: option.splits)
  have "\<exists>st r ev. bt_get (ts_members ?s) (md_member_id m) = Some st \<and> ms_receipt st = Some r \<and>
      rc_outcome r = ReceiptSucceeded \<and> receipt_exact_for r m \<and>
      ms_preflight_evidence st = Some ev \<and> pe_admitted ev \<and> preflight_exact_for ev m"
    if m: "m \<in> set (td_members d)" for m
  proof -
    from d(2) have "distinct (map md_member_id (td_members d))"
      using members_valid_ids by (auto simp: declaration_valid_def split: if_splits)
    with m have find: "find (\<lambda>x. md_member_id x = md_member_id m) (td_members d) = Some m"
      by (rule find_distinct [rotated])
    from inv d m have "md_member_id m \<in> set (bt_keys (ts_members ?s))" by (simp add: settlement_inv_def)
    then obtain st where st: "bt_get (ts_members ?s) (md_member_id m) = Some st" by (auto simp: bt_keys_iff)
    with inv assms have "ms_phase st = MSucceeded" by (simp add: settlement_inv_def)
    moreover from st find d have "settlement_member ?s (md_member_id m) = Inr (m, st)"
      by (simp add: settlement_member_Inr)
    ultimately show ?thesis
      using settlement_inv_member [OF inv] st by (fastforce simp: member_standing_def)
  qed
  with d show ?thesis by (auto simp: declaration_valid_def split: if_splits)
qed

theorem settlement_completed_receipts_witness:
  "ts_phase (lc_drive sample_settlement settlement_default sample_retry) = PCompleted \<and>
   (\<exists>st r. bt_get (ts_members (lc_drive sample_settlement settlement_default sample_retry)) ''b'' = Some st \<and>
     ms_receipt st = Some r \<and> receipt_exact_for r (sample_member ''b''))"
proof -
  have "ts_declaration (lc_drive sample_settlement settlement_default sample_retry) = Some sample_declaration"
    by code_simp
  moreover have "sample_member ''b'' \<in> set (td_members sample_declaration)" "md_member_id (sample_member ''b'') = ''b''"
    by (simp_all add: sample_declaration_def sample_member_def)
  ultimately show ?thesis
    using settlement_completed_receipts [OF sample_retry_completed] sample_retry_completed by fastforce
qed

text \<open>
  C39. The phases the code calls terminal do not end a settlement by themselves. After a refusal, a
  cancellation or an expiry, superseding one member that has not started puts the coordinator back into
  applying, and another member that passed its preflight then starts.
\<close>

theorem settlement_terminal_revived:
  assumes "ts_phase s \<in> {PRefused, PCancelled, PExpired}" and "bt_wf (ts_members s)"
    and i: "settlement_member s i = Inr (m, st)" "ms_phase st = MPreflightPassed" "ms_receipt st = None"
    and j: "settlement_member s j = Inr (n, su)" "ms_phase su \<in> {MPending, MPreflightPassed}" "i \<noteq> j"
    and "valid_identity later" and p: "permit_exact_for p m"
    and known: "MUnknown \<notin> ms_phase ` set (bt_values (ts_members s))"
  shows "terminal (ts_phase s) \<and>
    (\<exists>st'. settlement_member (lc_drive (settlement_lifecycle sd enc dec) s
       [SupersedeNotStarted j later, StartMember i p]) i = Inr (m, st') \<and> ms_phase st' = MStarted)"
proof -
  let ?L = "settlement_lifecycle sd enc dec"
  let ?ms = "set_member_phase j MSupersededBeforeStart (ts_members s)"
  have get: "bt_get ?ms i = Some st"
    using i(1) j(3) by (auto simp: set_member_phase_def bt_get_modify settlement_member_Inr)
  have "MUnknown \<notin> ms_phase ` set (bt_values ?ms)"
    using known by (fastforce simp: set_member_phase_def bt_values_def bt_modify_def image_iff split: if_splits)
  moreover have "st \<in> set (bt_values ?ms)"
    using get assms(2) by (auto simp: bt_values_iff set_member_phase_def bt_wf_modify)
  ultimately have applying: "projected_phase ?ms = PApplying"
    using i(2) by (auto simp: projected_phase_def Let_def list_ex_iff intro!: bexI [of _ st])
  let ?t = "lc_apply ?L s (SupersedeNotStarted j later)"
  have "settlement_decide s (SupersedeNotStarted j later) =
      Inr [MemberSupersededBeforeStart j later, CoordinatorPhaseChanged PApplying]"
    using j assms(9) applying by (simp add: phase_after_member_change_def)
  then have t': "?t = settlement_evolve (settlement_evolve s (MemberSupersededBeforeStart j later))
      (CoordinatorPhaseChanged PApplying)"
    by (simp add: lc_apply_ok)
  have t: "ts_phase ?t = PApplying" "settlement_member ?t i = Inr (m, st)"
    using i(1) j(3) unfolding t' by (auto simp: settlement_evolve_def settlement_member_Inr bt_get_modify)
  have "settlement_decide ?t (StartMember i p) = Inr [MemberStarted i p, CoordinatorPhaseChanged PApplying]"
    using t i p by simp
  then have "lc_drive ?L s [SupersedeNotStarted j later, StartMember i p] =
      (settlement_evolve (settlement_evolve ?t (MemberStarted i p)) (CoordinatorPhaseChanged PApplying))"
    by (simp add: lc_apply_ok)
  with t(2) have "\<exists>st'. settlement_member (lc_drive ?L s [SupersedeNotStarted j later, StartMember i p]) i =
      Inr (m, st') \<and> ms_phase st' = MStarted"
    by (auto simp: settlement_evolve_def start_member_def settlement_member_Inr bt_get_modify)
  with assms(1) show ?thesis by auto
qed

theorem settlement_terminal_revived_witness:
  "ts_phase (lc_drive sample_settlement settlement_default (sample_ready @ [CancelBeforeEffects ''stop''])) = PCancelled \<and>
   (\<exists>st. settlement_member (lc_drive sample_settlement settlement_default (sample_ready @ [CancelBeforeEffects ''stop'',
      SupersedeNotStarted ''b'' ''later'', StartMember ''a'' (sample_permit ''a'' 1)])) ''a'' =
        Inr (sample_member ''a'', st) \<and> ms_phase st = MStarted)"
proof -
  let ?s = "lc_drive sample_settlement settlement_default (sample_ready @ [CancelBeforeEffects ''stop''])"
  let ?st = "member_state_default\<lparr>ms_phase := MPreflightPassed, ms_preflight_evidence := Some (sample_preflight ''a'')\<rparr>"
  let ?su = "member_state_default\<lparr>ms_phase := MPreflightPassed, ms_preflight_evidence := Some (sample_preflight ''b'')\<rparr>"
  have cancelled: "ts_phase ?s = PCancelled" by code_simp
  have "ts_phase ?s \<in> {PRefused, PCancelled, PExpired}" "bt_wf (ts_members ?s)"
    "settlement_member ?s ''a'' = Inr (sample_member ''a'', ?st)" "ms_phase ?st = MPreflightPassed" "ms_receipt ?st = None"
    "settlement_member ?s ''b'' = Inr (sample_member ''b'', ?su)" "ms_phase ?su \<in> {MPending, MPreflightPassed}"
    "''a'' \<noteq> ''b''" "valid_identity ''later''" "permit_exact_for (sample_permit ''a'' 1) (sample_member ''a'')"
    "MUnknown \<notin> ms_phase ` set (bt_values (ts_members ?s))"
    by code_simp+
  from settlement_terminal_revived [OF this, of sample_serde "\<lambda>_. None" "\<lambda>_. None"] cancelled
  show ?thesis by simp
qed

end
