(* ===== verification/Settlement_Lane.thy ===== *)
theory Settlement_Lane
  imports Settlement "HOL-Library.Sublist"
begin

text \<open>
  The ordered lane of one stable target, \<open>crates/core/src/target_settlement.rs\<close>: members queue, the
  head is granted a permit with the next sequence number, and the lane moves on when its outcome is
  known.
\<close>

section \<open>Data\<close>

record target_lane_member =
  lm_settlement_scope :: string
  lm_declaration_id :: string
  lm_member_id :: string
  lm_target_id :: string
  lm_operation_id :: string
  lm_expected_basis :: string
  lm_expected_result_digest :: string
  lm_attempt :: u32

definition format_member_ref :: "string \<Rightarrow> string \<Rightarrow> u32 \<Rightarrow> string" where
  "format_member_ref scope member attempt =
     scope @ ''#'' @ member @ ''#attempt:'' @ decimal (unat attempt)"

definition member_ref :: "target_lane_member \<Rightarrow> string" where
  "member_ref m = format_member_ref (lm_settlement_scope m) (lm_member_id m) (lm_attempt m)"

definition lane_member_valid :: "target_lane_member \<Rightarrow> bool" where
  "lane_member_valid m \<longleftrightarrow>
     list_all valid_identity
       [lm_settlement_scope m, lm_declaration_id m, lm_member_id m, lm_target_id m, lm_operation_id m,
        lm_expected_basis m, lm_expected_result_digest m] \<and> 0 < lm_attempt m"

datatype target_lane_entry_phase = LQueued | LGranted | LOutcomeUnknown

record target_lane_entry =
  le_member :: target_lane_member
  le_phase :: target_lane_entry_phase
  le_permit :: "target_lane_permit option"

abbreviation entry_ref :: "target_lane_entry \<Rightarrow> string" where
  "entry_ref e \<equiv> member_ref (le_member e)"

record target_lane_resolution =
  lr_member_ref :: string
  lr_operation_id :: string
  lr_outcome_ref :: string
  lr_superseded :: bool

record target_settlement_lane_state =
  ln_target_id :: "string option"
  ln_queue :: "target_lane_entry list"
  ln_resolved :: "target_lane_resolution list"
  ln_last_sequence :: u64
  ln_history_events :: u64

definition lane_default :: target_settlement_lane_state where
  "lane_default = \<lparr>ln_target_id = None, ln_queue = [], ln_resolved = [], ln_last_sequence = 0,
     ln_history_events = 0\<rparr>"

datatype target_settlement_lane_command =
    Enqueue target_lane_member
  | Grant string
  | RecordKnownOutcome string string
  | RecordUnknownOutcome string string
  | ReconcileUnknown string string
  | CancelQueued string string
  | SupersedeQueued string string string

datatype target_settlement_lane_event =
    MemberEnqueued target_lane_member
  | MemberGranted string target_lane_permit
  | KnownOutcomeRecorded string string string
  | UnknownOutcomeRecorded string string
  | UnknownOutcomeReconciled string string string
  | QueuedMemberCancelled string string string
  | QueuedMemberSuperseded string string string string

section \<open>Deciding\<close>

definition lane_entry :: "target_settlement_lane_state \<Rightarrow> string \<Rightarrow> target_lane_entry outcome" where
  "lane_entry s r =
     (case find (\<lambda>e. entry_ref e = r) (ln_queue s) of
        None \<Rightarrow> reject ''target lane member is not queued''
      | Some e \<Rightarrow> Inr e)"

definition first_is :: "target_lane_entry list \<Rightarrow> target_lane_entry \<Rightarrow> bool" where
  "first_is q e = (case q of [] \<Rightarrow> False | f # _ \<Rightarrow> f = e)"

fun decide_target_lane ::
  "target_settlement_lane_state \<Rightarrow> target_settlement_lane_command \<Rightarrow> target_settlement_lane_event list outcome" where
  "decide_target_lane s (Enqueue m) =
     (if \<not> lane_member_valid m \<or>
         (case ln_target_id s of None \<Rightarrow> False | Some t \<Rightarrow> t \<noteq> lm_target_id m) \<or>
         list_ex (\<lambda>e. entry_ref e = member_ref m) (ln_queue s) \<or>
         list_ex (\<lambda>r. lr_member_ref r = member_ref m) (ln_resolved s)
      then reject ''enqueue: exact unique member for this target is required''
      else Inr [MemberEnqueued m])"
| "decide_target_lane s (Grant r) =
     (case ln_queue s of
        [] \<Rightarrow> reject ''grant: target lane is empty''
      | first # _ \<Rightarrow>
          if entry_ref first \<noteq> r \<or> le_phase first \<noteq> LQueued
          then reject ''grant: an earlier or unresolved target member blocks''
          else case checked_add (ln_last_sequence s) 1 of
                 None \<Rightarrow> reject ''grant: target lane sequence overflowed''
               | Some n \<Rightarrow>
                   let t = lm_target_id (le_member first) in
                   Inr [MemberGranted r
                     \<lparr>lp_lane_id = ''target-lane:'' @ t, lp_target_id = t,
                      lp_member_id = lm_member_id (le_member first),
                      lp_operation_id = lm_operation_id (le_member first), lp_sequence = n,
                      lp_authority_position = ''target-lane:'' @ t @ '':'' @ decimal (unat n)\<rparr>])"
| "decide_target_lane s (RecordKnownOutcome r receipt) =
     and_then (lane_entry s r) (\<lambda>e.
       if \<not> first_is (ln_queue s) e \<or> le_phase e \<noteq> LGranted \<or> \<not> valid_identity receipt
       then reject ''recordKnownOutcome: active granted member receipt required''
       else Inr [KnownOutcomeRecorded r (lm_operation_id (le_member e)) receipt])"
| "decide_target_lane s (RecordUnknownOutcome r evidence) =
     and_then (lane_entry s r) (\<lambda>e.
       if \<not> first_is (ln_queue s) e \<or> le_phase e \<noteq> LGranted \<or> \<not> valid_identity evidence
       then reject ''recordUnknownOutcome: active granted member required''
       else Inr [UnknownOutcomeRecorded r evidence])"
| "decide_target_lane s (ReconcileUnknown r receipt) =
     and_then (lane_entry s r) (\<lambda>e.
       if \<not> first_is (ln_queue s) e \<or> le_phase e \<noteq> LOutcomeUnknown \<or> \<not> valid_identity receipt
       then reject ''reconcileUnknown: authoritative receipt is required''
       else Inr [UnknownOutcomeReconciled r (lm_operation_id (le_member e)) receipt])"
| "decide_target_lane s (CancelQueued r cancellation) =
     and_then (lane_entry s r) (\<lambda>e.
       if le_phase e \<noteq> LQueued \<or> \<not> valid_identity cancellation
       then reject ''cancelQueued: cancellation may remove only an unstarted member''
       else Inr [QueuedMemberCancelled r (lm_operation_id (le_member e)) cancellation])"
| "decide_target_lane s (SupersedeQueued earlier later preflight) =
     and_then (lane_entry s earlier) (\<lambda>e.
       and_then (lane_entry s later) (\<lambda>l.
         if le_phase e \<noteq> LQueued \<or> earlier = later \<or> \<not> valid_identity preflight \<or>
            lm_target_id (le_member e) \<noteq> lm_target_id (le_member l)
         then reject ''supersedeQueued: later exact preflight may replace only an unstarted member''
         else Inr [QueuedMemberSuperseded earlier (lm_operation_id (le_member e)) later preflight]))"

section \<open>Evolving\<close>

text \<open>The first entry with a reference, updated in place or removed.\<close>

fun update_entry ::
  "string \<Rightarrow> (target_lane_entry \<Rightarrow> target_lane_entry) \<Rightarrow> target_lane_entry list \<Rightarrow> target_lane_entry list" where
  "update_entry r f [] = []"
| "update_entry r f (e # es) = (if entry_ref e = r then f e # es else e # update_entry r f es)"

fun remove_entry :: "string \<Rightarrow> target_lane_entry list \<Rightarrow> target_lane_entry list" where
  "remove_entry r [] = []"
| "remove_entry r (e # es) = (if entry_ref e = r then es else e # remove_entry r es)"

definition resolve_entry ::
  "target_lane_entry list \<Rightarrow> string \<Rightarrow> string \<Rightarrow> string \<Rightarrow> bool \<Rightarrow> target_settlement_lane_state \<Rightarrow>
   target_settlement_lane_state" where
  "resolve_entry q r op out over s =
     s\<lparr>ln_queue := q, ln_resolved := ln_resolved s @
       [\<lparr>lr_member_ref = r, lr_operation_id = op, lr_outcome_ref = out, lr_superseded = over\<rparr>]\<rparr>"

fun lane_event :: "target_settlement_lane_state \<Rightarrow> target_settlement_lane_event \<Rightarrow> target_settlement_lane_state" where
  "lane_event s (MemberEnqueued m) =
     s\<lparr>ln_target_id := (case ln_target_id s of None \<Rightarrow> Some (lm_target_id m) | t \<Rightarrow> t),
       ln_queue := ln_queue s @ [\<lparr>le_member = m, le_phase = LQueued, le_permit = None\<rparr>]\<rparr>"
| "lane_event s (MemberGranted r p) =
     s\<lparr>ln_queue := update_entry r (\<lambda>e. e\<lparr>le_phase := LGranted, le_permit := Some p\<rparr>) (ln_queue s),
       ln_last_sequence := lp_sequence p\<rparr>"
| "lane_event s (KnownOutcomeRecorded r op receipt) =
     resolve_entry (tl (ln_queue s)) r op receipt False s"
| "lane_event s (UnknownOutcomeReconciled r op receipt) =
     resolve_entry (tl (ln_queue s)) r op receipt False s"
| "lane_event s (UnknownOutcomeRecorded r _) =
     s\<lparr>ln_queue := update_entry r (\<lambda>e. e\<lparr>le_phase := LOutcomeUnknown\<rparr>) (ln_queue s)\<rparr>"
| "lane_event s (QueuedMemberCancelled r op cancellation) =
     resolve_entry (remove_entry r (ln_queue s)) r op cancellation True s"
| "lane_event s (QueuedMemberSuperseded r op later preflight) =
     resolve_entry (remove_entry r (ln_queue s)) r op
       (''superseded-by:'' @ later @ '':'' @ preflight) True s"

definition evolve_target_lane ::
  "target_settlement_lane_state \<Rightarrow> target_settlement_lane_event \<Rightarrow> target_settlement_lane_state" where
  "evolve_target_lane s e = lane_event (s\<lparr>ln_history_events := saturating_add (ln_history_events s) 1\<rparr>) e"

definition lane_lifecycle ::
  "target_settlement_lane_event serde \<Rightarrow> (target_settlement_lane_state \<Rightarrow> string option) \<Rightarrow>
   (string \<Rightarrow> target_settlement_lane_state option) \<Rightarrow>
   (target_settlement_lane_state, target_settlement_lane_command, target_settlement_lane_event) lifecycle" where
  "lane_lifecycle sd enc dec =
     \<lparr>lc_kind = ''target_settlement_lane'', lc_default = lane_default, lc_decide = decide_target_lane,
      lc_evolve = evolve_target_lane, lc_serde = sd,
      lc_snapshot_codec = Some (snapshot_codec_serde ''target_settlement_lane'' 1 enc dec)\<rparr>"

lemma lane_lifecycle_simps [simp]:
  "lc_default (lane_lifecycle sd enc dec) = lane_default"
  "lc_decide (lane_lifecycle sd enc dec) = decide_target_lane"
  "lc_evolve (lane_lifecycle sd enc dec) = evolve_target_lane"
  by (simp_all add: lane_lifecycle_def)

section \<open>The log of a lane\<close>

definition enqueued :: "target_settlement_lane_event list \<Rightarrow> string list" where
  "enqueued es = List.map_filter (\<lambda>e. case e of MemberEnqueued m \<Rightarrow> Some (member_ref m) | _ \<Rightarrow> None) es"

definition granted :: "target_settlement_lane_event list \<Rightarrow> string list" where
  "granted es = List.map_filter (\<lambda>e. case e of MemberGranted r _ \<Rightarrow> Some r | _ \<Rightarrow> None) es"

definition settled :: "target_settlement_lane_event list \<Rightarrow> string list" where
  "settled es = List.map_filter (\<lambda>e. case e of KnownOutcomeRecorded r _ _ \<Rightarrow> Some r
     | UnknownOutcomeReconciled r _ _ \<Rightarrow> Some r | _ \<Rightarrow> None) es"

lemma lane_log_simps [simp]:
  "enqueued [] = []" "granted [] = []" "settled [] = []"
  "enqueued (es @ [e]) = enqueued es @ (case e of MemberEnqueued m \<Rightarrow> [member_ref m] | _ \<Rightarrow> [])"
  "granted (es @ [e]) = granted es @ (case e of MemberGranted r _ \<Rightarrow> [r] | _ \<Rightarrow> [])"
  "settled (es @ [e]) = settled es @ (case e of KnownOutcomeRecorded r _ _ \<Rightarrow> [r]
     | UnknownOutcomeReconciled r _ _ \<Rightarrow> [r] | _ \<Rightarrow> [])"
  by (simp_all add: enqueued_def granted_def settled_def List.map_filter_def split: target_settlement_lane_event.splits)

text \<open>The member that holds the lane: the head of the queue, once granted.\<close>

fun holding :: "target_lane_entry list \<Rightarrow> string list" where
  "holding [] = []"
| "holding (e # _) = (if le_phase e = LQueued then [] else [entry_ref e])"

fun waiting :: "target_lane_entry list \<Rightarrow> string list" where
  "waiting [] = []"
| "waiting (e # es) = (if le_phase e = LQueued then [entry_ref e] else []) @ map entry_ref es"

definition lane_order :: "target_settlement_lane_event list \<Rightarrow> target_settlement_lane_state \<Rightarrow> bool" where
  "lane_order es s \<longleftrightarrow>
     list_all (\<lambda>e. le_phase e = LQueued) (tl (ln_queue s)) \<and>
     distinct (enqueued es) \<and> distinct (map entry_ref (ln_queue s)) \<and>
     set (enqueued es) = entry_ref ` set (ln_queue s) \<union> lr_member_ref ` set (ln_resolved s) \<and>
     granted es = settled es @ holding (ln_queue s) \<and>
     subseq (granted es @ waiting (ln_queue s)) (enqueued es)"

definition lane_numbers :: "target_settlement_lane_event list \<Rightarrow> target_settlement_lane_state \<Rightarrow> bool" where
  "lane_numbers es s \<longleftrightarrow>
     unat (ln_last_sequence s) = length (granted es) \<and>
     every_at (\<lambda>before e. case e of
         MemberGranted _ p \<Rightarrow> settled before = granted before \<and> unat (lp_sequence p) = Suc (length (granted before))
       | _ \<Rightarrow> True) es"

definition permit_for :: "target_settlement_lane_event list \<Rightarrow> string \<Rightarrow> target_lane_permit \<Rightarrow> bool" where
  "permit_for es r p \<longleftrightarrow> (\<exists>m. MemberEnqueued m \<in> set es \<and> member_ref m = r \<and>
     lp_target_id p = lm_target_id m \<and> lp_member_id p = lm_member_id m \<and>
     lp_operation_id p = lm_operation_id m \<and> valid_identity (lp_lane_id p) \<and>
     valid_identity (lp_authority_position p) \<and> 0 < lp_sequence p)"

definition lane_members :: "target_settlement_lane_event list \<Rightarrow> target_settlement_lane_state \<Rightarrow> bool" where
  "lane_members es s \<longleftrightarrow>
     (\<forall>e \<in> set (ln_queue s). MemberEnqueued (le_member e) \<in> set es \<and> lane_member_valid (le_member e)) \<and>
     (\<forall>r p. MemberGranted r p \<in> set es \<longrightarrow> permit_for es r p)"

definition lane_inv :: "target_settlement_lane_event list \<Rightarrow> target_settlement_lane_state \<Rightarrow> bool" where
  "lane_inv es s \<longleftrightarrow> lane_order es s \<and> lane_numbers es s \<and> lane_members es s"

lemma permit_for_append: "permit_for es r p \<Longrightarrow> permit_for (es @ fs) r p"
  by (auto simp: permit_for_def)

text \<open>An event that grants nothing keeps the numbers, and the members if it only drops entries.\<close>

lemma lane_numbers_keep:
  assumes "lane_numbers es s" and "\<And>r p. e \<noteq> MemberGranted r p" and "ln_last_sequence t = ln_last_sequence s"
  shows "lane_numbers (es @ [e]) t"
  using assms by (cases e) (auto simp: lane_numbers_def)

lemma lane_members_keep:
  assumes "lane_members es s" and "\<And>r p. e \<noteq> MemberGranted r p"
    and "le_member ` set (ln_queue t) \<subseteq> le_member ` set (ln_queue s)"
  shows "lane_members (es @ [e]) t"
proof -
  have "MemberEnqueued (le_member x) \<in> set (es @ [e]) \<and> lane_member_valid (le_member x)" if "x \<in> set (ln_queue t)" for x
    using assms(1,3) that by (force simp: lane_members_def image_subset_iff)
  moreover have "permit_for (es @ [e]) r p" if "MemberGranted r p \<in> set (es @ [e])" for r p
    using assms(1,2) that by (auto simp: lane_members_def intro: permit_for_append)
  ultimately show ?thesis unfolding lane_members_def by blast
qed

lemma lane_entry_Inr: "lane_entry s r = Inr e \<Longrightarrow> e \<in> set (ln_queue s) \<and> entry_ref e = r"
  by (auto simp: lane_entry_def find_Some_iff split: option.splits)

lemma first_is_iff: "first_is q e \<longleftrightarrow> (\<exists>es. q = e # es)"
  by (auto simp: first_is_def split: list.splits)

lemma remove_entry_split:
  assumes "e \<in> set q" "entry_ref e = r" "distinct (map entry_ref q)"
  obtains xs ys where "q = xs @ e # ys" "remove_entry r q = xs @ ys"
proof -
  have "\<exists>xs ys. q = xs @ e # ys \<and> remove_entry r q = xs @ ys"
    using assms
  proof (induction q)
    case (Cons f q)
    show ?case
    proof (cases "entry_ref f = r")
      case True
      with Cons.prems have "f = e" by (auto simp: rev_image_eqI)
      with True show ?thesis by (intro exI [of _ "[]"] exI [of _ q]) simp
    next
      case False
      with Cons obtain xs ys where "q = xs @ e # ys" "remove_entry r q = xs @ ys" by auto
      with False show ?thesis by (intro exI [of _ "f # xs"] exI [of _ ys]) simp
    qed
  qed simp
  with that show ?thesis by blast
qed

lemma remove_entry_props:
  assumes "e \<in> set q" "entry_ref e = r" "distinct (map entry_ref q)" "le_phase e = LQueued"
    and "list_all (\<lambda>e. le_phase e = LQueued) (tl q)"
  shows "holding (remove_entry r q) = holding q" "subseq (waiting (remove_entry r q)) (waiting q)"
    "list_all (\<lambda>e. le_phase e = LQueued) (tl (remove_entry r q))"
    "distinct (map entry_ref (remove_entry r q))" "set (remove_entry r q) \<subseteq> set q"
    "insert r (entry_ref ` set (remove_entry r q)) = entry_ref ` set q"
proof -
  obtain xs ys where q: "q = xs @ e # ys" "remove_entry r q = xs @ ys"
    using assms(1-3) by (rule remove_entry_split)
  have wait: "waiting zs = map entry_ref zs" "holding zs = []" if "list_all (\<lambda>e. le_phase e = LQueued) zs" for zs
    using that by (cases zs; simp)+
  have tl: "list_all (\<lambda>e. le_phase e = LQueued) (tl (xs @ e # ys))" using assms(5) q(1) by simp
  have "holding (xs @ ys) = holding (xs @ e # ys) \<and> list_all (\<lambda>e. le_phase e = LQueued) (tl (xs @ ys))"
    using assms(4) tl wait(2) [of ys] by (cases xs; cases ys) simp_all
  then show "holding (remove_entry r q) = holding q" "list_all (\<lambda>e. le_phase e = LQueued) (tl (remove_entry r q))"
    unfolding q(2) unfolding q(1) by blast+
  have "subseq (waiting (xs @ ys)) (waiting (xs @ e # ys))"
  proof (cases xs)
    case Nil
    with assms(4) tl wait(1) [of ys] show ?thesis by (simp add: list_emb_Cons)
  next
    case (Cons x zs)
    have "subseq (map entry_ref (zs @ ys)) (map entry_ref (zs @ e # ys))"
      by (auto intro: list_emb_append_mono)
    then show ?thesis unfolding Cons by (auto intro: list_emb_append_mono)
  qed
  then show "subseq (waiting (remove_entry r q)) (waiting q)" unfolding q(2) unfolding q(1) .
  have "distinct (map entry_ref (xs @ e # ys))" using assms(3) q(1) by simp
  then show "distinct (map entry_ref (remove_entry r q))" "set (remove_entry r q) \<subseteq> set q"
    "insert r (entry_ref ` set (remove_entry r q)) = entry_ref ` set q"
    using assms(2) unfolding q(2) unfolding q(1) by auto
qed

section \<open>Every command keeps the lane in order\<close>

lemma has_control_ascii:
  "\<not> has_control xs \<Longrightarrow> \<forall>c \<in> set xs. (of_char c :: nat) < 128 \<Longrightarrow> has_control (xs @ ys) = has_control ys"
  by (induction xs) auto

lemma has_control_append:
  assumes "\<not> has_control xs" "\<not> has_control ys" "\<forall>c \<in> set ys. (of_char c :: nat) < 128"
  shows "\<not> has_control (xs @ ys)"
  using assms(1)
proof (induction xs)
  case Nil
  with assms(2) show ?case by simp
next
  case (Cons c cs)
  with assms(3) show ?case by (cases "cs @ ys"; cases cs) auto
qed

lemma decimal_ascii: "c \<in> set (decimal n) \<Longrightarrow> 48 \<le> (of_char c :: nat) \<and> (of_char c :: nat) < 58"
proof (induction n rule: decimal.induct)
  case (1 n)
  have "(of_char (char_of (48 + k) :: char) :: nat) = 48 + k" if "k < 10" for k :: nat
    using that by simp
  with 1 show ?case by (cases "n < 10") (auto simp: decimal.simps [of n])
qed

lemma has_control_decimal: "\<not> has_control (decimal n)"
proof -
  have "\<not> has_control xs" if "\<forall>c \<in> set xs. 48 \<le> (of_char c :: nat) \<and> (of_char c :: nat) < 58" for xs
    using that by (induction xs) fastforce+
  with decimal_ascii show ?thesis by blast
qed

lemma lane_names_valid:
  assumes "\<not> has_control t"
  shows "valid_identity (''target-lane:'' @ t)" "valid_identity (''target-lane:'' @ t @ '':'' @ decimal n)"
proof -
  have lane: "has_control (''target-lane:'' @ u) = has_control u" "\<not> blank (''target-lane:'' @ u)" for u
    using has_control_ascii [of "''target-lane:''" u] by (simp_all add: not_blank_Cons)
  have "\<not> has_control (t @ '':'' @ decimal n)"
    using assms decimal_ascii has_control_decimal [of n]
    by (intro has_control_append) (auto dest: decimal_ascii)
  with assms lane show "valid_identity (''target-lane:'' @ t)"
    "valid_identity (''target-lane:'' @ t @ '':'' @ decimal n)"
    unfolding valid_identity_def by blast+
qed

lemma holding_snoc [simp]: "holding (q @ [e]) = (if q = [] then holding [e] else holding q)"
  by (cases q) auto

lemma waiting_snoc: "le_phase e = LQueued \<Longrightarrow> waiting (q @ [e]) = waiting q @ [entry_ref e]"
  by (cases q) auto

lemma queued_simps:
  assumes "list_all (\<lambda>e. le_phase e = LQueued) q"
  shows "holding q = []" "waiting q = map entry_ref q" "list_all (\<lambda>e. le_phase e = LQueued) (tl q)"
  using assms by (cases q; simp)+

lemma lane_enqueue_inv:
  assumes inv: "lane_inv es s" and ok: "decide_target_lane s (Enqueue m) = Inr fs"
  shows "lane_inv (es @ fs) (foldl evolve_target_lane s fs)"
proof -
  from ok have fs: "fs = [MemberEnqueued m]" and m: "lane_member_valid m"
    and fresh: "member_ref m \<notin> entry_ref ` set (ln_queue s)" "member_ref m \<notin> lr_member_ref ` set (ln_resolved s)"
    by (auto simp: list_ex_iff image_iff split: if_splits)
  let ?t = "evolve_target_lane s (MemberEnqueued m)"
  let ?e = "\<lparr>le_member = m, le_phase = LQueued, le_permit = None\<rparr>"
  have t: "ln_queue ?t = ln_queue s @ [?e]" "ln_resolved ?t = ln_resolved s" "ln_last_sequence ?t = ln_last_sequence s"
    by (simp_all add: evolve_target_lane_def)
  have "subseq ((granted es @ waiting (ln_queue s)) @ [member_ref m]) (enqueued es @ [member_ref m])"
    using inv by (intro list_emb_append_mono) (auto simp: lane_inv_def lane_order_def)
  moreover have "list_all (\<lambda>e. le_phase e = LQueued) (tl (ln_queue s @ [?e]))"
    using inv by (cases "ln_queue s") (auto simp: lane_inv_def lane_order_def)
  ultimately have "lane_order (es @ fs) ?t"
    using inv fresh unfolding fs lane_order_def t by (auto simp: lane_inv_def lane_order_def waiting_snoc)
  moreover have "lane_members (es @ fs) ?t"
    using inv m unfolding fs lane_members_def t
    by (auto simp: lane_inv_def lane_members_def intro: permit_for_append)
  moreover have "lane_numbers (es @ fs) ?t"
    using inv t(3) unfolding fs by (auto simp: lane_inv_def intro: lane_numbers_keep)
  ultimately show ?thesis unfolding fs by (simp add: lane_inv_def)
qed

lemma lane_grant_inv:
  assumes inv: "lane_inv es s" and ok: "decide_target_lane s (Grant r) = Inr fs"
  shows "lane_inv (es @ fs) (foldl evolve_target_lane s fs)"
proof -
  from ok obtain e q n where q: "ln_queue s = e # q" and e: "entry_ref e = r" "le_phase e = LQueued"
    and n: "checked_add (ln_last_sequence s) 1 = Some n"
    by (auto split: list.splits if_splits option.splits)
  let ?t = "lm_target_id (le_member e)"
  define p where "p = \<lparr>lp_lane_id = ''target-lane:'' @ ?t, lp_target_id = ?t, lp_member_id = lm_member_id (le_member e),
     lp_operation_id = lm_operation_id (le_member e), lp_sequence = n,
     lp_authority_position = ''target-lane:'' @ ?t @ '':'' @ decimal (unat n)\<rparr>"
  from ok q e n have fs: "fs = [MemberGranted r p]" by (simp add: Let_def p_def)
  let ?u = "evolve_target_lane s (MemberGranted r p)"
  have u: "ln_queue ?u = e\<lparr>le_phase := LGranted, le_permit := Some p\<rparr> # q" "ln_resolved ?u = ln_resolved s"
    "ln_last_sequence ?u = n"
    using q e by (simp_all add: evolve_target_lane_def p_def)
  from inv q have valid: "MemberEnqueued (le_member e) \<in> set es" "lane_member_valid (le_member e)"
    by (simp_all add: lane_inv_def lane_members_def)
  have seq: "unat n = Suc (unat (ln_last_sequence s))" using checked_add_Some [OF n] by simp
  then have pos: "0 < n" by (metis unat_0 word_neq_0_conv Zero_not_Suc)
  have "permit_for es r p"
    unfolding permit_for_def using valid e pos lane_names_valid [of ?t]
    by (intro exI [of _ "le_member e"]) (simp add: p_def lane_member_valid_def valid_identity_def)
  with inv q have "lane_members (es @ fs) ?u"
    unfolding lane_members_def u fs by (auto simp: lane_inv_def lane_members_def intro: permit_for_append)
  moreover have "lane_order (es @ fs) ?u"
    using inv q e unfolding lane_order_def u fs by (auto simp: lane_inv_def lane_order_def)
  moreover have "lane_numbers (es @ fs) ?u"
    using inv seq q e unfolding lane_numbers_def u fs
    by (auto simp: lane_inv_def lane_numbers_def lane_order_def p_def)
  ultimately show ?thesis unfolding fs by (simp add: lane_inv_def)
qed

text \<open>The head settles: it is the holder, and the lane is free.\<close>

lemma lane_settle_inv:
  assumes inv: "lane_inv es s" and q: "ln_queue s = e # q" and e: "entry_ref e = r" "le_phase e \<noteq> LQueued"
    and f: "f = KnownOutcomeRecorded r op out \<or> f = UnknownOutcomeReconciled r op out"
  shows "lane_inv (es @ [f]) (evolve_target_lane s f)"
proof -
  let ?t = "evolve_target_lane s f"
  have t: "ln_queue ?t = q" "lr_member_ref ` set (ln_resolved ?t) = insert r (lr_member_ref ` set (ln_resolved s))"
    "ln_last_sequence ?t = ln_last_sequence s"
    using f q by (auto simp: evolve_target_lane_def resolve_entry_def)
  have "list_all (\<lambda>e. le_phase e = LQueued) q" using inv q by (simp add: lane_inv_def lane_order_def)
  note free = queued_simps [OF this] this
  have "lane_order (es @ [f]) ?t"
    using inv q e f free unfolding lane_order_def t by (auto simp: lane_inv_def lane_order_def)
  moreover have "lane_members (es @ [f]) ?t" "lane_numbers (es @ [f]) ?t"
    using inv f t q by (auto simp: lane_inv_def intro!: lane_members_keep lane_numbers_keep)
  ultimately show ?thesis by (simp add: lane_inv_def)
qed

lemma lane_drop_inv:
  assumes inv: "lane_inv es s" and e: "e \<in> set (ln_queue s)" "entry_ref e = r" "le_phase e = LQueued"
    and f: "f = QueuedMemberCancelled r op out \<or> f = QueuedMemberSuperseded r op later out"
  shows "lane_inv (es @ [f]) (evolve_target_lane s f)"
proof -
  let ?t = "evolve_target_lane s f"
  have t: "ln_queue ?t = remove_entry r (ln_queue s)"
    "lr_member_ref ` set (ln_resolved ?t) = insert r (lr_member_ref ` set (ln_resolved s))"
    "ln_last_sequence ?t = ln_last_sequence s"
    using f by (auto simp: evolve_target_lane_def resolve_entry_def)
  from inv have order: "lane_order es s" by (simp add: lane_inv_def)
  then have props: "distinct (map entry_ref (ln_queue s))" "list_all (\<lambda>e. le_phase e = LQueued) (tl (ln_queue s))"
    by (simp_all add: lane_order_def)
  note drop = remove_entry_props [OF e(1,2) props(1) e(3) props(2)]
  have logs: "granted (es @ [f]) = granted es" "enqueued (es @ [f]) = enqueued es" "settled (es @ [f]) = settled es"
    using f by auto
  have "subseq (granted es @ waiting (ln_queue ?t)) (enqueued es)"
    using order drop(2) unfolding t lane_order_def
    by (meson list_emb_append_mono subseq_order.order_trans subseq_order.order_refl)
  moreover have "entry_ref ` set (ln_queue ?t) \<union> lr_member_ref ` set (ln_resolved ?t) = set (enqueued es)"
    using order drop(6) unfolding t lane_order_def by auto
  ultimately have "lane_order (es @ [f]) ?t"
    using order drop(1,3,4) t(1) unfolding lane_order_def logs by simp
  moreover have "lane_members (es @ [f]) ?t" "lane_numbers (es @ [f]) ?t"
    using inv f t drop(5) by (auto simp: lane_inv_def intro!: lane_members_keep lane_numbers_keep)
  ultimately show ?thesis by (simp add: lane_inv_def)
qed

lemma lane_unknown_inv:
  assumes inv: "lane_inv es s" and q: "ln_queue s = e # q" and e: "entry_ref e = r" "le_phase e = LGranted"
  shows "lane_inv (es @ [UnknownOutcomeRecorded r ev]) (evolve_target_lane s (UnknownOutcomeRecorded r ev))"
proof -
  let ?t = "evolve_target_lane s (UnknownOutcomeRecorded r ev)"
  have t: "ln_queue ?t = e\<lparr>le_phase := LOutcomeUnknown\<rparr> # q" "ln_resolved ?t = ln_resolved s"
    "ln_last_sequence ?t = ln_last_sequence s"
    using q e by (auto simp: evolve_target_lane_def)
  have "lane_order (es @ [UnknownOutcomeRecorded r ev]) ?t"
    using inv q e unfolding lane_order_def t by (auto simp: lane_inv_def lane_order_def)
  moreover have "lane_members (es @ [UnknownOutcomeRecorded r ev]) ?t" "lane_numbers (es @ [UnknownOutcomeRecorded r ev]) ?t"
    using inv t q by (auto simp: lane_inv_def intro!: lane_members_keep lane_numbers_keep)
  ultimately show ?thesis by (simp add: lane_inv_def)
qed

lemma lane_decide_inv:
  assumes inv: "lane_inv es s" and ok: "decide_target_lane s c = Inr fs"
  shows "lane_inv (es @ fs) (foldl evolve_target_lane s fs)"
proof (cases c)
  case (Enqueue m)
  with inv ok show ?thesis using lane_enqueue_inv by blast
next
  case (Grant r)
  with inv ok show ?thesis using lane_grant_inv by blast
next
  case (RecordKnownOutcome r receipt)
  with ok obtain e q where "ln_queue s = e # q" "entry_ref e = r" "le_phase e \<noteq> LQueued"
    and "fs = [KnownOutcomeRecorded r (lm_operation_id (le_member e)) receipt]"
    by (auto simp: and_then_Inr first_is_iff dest!: lane_entry_Inr split: if_splits)
  with lane_settle_inv [OF inv] show ?thesis by simp
next
  case (ReconcileUnknown r receipt)
  with ok obtain e q where "ln_queue s = e # q" "entry_ref e = r" "le_phase e \<noteq> LQueued"
    and "fs = [UnknownOutcomeReconciled r (lm_operation_id (le_member e)) receipt]"
    by (auto simp: and_then_Inr first_is_iff dest!: lane_entry_Inr split: if_splits)
  with lane_settle_inv [OF inv] show ?thesis by simp
next
  case (RecordUnknownOutcome r ev)
  with ok obtain e q where "ln_queue s = e # q" "entry_ref e = r" "le_phase e = LGranted"
    and "fs = [UnknownOutcomeRecorded r ev]"
    by (auto simp: and_then_Inr first_is_iff dest!: lane_entry_Inr split: if_splits)
  with lane_unknown_inv [OF inv] show ?thesis by simp
next
  case (CancelQueued r out)
  with ok obtain e where "e \<in> set (ln_queue s)" "entry_ref e = r" "le_phase e = LQueued"
    and "fs = [QueuedMemberCancelled r (lm_operation_id (le_member e)) out]"
    by (auto simp: and_then_Inr dest!: lane_entry_Inr split: if_splits)
  with lane_drop_inv [OF inv] show ?thesis by simp
next
  case (SupersedeQueued r later out)
  with ok obtain e where "e \<in> set (ln_queue s)" "entry_ref e = r" "le_phase e = LQueued"
    and "fs = [QueuedMemberSuperseded r (lm_operation_id (le_member e)) later out]"
    by (auto simp: and_then_Inr dest!: lane_entry_Inr split: if_splits)
  with lane_drop_inv [OF inv] show ?thesis by simp
qed

interpretation lane_trace: lifecycle_trace "lane_lifecycle sd enc dec" lane_inv
proof unfold_locales
  show "lane_inv [] (lc_default (lane_lifecycle sd enc dec))"
    by (simp add: lane_inv_def lane_order_def lane_numbers_def lane_members_def lane_default_def)
next
  fix es s c fs
  assume "lane_inv es s" and "lc_decide (lane_lifecycle sd enc dec) s c = Inr fs"
  then show "lane_inv (es @ fs) (lc_fold (lane_lifecycle sd enc dec) s fs)"
    by (simp add: lc_fold_def lane_decide_inv)
qed

section \<open>A lane of two members\<close>

definition sample_lane_member :: "string \<Rightarrow> target_lane_member" where
  "sample_lane_member i = \<lparr>lm_settlement_scope = ''s'', lm_declaration_id = ''d'', lm_member_id = i,
     lm_target_id = ''t'', lm_operation_id = ''op:'' @ i, lm_expected_basis = ''b'',
     lm_expected_result_digest = ''r'', lm_attempt = 1\<rparr>"

definition sample_lane_serde :: "target_settlement_lane_event serde" where
  "sample_lane_serde = \<lparr>to_json = (\<lambda>_. []), from_json = (\<lambda>_. None)\<rparr>"

abbreviation sample_lane ::
  "(target_settlement_lane_state, target_settlement_lane_command, target_settlement_lane_event) lifecycle" where
  "sample_lane \<equiv> lane_lifecycle sample_lane_serde (\<lambda>_. None) (\<lambda>_. None)"

definition sample_lane_commands :: "target_settlement_lane_command list" where
  "sample_lane_commands = [Enqueue (sample_lane_member ''a''), Enqueue (sample_lane_member ''b''),
     Grant ''s#b#attempt:1'', Grant ''s#a#attempt:1'', Grant ''s#b#attempt:1'',
     RecordKnownOutcome ''s#a#attempt:1'' ''receipt'', Grant ''s#b#attempt:1'']"

definition sample_lane_permit :: "string \<Rightarrow> u64 \<Rightarrow> target_lane_permit" where
  "sample_lane_permit i n = \<lparr>lp_lane_id = ''target-lane:t'', lp_target_id = ''t'', lp_member_id = i,
     lp_operation_id = ''op:'' @ i, lp_sequence = n, lp_authority_position = ''target-lane:t:'' @ decimal (unat n)\<rparr>"

lemma sample_lane_log:
  "lc_log sample_lane lane_default sample_lane_commands =
     [MemberEnqueued (sample_lane_member ''a''), MemberEnqueued (sample_lane_member ''b''),
      MemberGranted ''s#a#attempt:1'' (sample_lane_permit ''a'' 1),
      KnownOutcomeRecorded ''s#a#attempt:1'' ''op:a'' ''receipt''] @
      MemberGranted ''s#b#attempt:1'' (sample_lane_permit ''b'' 2) # []"
  by code_simp

section \<open>Properties\<close>

lemma enqueued_once:
  assumes "distinct (enqueued es)" "MemberEnqueued l \<in> set es" "MemberEnqueued m \<in> set es" "member_ref l = member_ref m"
  shows "l = m"
  using assms
proof (induction es rule: rev_induct)
  case (snoc e es)
  have mem: "member_ref k \<in> set (enqueued es)" if "MemberEnqueued k \<in> set es" for k
    using that by (force simp: enqueued_def List.map_filter_def image_iff)
  from snoc show ?case by (auto dest: mem)
qed simp

lemma granted_append: "granted (es @ fs) = granted es @ granted fs"
  by (simp add: granted_def List.map_filter_def)

text \<open>
  C15. A target's lane is a first-in first-out mutex. In the log of any command sequence the members are
  granted in the order in which they were enqueued, each enqueued at most once, and a grant is issued
  only when every earlier grant has its outcome recorded; the n-th grant carries the sequence number n.
\<close>

theorem lane_fifo_exclusive:
  assumes "lc_log (lane_lifecycle sd enc dec) lane_default cs = es"
  shows "subseq (granted es) (enqueued es) \<and> distinct (enqueued es) \<and>
    (\<forall>before r p after. es = before @ MemberGranted r p # after \<longrightarrow>
       settled before = granted before \<and> unat (lp_sequence p) = length (granted before) + 1)"
proof -
  have inv: "lane_inv es (lc_drive (lane_lifecycle sd enc dec) lane_default cs)"
    using lane_trace.log_tinv [of sd enc dec cs] assms by simp
  then have "\<exists>w. subseq (granted es @ w) (enqueued es)" unfolding lane_inv_def lane_order_def by blast
  then have "subseq (granted es) (enqueued es)" using subseq_order.order_trans by blast
  moreover have "distinct (enqueued es)" using inv by (simp add: lane_inv_def lane_order_def)
  moreover have "settled before = granted before \<and> unat (lp_sequence p) = length (granted before) + 1"
    if "es = before @ MemberGranted r p # after" for before r p after
    using inv every_atD [OF _ that] by (fastforce simp: lane_inv_def lane_numbers_def)
  ultimately show ?thesis by blast
qed

theorem lane_fifo_exclusive_witness:
  "\<exists>before. lc_log sample_lane lane_default sample_lane_commands =
       before @ [MemberGranted ''s#b#attempt:1'' (sample_lane_permit ''b'' 2)] \<and>
     settled before = [''s#a#attempt:1''] \<and> granted before = [''s#a#attempt:1''] \<and>
     unat (lp_sequence (sample_lane_permit ''b'' 2)) = length (granted before) + 1"
proof -
  let ?before = "[MemberEnqueued (sample_lane_member ''a''), MemberEnqueued (sample_lane_member ''b''),
      MemberGranted ''s#a#attempt:1'' (sample_lane_permit ''a'' 1),
      KnownOutcomeRecorded ''s#a#attempt:1'' ''op:a'' ''receipt'']"
  have "settled ?before = granted ?before" "unat (lp_sequence (sample_lane_permit ''b'' 2)) = length (granted ?before) + 1"
    using lane_fifo_exclusive [OF sample_lane_log] by blast+
  moreover have "granted ?before = [''s#a#attempt:1'']" by code_simp
  ultimately show ?thesis using sample_lane_log by auto
qed

text \<open>
  C16. The permits of a lane open the gates of the coordinator. The permit granted to a member that was
  enqueued for a declared settlement member is exact for that declaration, so starting under it is never
  refused for the permit; and every later permit of the lane has a higher sequence number, as a retry
  demands.
\<close>

theorem lane_permits_exact:
  assumes log: "lc_log (lane_lifecycle sd enc dec) lane_default cs = xs @ MemberGranted (member_ref l) p # ys"
    and l: "MemberEnqueued l \<in> set (xs @ ys)"
      "lm_target_id l = md_target_id m" "lm_member_id l = md_member_id m" "lm_operation_id l = md_operation_id m"
  shows "permit_exact_for p m \<and> (\<forall>r q. MemberGranted r q \<in> set ys \<longrightarrow> lp_sequence p < lp_sequence q)"
proof -
  let ?es = "xs @ MemberGranted (member_ref l) p # ys"
  have inv: "lane_inv ?es (lc_drive (lane_lifecycle sd enc dec) lane_default cs)"
    using lane_trace.log_tinv [of sd enc dec cs] log by simp
  then have "permit_for ?es (member_ref l) p" by (simp add: lane_inv_def lane_members_def)
  then obtain k where k: "MemberEnqueued k \<in> set ?es" "member_ref k = member_ref l"
    "lp_target_id p = lm_target_id k" "lp_member_id p = lm_member_id k" "lp_operation_id p = lm_operation_id k"
    "valid_identity (lp_lane_id p)" "valid_identity (lp_authority_position p)" "0 < lp_sequence p"
    unfolding permit_for_def by blast
  from inv have distinct: "distinct (enqueued ?es)" by (simp add: lane_inv_def lane_order_def)
  have "k = l" using l(1) by (intro enqueued_once [OF distinct k(1) _ k(2)]) auto
  with k l have "permit_exact_for p m" by (simp add: permit_exact_for_def)
  moreover have "lp_sequence p < lp_sequence q" if "MemberGranted r q \<in> set ys" for r q
  proof -
    from that obtain us vs where ys: "ys = us @ MemberGranted r q # vs" by (auto simp: in_set_conv_decomp)
    have every: "every_at (\<lambda>before e. case e of
        MemberGranted _ p \<Rightarrow> settled before = granted before \<and> unat (lp_sequence p) = Suc (length (granted before))
      | _ \<Rightarrow> True) ?es" using inv by (simp add: lane_inv_def lane_numbers_def)
    have "unat (lp_sequence p) = Suc (length (granted xs))"
      using every_atD [OF every, of xs "MemberGranted (member_ref l) p" ys] by simp
    moreover have "unat (lp_sequence q) = Suc (length (granted (xs @ MemberGranted (member_ref l) p # us)))"
      using every_atD [OF every, of "xs @ MemberGranted (member_ref l) p # us" "MemberGranted r q" vs] by (simp add: ys)
    moreover have "granted (xs @ MemberGranted (member_ref l) p # us) = granted xs @ member_ref l # granted us"
      by (simp add: granted_def List.map_filter_def)
    ultimately show ?thesis by (simp add: word_less_nat_alt)
  qed
  ultimately show ?thesis by blast
qed

theorem lane_permits_exact_witness:
  "permit_exact_for (sample_lane_permit ''a'' 1)
     \<lparr>md_member_id = ''a'', md_target_id = ''t'', md_operation_id = ''op:a'', md_expected_basis = ''b'',
      md_candidate_digest = ''c'', md_expected_result_digest = ''r'', md_policy_decision_handle = ''pol'',
      md_adapter = ''git'', md_act = Publish, md_retry_safe_after_failure = True, md_authoritative_query = True\<rparr> \<and>
   lp_sequence (sample_lane_permit ''a'' 1) < lp_sequence (sample_lane_permit ''b'' 2)"
proof -
  have ref: "member_ref (sample_lane_member ''a'') = ''s#a#attempt:1''" by code_simp
  have log: "lc_log sample_lane lane_default sample_lane_commands =
      [MemberEnqueued (sample_lane_member ''a''), MemberEnqueued (sample_lane_member ''b'')] @
      MemberGranted (member_ref (sample_lane_member ''a'')) (sample_lane_permit ''a'' 1) #
      [KnownOutcomeRecorded ''s#a#attempt:1'' ''op:a'' ''receipt'',
       MemberGranted ''s#b#attempt:1'' (sample_lane_permit ''b'' 2)]"
    unfolding ref sample_lane_log by simp
  show ?thesis
    using lane_permits_exact [OF log, of "\<lparr>md_member_id = ''a'', md_target_id = ''t'', md_operation_id = ''op:a'',
      md_expected_basis = ''b'', md_candidate_digest = ''c'', md_expected_result_digest = ''r'',
      md_policy_decision_handle = ''pol'', md_adapter = ''git'', md_act = Publish,
      md_retry_safe_after_failure = True, md_authoritative_query = True\<rparr>"]
    by (auto simp: sample_lane_member_def)
qed

end
