(* ===== verification/Calendar.thy ===== *)
theory Calendar
  imports Prelude
begin

text \<open>
  The accounting month of a timestamp, \<open>Month::at\<close> of \<open>crates/core/src/model_connection/spend.rs\<close>: whole
  Gregorian cycles by division, then years and months by subtraction. The loops are the source's, on
  64-bit words; the reference is the count of days before a month of the Gregorian calendar.
\<close>

section \<open>The code\<close>

datatype month = Month (month_year: u64) (month_month: u8)

definition leap :: "u64 \<Rightarrow> bool" where
  "leap year \<longleftrightarrow> year mod 4 = 0 \<and> (year mod 100 \<noteq> 0 \<or> year mod 400 = 0)"

definition year_length :: "u64 \<Rightarrow> u64" where
  "year_length year = (if leap year then 366 else 365)"

lemma unat_year_length: "unat (year_length y) = (if leap y then 366 else 365)"
  by (simp add: year_length_def)

function year_loop :: "u64 \<Rightarrow> u64 \<Rightarrow> u64 \<times> u64" where
  "year_loop year remaining =
     (if remaining < year_length year then (year, remaining)
      else year_loop (year + 1) (remaining - year_length year))"
  by auto

termination
proof (relation "measure (\<lambda>(y, r). unat r)")
  fix year remaining :: u64
  assume "\<not> remaining < year_length year"
  then have "unat (remaining - year_length year) = unat remaining - unat (year_length year)"
    "unat (year_length year) \<le> unat remaining"
    by (simp_all add: unat_sub word_le_nat_alt not_less)
  moreover have "0 < unat (year_length year)" by (simp add: unat_year_length)
  ultimately show "((year + 1, remaining - year_length year), (year, remaining)) \<in> measure (\<lambda>(y, r). unat r)"
    by simp
qed simp

declare year_loop.simps [simp del]

definition month_lengths :: "u64 \<Rightarrow> u64 list" where
  "month_lengths year = [31, if leap year then 29 else 28, 31, 30, 31, 30, 31, 31, 30, 31, 30, 31]"

text \<open>\<open>None\<close> is the \<open>unreachable!\<close> after the last month.\<close>

fun month_loop :: "u64 list \<Rightarrow> nat \<Rightarrow> u64 \<Rightarrow> u8 option" where
  "month_loop [] index remaining = None"
| "month_loop (len # lengths) index remaining =
     (if remaining < len then Some (word_of_nat index + 1)
      else month_loop lengths (Suc index) (remaining - len))"

definition month_at :: "u64 \<Rightarrow> month option" where
  "month_at seconds =
     (let days = seconds div 86400;
          (year, remaining) = year_loop (1970 + (days div 146097) * 400) (days mod 146097)
      in map_option (Month year) (month_loop (month_lengths year) 0 remaining))"

section \<open>The Gregorian calendar\<close>

definition leap_year :: "nat \<Rightarrow> bool" where
  "leap_year y \<longleftrightarrow> 4 dvd y \<and> (\<not> 100 dvd y \<or> 400 dvd y)"

definition year_days :: "nat \<Rightarrow> nat" where
  "year_days y = (if leap_year y then 366 else 365)"

definition month_days :: "nat \<Rightarrow> nat \<Rightarrow> nat" where
  "month_days y m = (if m = 2 then if leap_year y then 29 else 28 else if m \<in> {4, 6, 9, 11} then 30 else 31)"

definition days_before_year :: "nat \<Rightarrow> nat" where
  "days_before_year y = (\<Sum>k \<leftarrow> [1970..<y]. year_days k)"

definition days_before_month :: "nat \<Rightarrow> nat \<Rightarrow> nat" where
  "days_before_month y m = days_before_year y + (\<Sum>k \<leftarrow> [1..<m]. month_days y k)"

lemma days_before_year_Suc: "1970 \<le> y \<Longrightarrow> days_before_year (Suc y) = days_before_year y + year_days y"
  by (simp add: days_before_year_def)

text \<open>A cycle of 400 years has 146097 days, wherever it starts.\<close>

definition multiples_below :: "nat \<Rightarrow> nat \<Rightarrow> nat" where
  "multiples_below d y = (y + (d - 1)) div d"

lemma multiples_below_Suc:
  "0 < d \<Longrightarrow> multiples_below d (Suc y) = multiples_below d y + (if d dvd y then 1 else 0)"
proof -
  assume "0 < d"
  then have "Suc y + (d - 1) = y + d" and "Suc (y + (d - 1)) = y + d" by simp_all
  then show ?thesis
    using div_Suc [of "y + (d - 1)" d] by (simp add: multiples_below_def dvd_eq_mod_eq_0)
qed

lemma multiples_below_cycle: "d dvd 400 \<Longrightarrow> multiples_below d (y + 400 * k) = multiples_below d y + 400 div d * k"
proof -
  assume "d dvd 400"
  then obtain c where c: "400 = d * c" by (rule dvdE)
  then have "0 < d" by (cases d) auto
  have "y + 400 * k + (d - 1) = (y + (d - 1)) + d * (c * k)" by (simp add: c mult.assoc)
  moreover have "(a + d * (c * k)) div d = a div d + c * k" for a using \<open>0 < d\<close> by simp
  moreover have "400 div d = c" using \<open>0 < d\<close> nonzero_mult_div_cancel_left [of d c] unfolding c by simp
  ultimately show ?thesis unfolding multiples_below_def by metis
qed

lemma leap_year_count:
  "(if leap_year y then 1 else 0) + (if 100 dvd y then 1 else 0) =
   (if 4 dvd y then 1 else 0) + (if 400 dvd y then (1 :: nat) else 0)"
  using dvd_trans [of 100 400 y] dvd_trans [of 4 100 y] by (auto simp: leap_year_def)

lemma days_before_year_closed:
  assumes "1970 \<le> y"
  shows "days_before_year y + 365 * 1970 + multiples_below 4 1970 + multiples_below 400 1970 + multiples_below 100 y =
    365 * y + multiples_below 4 y + multiples_below 400 y + multiples_below 100 1970"
  using assms
proof (induction y rule: dec_induct)
  case base
  show ?case by (simp add: days_before_year_def)
next
  case (step y)
  then show ?case
    using leap_year_count [of y]
    by (simp add: days_before_year_Suc multiples_below_Suc year_days_def split: if_splits)
qed

lemma days_before_cycles: "days_before_year (1970 + 400 * k) = 146097 * k"
  using days_before_year_closed [of "1970 + 400 * k"] by (simp add: multiples_below_cycle)

section \<open>The loops compute the calendar\<close>

lemma leap_unat: "leap y \<longleftrightarrow> leap_year (unat y)"
proof -
  have "(y mod k = 0) \<longleftrightarrow> unat k dvd unat y" for k :: u64
    by (simp add: word_eq_iff_unsigned [where 'a = nat] unat_mod dvd_eq_mod_eq_0)
  from this [of 4] this [of 100] this [of 400] show ?thesis by (simp add: leap_def leap_year_def)
qed

lemma year_length_days: "unat (year_length y) = year_days (unat y)"
  by (simp add: unat_year_length year_days_def leap_unat)

lemma year_loop_days:
  assumes "year_loop y r = (y', r')" and "1970 \<le> unat y" and "unat y + unat r < 2 ^ 64"
  shows "days_before_year (unat y) + unat r = days_before_year (unat y') + unat r' \<and>
    unat r' < year_days (unat y') \<and> 1970 \<le> unat y' \<and> unat y' \<le> unat y + unat r"
  using assms
proof (induction y r arbitrary: y' r' rule: year_loop.induct)
  case (1 y r)
  show ?case
  proof (cases "r < year_length y")
    case True
    with 1 show ?thesis by (auto simp: year_loop.simps [of y] word_less_nat_alt year_length_days)
  next
    case False
    then have le: "year_days (unat y) \<le> unat r" by (simp add: word_less_nat_alt year_length_days not_less)
    then have r: "unat (r - year_length y) = unat r - year_days (unat y)"
      by (simp add: unat_sub word_le_nat_alt year_length_days)
    have "0 < year_days (unat y)" by (simp add: year_days_def)
    with 1 le have y: "unat (y + 1) = Suc (unat y)"
      by (simp add: unat_word_ariths)
    have loop: "year_loop (y + 1) (r - year_length y) = (y', r')"
      using 1(2) False by (simp add: year_loop.simps [of y])
    have "1970 \<le> unat (y + 1)" "unat (y + 1) + unat (r - year_length y) < 2 ^ 64"
      using 1(3,4) le \<open>0 < year_days (unat y)\<close> by (simp_all add: r y)
    from 1(1) [OF False loop this] have
      "days_before_year (Suc (unat y)) + (unat r - year_days (unat y)) = days_before_year (unat y') + unat r'"
      "unat r' < year_days (unat y')" "1970 \<le> unat y'" "unat y' \<le> Suc (unat y) + (unat r - year_days (unat y))"
      by (simp_all only: r y)
    with 1(3) le \<open>0 < year_days (unat y)\<close> show ?thesis by (simp add: days_before_year_Suc)
  qed
qed

lemma month_loop_days:
  assumes "unat r < sum_list (map unat ls)" and "i + length ls \<le> 255"
  shows "\<exists>m. month_loop ls i r = Some m \<and> i < unat m \<and> unat m \<le> i + length ls \<and>
    sum_list (map unat (take (unat m - i - 1) ls)) \<le> unat r \<and>
    unat r < sum_list (map unat (take (unat m - i) ls))"
  using assms
proof (induction ls arbitrary: i r)
  case (Cons l ls)
  have i: "unat (word_of_nat i + 1 :: u8) = Suc i"
    using Cons.prems(2) by (simp add: unat_word_ariths unat_of_nat)
  show ?case
  proof (cases "r < l")
    case True
    with i show ?thesis by (auto simp: word_less_nat_alt)
  next
    case False
    then have r: "unat (r - l) = unat r - unat l" and le: "unat l \<le> unat r"
      by (simp_all add: unat_sub word_le_nat_alt not_less)
    have "unat (r - l) < sum_list (map unat ls)" "Suc i + length ls \<le> 255"
      using Cons.prems r le by simp_all
    from Cons.IH [OF this] obtain m where m: "month_loop ls (Suc i) (r - l) = Some m" "Suc i < unat m" "unat m \<le> Suc i + length ls"
      "sum_list (map unat (take (unat m - Suc i - 1) ls)) \<le> unat (r - l)"
      "unat (r - l) < sum_list (map unat (take (unat m - Suc i) ls))"
      by blast
    then obtain k where k: "unat m - i = Suc (Suc k)" by (metis Suc_diff_Suc Suc_lessD)
    then have "unat m - Suc i = Suc k" "unat m - i - 1 = Suc k" by simp_all
    with m k False r le show ?thesis by (intro exI [of _ m]) auto
  qed
qed simp

lemma month_lengths_days:
  "map unat (month_lengths y) = map (month_days (unat y)) [1..<13]"
proof -
  have "[1..<13] = [1, 2, 3, 4, 5, 6, 7, 8, 9, 10, 11, 12::nat]" by code_simp
  then show ?thesis by (simp add: month_lengths_def month_days_def leap_unat)
qed

lemma year_days_months: "sum_list (map (month_days y) [1..<13]) = year_days y"
proof -
  have "[1..<13] = [1, 2, 3, 4, 5, 6, 7, 8, 9, 10, 11, 12::nat]" by code_simp
  then show ?thesis by (simp add: month_days_def year_days_def)
qed

lemma month_at_encloses:
  "\<exists>y m. month_at seconds = Some (Month y m) \<and> 1 \<le> unat m \<and> unat m \<le> 12 \<and>
     days_before_month (unat y) (unat m) \<le> unat seconds div 86400 \<and>
     unat seconds div 86400 < days_before_month (unat y) (unat m) + month_days (unat y) (unat m)"
proof -
  define d where "d = unat seconds div 86400"
  let ?days = "seconds div 86400"
  have days: "unat ?days = d" by (simp add: d_def unat_div)
  have "unat seconds < 2 ^ 64" using unsigned_less [of seconds] by simp
  then have bound: "d < 2 ^ 64 div 86400 + 1" by (simp add: d_def div_le_mono less_Suc_eq_le)
  let ?y0 = "1970 + (?days div 146097) * 400" and ?r0 = "?days mod 146097"
  have r0: "unat ?r0 = d mod 146097" by (simp add: unat_mod days)
  have "d div 146097 * 400 < 2 ^ 63" using bound by simp
  moreover have "unat (?days div 146097) = d div 146097"
    by (simp add: unat_div d_def)
  ultimately have y0: "unat ?y0 = 1970 + 400 * (d div 146097)"
    using unat_word_ariths(1) [of 1970 "(?days div 146097) * 400"] unat_word_ariths(2) [of "?days div 146097" 400]
    by simp
  obtain y r where loop: "year_loop ?y0 ?r0 = (y, r)" by fastforce
  have "unat ?y0 + unat ?r0 < 2 ^ 64"
    using \<open>d div 146097 * 400 < 2 ^ 63\<close> mod_less_divisor [of 146097 d] unfolding y0 r0 by simp
  with year_loop_days [OF loop] y0 have
    sum: "days_before_year (unat ?y0) + unat ?r0 = days_before_year (unat y) + unat r"
    and r: "unat r < year_days (unat y)" by auto
  have total: "d = days_before_year (unat y) + unat r"
    using sum days_before_cycles [of "d div 146097"] mult_div_mod_eq [of 146097 d] by (simp add: y0 r0)
  have "unat r < sum_list (map unat (month_lengths y))"
    using r by (simp only: month_lengths_days year_days_months)
  moreover have len: "length (month_lengths y) = 12" by (simp add: month_lengths_def)
  ultimately obtain m where m: "month_loop (month_lengths y) 0 r = Some m" "0 < unat m" "unat m \<le> 12"
    "sum_list (take (unat m - 1) (map unat (month_lengths y))) \<le> unat r"
    "unat r < sum_list (take (unat m) (map unat (month_lengths y)))"
    using month_loop_days [of r "month_lengths y" 0] unfolding len take_map by auto
  have take: "take k (map (month_days (unat y)) [1..<13]) = map (month_days (unat y)) [1..<Suc k]" if "k \<le> 12" for k
    using that by (simp only: take_map take_upt) simp
  obtain k where k: "unat m = Suc k" using m(2) by (cases "unat m") auto
  have "sum_list (map (month_days (unat y)) [1..<unat m]) \<le> unat r"
    using m(3,4) take [of k] unfolding month_lengths_days k by simp
  moreover have "unat r < sum_list (map (month_days (unat y)) [1..<unat m]) + month_days (unat y) (unat m)"
    using m(3,5) take [of "Suc k"] unfolding month_lengths_days k by simp
  ultimately have "sum_list (map (month_days (unat y)) [1..<unat m]) \<le> unat r"
    "unat r < sum_list (map (month_days (unat y)) [1..<unat m]) + month_days (unat y) (unat m)" by blast+
  with total m loop show ?thesis
    by (intro exI [of _ y] exI [of _ m]) (simp add: month_at_def Let_def days_before_month_def flip: d_def)
qed

lemma month_at_defined: "\<exists>m. month_at seconds = Some m"
  using month_at_encloses [of seconds] by blast

text \<open>
  C17. The accounting month is the calendar month. For every 64-bit timestamp the loops end, never reach
  the code behind the last month and never overflow the year, and the month they answer is the one
  whose first and last day, counted in the Gregorian calendar from 1970, enclose the timestamp's day.
\<close>

theorem month_at_calendar:
  "\<exists>y m. month_at seconds = Some (Month y m) \<and> 1 \<le> unat m \<and> unat m \<le> 12 \<and>
     days_before_month (unat y) (unat m) \<le> unat seconds div 86400 \<and>
     unat seconds div 86400 < days_before_month (unat y) (unat m) + month_days (unat y) (unat m)"
  by (rule month_at_encloses)

end
