(* ===== verification/Connection.thy ===== *)
theory Connection
  imports Lifecycle Ordered_Map Calendar "HOL-Library.Product_Lexorder"
begin

text \<open>
  Organization credentials, subject grants and spend, \<open>crates/core/src/model_connection.rs\<close> with its
  modules \<open>access.rs\<close> and \<open>spend.rs\<close>: the data they share. Variants that several enums of the source
  have carry the initial of their enum: \<open>C\<close> for a connection status, \<open>V\<close> for a version phase, \<open>G\<close> for a
  grant status, \<open>A\<close> for an attempt phase, \<open>Cap\<close> for a capability.
\<close>

type_synonym u128 = "128 word"

section \<open>Connections\<close>

record authority_binding =
  ab_authority :: string
  ab_organization :: string
  ab_environment :: string

datatype authentication_kind = ApiKey | OrganizationOauth

datatype execution_class = PrivateBroker | PublicDirect

record provider_binding =
  pb_provider :: string
  pb_endpoint :: string
  pb_authentication :: authentication_kind

record model_policy =
  mp_models :: "string set"
  mp_execution_classes :: "execution_class set"

record connection_definition =
  cd_name :: string
  cd_provider :: provider_binding
  cd_policy :: model_policy

datatype connection_status = CPending | CActive | CSuspended | CRevoked | CErased

datatype verification_check = ModelCatalogRead

record verification =
  vf_check :: verification_check
  vf_observed_at :: u64

datatype version_phase =
    VAwaitingSecret | VSealed | VVerified string | VActivated string | VFailed string | VCancelled | VExpired

fun version_open :: "version_phase \<Rightarrow> bool" where
  "version_open VAwaitingSecret = True"
| "version_open VSealed = True"
| "version_open (VVerified _) = True"
| "version_open _ = False"

fun version_activated :: "version_phase \<Rightarrow> bool" where
  "version_activated (VActivated _) = True"
| "version_activated _ = False"

datatype material = Unobserved | Held string | ErasureRequired "string option" | MaterialGone string

fun require_erasure :: "material \<Rightarrow> material" where
  "require_erasure Unobserved = ErasureRequired None"
| "require_erasure (Held h) = ErasureRequired (Some h)"
| "require_erasure m = m"

fun material_erased :: "material \<Rightarrow> bool" where
  "material_erased (MaterialGone _) = True"
| "material_erased _ = False"

fun material_held :: "material \<Rightarrow> bool" where
  "material_held (Held _) = True"
| "material_held _ = False"

record version =
  vs_expires_at :: u64
  vs_phase :: version_phase
  vs_material :: material
  vs_verification :: "verification option"

record connection =
  cn_definition :: connection_definition
  cn_budget_family :: string
  cn_status :: connection_status
  cn_versions :: "(string, version) btree"
  cn_current_version :: "string option"
  cn_erasure_requested :: bool

definition version_usable :: "version \<Rightarrow> bool" where
  "version_usable v \<longleftrightarrow> version_activated (vs_phase v) \<and> material_held (vs_material v)"

definition active_version :: "connection \<Rightarrow> string option" where
  "active_version c =
     (if cn_status c \<noteq> CActive \<or> cn_erasure_requested c then None
      else case cn_current_version c of
             None \<Rightarrow> None
           | Some i \<Rightarrow>
               (case bt_get (cn_versions c) i of
                  None \<Rightarrow> None
                | Some v \<Rightarrow> if version_usable v then Some i else None))"

definition mutable :: "connection \<Rightarrow> bool" where
  "mutable c \<longleftrightarrow> cn_status c \<noteq> CRevoked \<and> cn_status c \<noteq> CErased"

definition material_gone :: "connection \<Rightarrow> bool" where
  "material_gone c \<longleftrightarrow> list_all (\<lambda>v. material_erased (vs_material v)) (bt_values (cn_versions c))"

definition map_versions :: "(version \<Rightarrow> version) \<Rightarrow> connection \<Rightarrow> connection" where
  "map_versions f c = c\<lparr>cn_versions := map (\<lambda>(i, v). (i, f v)) (cn_versions c)\<rparr>"

definition revoke :: "connection \<Rightarrow> connection" where
  "revoke c = (map_versions (\<lambda>v. if version_open (vs_phase v)
     then v\<lparr>vs_phase := VCancelled, vs_material := require_erasure (vs_material v)\<rparr> else v) c)
     \<lparr>cn_status := CRevoked\<rparr>"

record model_selection =
  sel_connection :: string
  sel_model :: string

section \<open>Subjects and grants\<close>

record project =
  pj_authority :: string
  pj_id :: string

datatype subject = MemberSubject string | ProjectSubject project

datatype budget_key = BudgetKey (bk_family: string) (bk_subject: subject)

text \<open>The derived order of a budget key: the family, then the subject, members before projects.\<close>

fun subject_rank :: "subject \<Rightarrow> nat \<times> string \<times> string" where
  "subject_rank (MemberSubject a) = (0, a, [])"
| "subject_rank (ProjectSubject p) = (1, pj_authority p, pj_id p)"

definition budget_rank :: "budget_key \<Rightarrow> string \<times> nat \<times> string \<times> string" where
  "budget_rank k = (bk_family k, subject_rank (bk_subject k))"

lemma subject_rank_inj: "subject_rank a = subject_rank b \<longleftrightarrow> a = b"
  by (cases a; cases b) (auto intro: project.equality)

lemma budget_rank_inj: "budget_rank a = budget_rank b \<longleftrightarrow> a = b"
  by (cases a; cases b) (simp add: budget_rank_def subject_rank_inj)

instantiation budget_key :: linorder
begin

definition less_eq_budget_key :: "budget_key \<Rightarrow> budget_key \<Rightarrow> bool" where
  "less_eq_budget_key a b = (budget_rank a \<le> budget_rank b)"

definition less_budget_key :: "budget_key \<Rightarrow> budget_key \<Rightarrow> bool" where
  "less_budget_key a b = (budget_rank a < budget_rank b)"

instance
  by standard (auto simp: less_eq_budget_key_def less_budget_key_def less_le_not_le budget_rank_inj
      dest: order_antisym)

end

datatype principal_class = MemberClass | ExternalParticipantClass | ServiceClass | PublicSessionClass

datatype initiator =
    Member string | ExternalParticipant string | Service string | PublicSession string string

fun initiator_class :: "initiator \<Rightarrow> principal_class" where
  "initiator_class (Member _) = MemberClass"
| "initiator_class (ExternalParticipant _) = ExternalParticipantClass"
| "initiator_class (Service _) = ServiceClass"
| "initiator_class (PublicSession _ _) = PublicSessionClass"

definition public_session :: "initiator \<Rightarrow> bool" where
  "public_session i \<longleftrightarrow> initiator_class i = PublicSessionClass"

type_synonym currency = string

definition currency_try_from :: "string \<Rightarrow> string + currency" where
  "currency_try_from value =
     (if length value = 3 \<and> list_all (\<lambda>c. CHR ''A'' \<le> c \<and> c \<le> CHR ''Z'') value then Inr value
      else Inl ''currency must be a three-letter uppercase code'')"

record money =
  mn_currency :: currency
  mn_micros :: u64

record caps =
  cap_tokens :: "u64 option"
  cap_money :: "money option"

datatype grant_status = GActive | GSuspended | GRevoked

record grant_definition =
  gd_connection :: string
  gd_subject :: subject
  gd_policy :: model_policy
  gd_audiences :: "principal_class set"
  gd_caps :: caps

record grant =
  gr_definition :: grant_definition
  gr_budget :: budget_key
  gr_revision :: u64
  gr_status :: grant_status

text \<open>The digest of a request is the array \<open>[u8; 32]\<close>: a list of 32 bytes, compared as a whole.\<close>

record invocation =
  iv_connection :: string
  iv_version :: string
  iv_provider :: provider_binding
  iv_model :: string
  iv_class :: execution_class
  iv_initiator :: initiator
  iv_project :: "project option"
  iv_home :: "string option"
  iv_work :: string
  iv_final_fetch :: string
  iv_request_digest :: "u8 list"

record execution_evidence =
  ee_observed :: invocation
  ee_current_identity_and_work :: bool
  ee_funding_admitted :: bool
  ee_private_plaintext_admitted :: bool
  ee_public_deployment_and_budget_admitted :: bool
  ee_observation :: string

record applicable_grant =
  ag_id :: string
  ag_revision :: u64
  ag_budget :: budget_key
  ag_caps :: caps

section \<open>Attempts\<close>

record bound =
  bd_tokens :: u64
  bd_money :: "money option"
  bd_rate :: "string option"
  bd_enforcement :: string

record usage =
  us_tokens :: u64
  us_money :: "money option"
  us_rate :: "string option"
  us_runtime :: string

datatype attempt_phase = AReserved | ADispatched | AUnknown | ASettled | AAccountedAtBound | AReleased

record attempt =
  at_invocation :: invocation
  at_grants :: "applicable_grant list"
  at_month :: month
  at_bound :: bound
  at_reserved_until :: u64
  at_reconcile_by :: u64
  at_revision :: u64
  at_phase :: attempt_phase
  at_usage :: "usage option"
  at_measurements :: "(string, usage) btree"
  at_unknown_evidence :: "string option"
  at_overrun :: bool
  at_reconciled_with :: "string option"

definition counted :: "attempt \<Rightarrow> (u64 \<times> money option) option" where
  "counted a =
     (case at_phase a of
        AReleased \<Rightarrow> None
      | ASettled \<Rightarrow> map_option (\<lambda>u. (us_tokens u, us_money u)) (at_usage a)
      | _ \<Rightarrow> Some (bd_tokens (at_bound a), bd_money (at_bound a)))"

text \<open>\<open>family\<close> indexes the first grant and panics on an attempt without one; none is ever stored.\<close>

definition family :: "attempt \<Rightarrow> string" where
  "family a = bk_family (ag_budget (hd (at_grants a)))"

fun subject_of :: "subject \<Rightarrow> invocation \<Rightarrow> bool" where
  "subject_of (MemberSubject m) iv = (iv_initiator iv = Member m)"
| "subject_of (ProjectSubject p) iv = (iv_project iv = Some p)"

definition charges :: "attempt \<Rightarrow> budget_key \<Rightarrow> bool" where
  "charges a k \<longleftrightarrow> family a = bk_family k \<and> subject_of (bk_subject k) (at_invocation a)"

section \<open>State\<close>

record connection_state =
  st_binding :: "authority_binding option"
  st_revision :: u64
  st_last_at :: u64
  st_connections :: "(string, connection) btree"
  st_default :: "model_selection option"
  st_used_handles :: "string set"
  st_grants :: "(string, grant) btree"
  st_attempts :: "(string, attempt) btree"
  st_failed_enforcements :: "string set"

definition connection_default :: connection_state where
  "connection_default = \<lparr>st_binding = None, st_revision = 0, st_last_at = 0, st_connections = [],
     st_default = None, st_used_handles = {}, st_grants = [], st_attempts = [],
     st_failed_enforcements = {}\<rparr>"

definition available_default :: "connection_state \<Rightarrow> model_selection option" where
  "available_default s =
     (case st_default s of
        None \<Rightarrow> None
      | Some sel \<Rightarrow>
          (case bt_get (st_connections s) (sel_connection sel) of
             None \<Rightarrow> None
           | Some c \<Rightarrow>
               if active_version c \<noteq> None \<and> sel_model sel \<in> mp_models (cd_policy (cn_definition c)) \<and>
                  mp_execution_classes (cd_policy (cn_definition c)) \<noteq> {}
               then Some sel else None))"

datatype capability =
    CapManageConnections | CapManageGrants | CapInvokeProvider | CapObserveUsage | CapReconcileBounds
  | CapSealCandidate | CapVerifyCandidate | CapObserveDeadline | CapConfirmErasure | CapOrganizationClosure

datatype basis =
    MetadataBasis u64
  | DispatchBasis u64 string u64
  | AttemptBasis string u64

section \<open>Checks\<close>

definition require :: "bool \<Rightarrow> string \<Rightarrow> unit outcome" where
  "require condition why = (if condition then Inr () else reject why)"

lemma require_Inr [simp]: "and_then (require b why) f = Inr x \<longleftrightarrow> b \<and> f () = Inr x"
  by (simp add: require_def)

lemma require_True [simp]: "require True why = Inr ()"
  by (simp add: require_def)

definition find_connection :: "connection_state \<Rightarrow> string \<Rightarrow> connection outcome" where
  "find_connection s i =
     (case bt_get (st_connections s) i of None \<Rightarrow> reject ''unknown connection'' | Some c \<Rightarrow> Inr c)"

definition find_candidate :: "connection \<Rightarrow> string \<Rightarrow> version outcome" where
  "find_candidate c i =
     (case bt_get (cn_versions c) i of None \<Rightarrow> reject ''unknown credential version'' | Some v \<Rightarrow> Inr v)"

lemma find_connection_Inr [simp]: "find_connection s i = Inr c \<longleftrightarrow> bt_get (st_connections s) i = Some c"
  by (auto simp: find_connection_def split: option.splits)

lemma find_candidate_Inr [simp]: "find_candidate c i = Inr v \<longleftrightarrow> bt_get (cn_versions c) i = Some v"
  by (auto simp: find_candidate_def split: option.splits)

end
