(* ===== verification/Connection_Access.thy ===== *)
theory Connection_Access
  imports Connection
begin

text \<open>
  Subject grants and the admission of an invocation, \<open>crates/core/src/model_connection/access.rs\<close>.
\<close>

section \<open>Grants\<close>

datatype access_operation =
    SetCaps string caps
  | CreateGrant string grant_definition string
  | EditGrant string model_policy "principal_class set" caps
  | SuspendGrant string
  | ResumeGrant string string
  | RevokeGrant string

datatype access_change =
    CapsChanged string caps
  | GrantCreated string grant string
  | GrantEdited string model_policy "principal_class set" caps
  | GrantSuspended string
  | GrantResumed string string
  | GrantRevoked string

fun member_subject :: "subject \<Rightarrow> bool" where
  "member_subject (MemberSubject _) = True"
| "member_subject _ = False"

definition valid_definition :: "connection_state \<Rightarrow> grant_definition \<Rightarrow> unit outcome" where
  "valid_definition s d =
     and_then (find_connection s (gd_connection d)) (\<lambda>c.
     and_then (require (mutable c) ''cannot grant a terminal connection'') (\<lambda>_.
     and_then (require
       (mp_models (gd_policy d) \<noteq> {} \<and> mp_models (gd_policy d) \<subseteq> mp_models (cd_policy (cn_definition c)) \<and>
        mp_execution_classes (gd_policy d) \<noteq> {} \<and>
        mp_execution_classes (gd_policy d) \<subseteq> mp_execution_classes (cd_policy (cn_definition c)))
       ''grant models or execution classes are not approved'') (\<lambda>_.
     and_then (require (gd_audiences d \<noteq> {}) ''grant requires an admitted audience'') (\<lambda>_.
       if member_subject (gd_subject d)
       then require (gd_audiences d = {MemberClass} \<and> PublicDirect \<notin> mp_execution_classes (gd_policy d))
              ''a member grant cannot fund another principal or public deployment''
       else Inr ()))))"

definition find_grant :: "connection_state \<Rightarrow> string \<Rightarrow> grant outcome" where
  "find_grant s i = (case bt_get (st_grants s) i of None \<Rightarrow> reject ''unknown model grant'' | Some g \<Rightarrow> Inr g)"

lemma find_grant_Inr [simp]: "find_grant s i = Inr g \<longleftrightarrow> bt_get (st_grants s) i = Some g"
  by (auto simp: find_grant_def split: option.splits)

definition revisable :: "grant \<Rightarrow> unit outcome" where
  "revisable g = require (checked_add (gr_revision g) 1 \<noteq> None) ''grant revision exhausted''"

fun access_decide :: "connection_state \<Rightarrow> access_operation \<Rightarrow> access_change outcome" where
  "access_decide s (SetCaps i caps) =
     and_then (find_grant s i) (\<lambda>g.
     and_then (require (gr_status g \<noteq> GRevoked) ''grant is terminal'') (\<lambda>_.
     and_then (find_connection s (gd_connection (gr_definition g))) (\<lambda>c.
     and_then (require (mutable c) ''connection is terminal'') (\<lambda>_.
     and_then (revisable g) (\<lambda>_. Inr (CapsChanged i caps))))))"
| "access_decide s (CreateGrant i d admission) =
     and_then (require (bt_get (st_grants s) i = None) ''grant identity already exists'') (\<lambda>_.
     and_then (valid_definition s d) (\<lambda>_.
     and_then (find_connection s (gd_connection d)) (\<lambda>c.
       Inr (GrantCreated i
         \<lparr>gr_definition = d, gr_budget = BudgetKey (cn_budget_family c) (gd_subject d), gr_revision = 1,
          gr_status = GActive\<rparr> admission))))"
| "access_decide s (EditGrant i policy audiences caps) =
     and_then (find_grant s i) (\<lambda>g.
     and_then (require (gr_status g \<noteq> GRevoked) ''grant is terminal'') (\<lambda>_.
     and_then (revisable g) (\<lambda>_.
     and_then (valid_definition s
       ((gr_definition g)\<lparr>gd_policy := policy, gd_audiences := audiences, gd_caps := caps\<rparr>)) (\<lambda>_.
       Inr (GrantEdited i policy audiences caps)))))"
| "access_decide s (SuspendGrant i) =
     and_then (find_grant s i) (\<lambda>g.
     and_then (require (gr_status g = GActive) ''grant is not active'') (\<lambda>_.
     and_then (revisable g) (\<lambda>_. Inr (GrantSuspended i))))"
| "access_decide s (ResumeGrant i admission) =
     and_then (find_grant s i) (\<lambda>g.
     and_then (require (gr_status g = GSuspended) ''grant is not suspended'') (\<lambda>_.
     and_then (revisable g) (\<lambda>_.
     and_then (valid_definition s (gr_definition g)) (\<lambda>_. Inr (GrantResumed i admission)))))"
| "access_decide s (RevokeGrant i) =
     and_then (find_grant s i) (\<lambda>g.
     and_then (require (gr_status g \<noteq> GRevoked) ''grant is already revoked'') (\<lambda>_.
     and_then (revisable g) (\<lambda>_. Inr (GrantRevoked i))))"

definition update_grant :: "string \<Rightarrow> (grant \<Rightarrow> grant) \<Rightarrow> connection_state \<Rightarrow> connection_state" where
  "update_grant i f s =
     s\<lparr>st_grants := bt_modify i (\<lambda>g. (f g)\<lparr>gr_revision := gr_revision g + 1\<rparr>) (st_grants s)\<rparr>"

fun access_evolve :: "connection_state \<Rightarrow> access_change \<Rightarrow> connection_state" where
  "access_evolve s (CapsChanged i caps) =
     update_grant i (\<lambda>g. g\<lparr>gr_definition := (gr_definition g)\<lparr>gd_caps := caps\<rparr>\<rparr>) s"
| "access_evolve s (GrantCreated i g _) = s\<lparr>st_grants := bt_insert i g (st_grants s)\<rparr>"
| "access_evolve s (GrantEdited i policy audiences caps) =
     update_grant i (\<lambda>g. g\<lparr>gr_definition := (gr_definition g)
       \<lparr>gd_policy := policy, gd_audiences := audiences, gd_caps := caps\<rparr>\<rparr>) s"
| "access_evolve s (GrantSuspended i) = update_grant i (\<lambda>g. g\<lparr>gr_status := GSuspended\<rparr>) s"
| "access_evolve s (GrantResumed i _) = update_grant i (\<lambda>g. g\<lparr>gr_status := GActive\<rparr>) s"
| "access_evolve s (GrantRevoked i) = update_grant i (\<lambda>g. g\<lparr>gr_status := GRevoked\<rparr>) s"

section \<open>Discovery\<close>

record private_selection_option =
  po_connection :: string
  po_models :: "string set"

fun selects :: "string \<Rightarrow> project option \<Rightarrow> subject \<Rightarrow> bool" where
  "selects actor proj (MemberSubject m) = (m = actor)"
| "selects actor proj (ProjectSubject p) = (proj = Some p)"

definition offered_models :: "connection_state \<Rightarrow> string \<Rightarrow> project option \<Rightarrow> string \<Rightarrow> connection \<Rightarrow> string set" where
  "offered_models s actor proj i c =
     {m \<in> \<Union> (set (map (\<lambda>g. mp_models (gd_policy (gr_definition g)))
        (filter (\<lambda>g. gr_status g = GActive \<and> gd_connection (gr_definition g) = i \<and>
            PrivateBroker \<in> mp_execution_classes (gd_policy (gr_definition g)) \<and>
            MemberClass \<in> gd_audiences (gr_definition g) \<and> selects actor proj (gd_subject (gr_definition g)))
          (bt_values (st_grants s))))).
      m \<in> mp_models (cd_policy (cn_definition c))}"

definition private_selection_options ::
  "connection_state \<Rightarrow> string \<Rightarrow> project option \<Rightarrow> private_selection_option list" where
  "private_selection_options s actor proj =
     List.map_filter (\<lambda>(i, c).
       if active_version c = None \<or> PrivateBroker \<notin> mp_execution_classes (cd_policy (cn_definition c)) then None
       else let models = offered_models s actor proj i c
            in if models = {} then None else Some \<lparr>po_connection = i, po_models = models\<rparr>)
       (st_connections s)"

section \<open>Admission of an invocation\<close>

definition matching_grants :: "connection_state \<Rightarrow> invocation \<Rightarrow> (string \<times> grant) list" where
  "matching_grants s iv =
     filter (\<lambda>(i, g). gr_status g = GActive \<and> gd_connection (gr_definition g) = iv_connection iv \<and>
       subject_of (gd_subject (gr_definition g)) iv) (st_grants s)"

definition authorizes :: "invocation \<Rightarrow> grant \<Rightarrow> bool" where
  "authorizes iv g \<longleftrightarrow>
     iv_model iv \<in> mp_models (gd_policy (gr_definition g)) \<and>
     iv_class iv \<in> mp_execution_classes (gd_policy (gr_definition g)) \<and>
     initiator_class (iv_initiator iv) \<in> gd_audiences (gr_definition g) \<and>
     (iv_class iv \<noteq> PublicDirect \<or> \<not> member_subject (gd_subject (gr_definition g)))"

definition applicable_of :: "string \<times> grant \<Rightarrow> applicable_grant" where
  "applicable_of x = (case x of (i, g) \<Rightarrow>
     \<lparr>ag_id = i, ag_revision = gr_revision g, ag_budget = gr_budget g, ag_caps = gd_caps (gr_definition g)\<rparr>)"

definition recipient_admitted :: "invocation \<Rightarrow> execution_evidence \<Rightarrow> unit outcome" where
  "recipient_admitted iv ev =
     (case iv_class iv of
        PrivateBroker \<Rightarrow> require
          (ee_private_plaintext_admitted ev \<and> \<not> public_session (iv_initiator iv) \<and>
           (iv_project iv = None \<or> iv_home iv \<noteq> None))
          ''private broker is not an admitted plaintext recipient''
      | PublicDirect \<Rightarrow> require
          (ee_public_deployment_and_budget_admitted ev \<and> iv_project iv \<noteq> None \<and> iv_home iv = None \<and>
           public_session (iv_initiator iv))
          ''public use requires owner-admitted project deployment and budget'')"

definition applicable ::
  "connection_state \<Rightarrow> invocation \<Rightarrow> execution_evidence \<Rightarrow> string \<Rightarrow> applicable_grant list outcome" where
  "applicable s iv ev actor =
     and_then (require (iv_final_fetch iv = actor) ''wrong final-fetch actor'') (\<lambda>_.
     and_then (require (ee_observed ev = iv \<and> ee_current_identity_and_work ev \<and> ee_funding_admitted ev)
       ''current identity, work or funding admission is missing or mismatched'') (\<lambda>_.
     and_then (recipient_admitted iv ev) (\<lambda>_.
     and_then (find_connection s (iv_connection iv)) (\<lambda>c.
     and_then (require (active_version c = Some (iv_version iv) \<and> cd_provider (cn_definition c) = iv_provider iv \<and>
       iv_model iv \<in> mp_models (cd_policy (cn_definition c)) \<and>
       iv_class iv \<in> mp_execution_classes (cd_policy (cn_definition c)))
       ''connection, version, provider, model or execution class is not current'') (\<lambda>_.
     let grants = matching_grants s iv in
     and_then (require (list_ex (\<lambda>(i, g). authorizes iv g) grants)
       ''no current grant authorizes this invocation'') (\<lambda>_.
       Inr (map applicable_of grants)))))))"

definition budgets :: "applicable_grant list \<Rightarrow> (budget_key, caps list) btree" where
  "budgets grants =
     foldl (\<lambda>m g. bt_insert (ag_budget g)
       ((case bt_get m (ag_budget g) of None \<Rightarrow> [] | Some cs \<Rightarrow> cs) @ [ag_caps g]) m) [] grants"

end
