(* ===== verification/Connection_Spend.thy ===== *)
theory Connection_Spend
  imports Connection_Access
begin

text \<open>
  The attempt ledger, \<open>crates/core/src/model_connection/spend.rs\<close>: reserving an allowance, dispatching
  under it, settling, correcting and reconciling.
\<close>

section \<open>Operations\<close>

datatype spend_operation =
    Reserve string invocation execution_evidence bound u64 u64
  | Dispatch string execution_evidence bound
  | Cancel string
  | Expire string
  | OutcomeUnknown string string
  | Settle string usage string
  | ReconcileDeadline string
  | Correct string usage string
  | ReconcileOverrun string string string

fun spend_capability :: "spend_operation \<Rightarrow> capability" where
  "spend_capability (Reserve _ _ _ _ _ _) = CapInvokeProvider"
| "spend_capability (Dispatch _ _ _) = CapInvokeProvider"
| "spend_capability (Cancel _) = CapInvokeProvider"
| "spend_capability (Expire _) = CapObserveDeadline"
| "spend_capability (ReconcileDeadline _) = CapObserveDeadline"
| "spend_capability (OutcomeUnknown _ _) = CapObserveUsage"
| "spend_capability (Settle _ _ _) = CapObserveUsage"
| "spend_capability (Correct _ _ _) = CapObserveUsage"
| "spend_capability (ReconcileOverrun _ _ _) = CapReconcileBounds"

fun spend_id :: "spend_operation \<Rightarrow> string" where
  "spend_id (Reserve i _ _ _ _ _) = i"
| "spend_id (Dispatch i _ _) = i"
| "spend_id (Cancel i) = i"
| "spend_id (Expire i) = i"
| "spend_id (OutcomeUnknown i _) = i"
| "spend_id (Settle i _ _) = i"
| "spend_id (ReconcileDeadline i) = i"
| "spend_id (Correct i _ _) = i"
| "spend_id (ReconcileOverrun i _ _) = i"

datatype spend_change =
    ReservedEv string attempt string
  | DispatchedEv string string
  | ReleasedEv string
  | OutcomeUnknownEv string string
  | SettledEv string usage string bool
  | AccountedAtBoundEv string
  | CorrectedEv string usage string bool
  | OverrunReconciledEv string string string

definition find_attempt :: "connection_state \<Rightarrow> string \<Rightarrow> attempt outcome" where
  "find_attempt s i =
     (case bt_get (st_attempts s) i of None \<Rightarrow> reject ''unknown provider attempt'' | Some a \<Rightarrow> Inr a)"

lemma find_attempt_Inr [simp]: "find_attempt s i = Inr a \<longleftrightarrow> bt_get (st_attempts s) i = Some a"
  by (auto simp: find_attempt_def split: option.splits)

fun expected_basis :: "connection_state \<Rightarrow> spend_operation \<Rightarrow> basis outcome" where
  "expected_basis s (Reserve _ _ _ _ _ _) = Inr (MetadataBasis (st_revision s))"
| "expected_basis s (Dispatch i _ _) =
     and_then (find_attempt s i) (\<lambda>a. Inr (DispatchBasis (st_revision s) i (at_revision a)))"
| "expected_basis s operation =
     and_then (find_attempt s (spend_id operation)) (\<lambda>a. Inr (AttemptBasis (spend_id operation) (at_revision a)))"

definition check_basis :: "connection_state \<Rightarrow> spend_operation \<Rightarrow> basis \<Rightarrow> unit outcome" where
  "check_basis s operation b =
     and_then (expected_basis s operation) (\<lambda>expected. require (b = expected) ''stale or mismatched spend basis'')"

section \<open>Totals\<close>

record spend_totals =
  tt_tokens :: u128
  tt_money :: "(currency, u128) btree"
  tt_unknown_money :: bool

definition totals_default :: spend_totals where
  "totals_default = \<lparr>tt_tokens = 0, tt_money = [], tt_unknown_money = False\<rparr>"

definition amount_at :: "(currency, u128) btree \<Rightarrow> currency \<Rightarrow> u128" where
  "amount_at m c = (case bt_get m c of None \<Rightarrow> 0 | Some x \<Rightarrow> x)"

fun add_money :: "(currency, u128) btree \<Rightarrow> (currency \<times> u128) list \<Rightarrow> (currency, u128) btree outcome" where
  "add_money m [] = Inr m"
| "add_money m ((c, micros) # rest) =
     (case checked_add (amount_at m c) micros of
        None \<Rightarrow> reject ''money accounting overflow''
      | Some tot \<Rightarrow> add_money (bt_insert c tot m) rest)"

definition totals_add ::
  "spend_totals \<Rightarrow> u128 \<Rightarrow> (currency, u128) btree \<Rightarrow> bool \<Rightarrow> spend_totals outcome" where
  "totals_add t tokens m unknown =
     (case checked_add (tt_tokens t) tokens of
        None \<Rightarrow> reject ''token accounting overflow''
      | Some tot \<Rightarrow>
          and_then (add_money (tt_money t) m) (\<lambda>m'.
            Inr (t\<lparr>tt_tokens := tot, tt_money := m', tt_unknown_money := tt_unknown_money t \<or> unknown\<rparr>)))"

record spend_period =
  pu_measured :: spend_totals
  pu_reserved :: spend_totals
  pu_accounted_at_bound :: spend_totals
  pu_unknown_outcomes :: u64

definition period_default :: spend_period where
  "period_default = \<lparr>pu_measured = totals_default, pu_reserved = totals_default,
     pu_accounted_at_bound = totals_default, pu_unknown_outcomes = 0\<rparr>"

definition period_total :: "spend_period \<Rightarrow> spend_totals outcome" where
  "period_total u =
     foldl (\<lambda>r part. and_then r (\<lambda>tot.
         totals_add tot (tt_tokens part) (tt_money part) (tt_unknown_money part)))
       (Inr totals_default) [pu_measured u, pu_reserved u, pu_accounted_at_bound u]"

definition add_charge :: "spend_totals \<Rightarrow> u64 \<times> money option \<Rightarrow> spend_totals outcome" where
  "add_charge t charge =
     totals_add t (ucast (fst charge))
       (case snd charge of None \<Rightarrow> [] | Some value \<Rightarrow> [(mn_currency value, ucast (mn_micros value))])
       (snd charge = None)"

definition count_bucket :: "spend_period \<Rightarrow> attempt_phase \<Rightarrow> u64 \<times> money option \<Rightarrow> spend_period outcome" where
  "count_bucket u phase charge =
     (case phase of
        ASettled \<Rightarrow> and_then (add_charge (pu_measured u) charge) (\<lambda>t. Inr (u\<lparr>pu_measured := t\<rparr>))
      | AAccountedAtBound \<Rightarrow>
          and_then (add_charge (pu_accounted_at_bound u) charge) (\<lambda>t. Inr (u\<lparr>pu_accounted_at_bound := t\<rparr>))
      | _ \<Rightarrow> and_then (add_charge (pu_reserved u) charge) (\<lambda>t. Inr (u\<lparr>pu_reserved := t\<rparr>)))"

definition count_attempt :: "spend_period \<Rightarrow> attempt \<Rightarrow> spend_period outcome" where
  "count_attempt u a =
     (case counted a of
        None \<Rightarrow> Inr u
      | Some charge \<Rightarrow>
          and_then (count_bucket u (at_phase a) charge) (\<lambda>u'.
            if at_phase a = AUnknown \<or> at_phase a = AAccountedAtBound
            then (case checked_add (pu_unknown_outcomes u') 1 of
                    None \<Rightarrow> reject ''outcome count overflow''
                  | Some n \<Rightarrow> Inr (u'\<lparr>pu_unknown_outcomes := n\<rparr>))
            else Inr u'))"

definition period_usage :: "connection_state \<Rightarrow> budget_key \<Rightarrow> month \<Rightarrow> spend_period outcome" where
  "period_usage s k month =
     foldl (\<lambda>r a. and_then r (\<lambda>u. count_attempt u a)) (Inr period_default)
       (filter (\<lambda>a. at_month a = month \<and> charges a k) (bt_values (st_attempts s)))"

definition totals :: "connection_state \<Rightarrow> budget_key \<Rightarrow> month \<Rightarrow> spend_totals outcome" where
  "totals s k month = and_then (period_usage s k month) period_total"

section \<open>Checks\<close>

definition overrun_pending :: "connection_state \<Rightarrow> string \<Rightarrow> bool" where
  "overrun_pending s fam =
     list_ex (\<lambda>a. family a = fam \<and> at_overrun a \<and> at_reconciled_with a = None) (bt_values (st_attempts s))"

definition within_tokens :: "spend_totals \<Rightarrow> bound \<Rightarrow> u64 \<Rightarrow> bool" where
  "within_tokens tot b cap =
     (case checked_add (tt_tokens tot) (ucast (bd_tokens b)) of None \<Rightarrow> False | Some value \<Rightarrow> value \<le> ucast cap)"

definition within_money :: "spend_totals \<Rightarrow> bound \<Rightarrow> money \<Rightarrow> unit outcome" where
  "within_money tot b cap =
     and_then (require (0 < mn_micros cap) ''monthly money cap is zero'') (\<lambda>_.
     case bd_money b of
       None \<Rightarrow> reject ''money cap requires a supported conservative price''
     | Some maximum \<Rightarrow>
         and_then (require
           (mn_currency maximum = mn_currency cap \<and> \<not> tt_unknown_money tot \<and>
            list_all (\<lambda>c. c = mn_currency cap) (bt_keys (tt_money tot)))
           ''money allowance has unknown or incompatible pricing'') (\<lambda>_.
         require
           (case checked_add (amount_at (tt_money tot) (mn_currency cap)) (ucast (mn_micros maximum)) of
              None \<Rightarrow> False | Some value \<Rightarrow> value \<le> ucast (mn_micros cap))
           ''monthly money cap exhausted''))"

definition within :: "spend_totals \<Rightarrow> bound \<Rightarrow> caps \<Rightarrow> unit outcome" where
  "within tot b caps =
     and_then (case cap_tokens caps of
         None \<Rightarrow> Inr ()
       | Some cap \<Rightarrow> require (within_tokens tot b cap) ''monthly token cap exhausted'') (\<lambda>_.
     case cap_money caps of None \<Rightarrow> Inr () | Some cap \<Rightarrow> within_money tot b cap)"

fun within_each :: "spend_totals \<Rightarrow> bound \<Rightarrow> caps list \<Rightarrow> unit outcome" where
  "within_each tot b [] = Inr ()"
| "within_each tot b (caps # rest) = and_then (within tot b caps) (\<lambda>_. within_each tot b rest)"

fun within_budgets :: "connection_state \<Rightarrow> month \<Rightarrow> bound \<Rightarrow> (budget_key \<times> caps list) list \<Rightarrow> unit outcome" where
  "within_budgets s month b [] = Inr ()"
| "within_budgets s month b ((k, caps) # rest) =
     and_then (totals s k month) (\<lambda>tot.
     and_then (within_each tot b caps) (\<lambda>_. within_budgets s month b rest))"

definition eligible :: "connection_state \<Rightarrow> string \<Rightarrow> bound \<Rightarrow> unit outcome" where
  "eligible s fam b =
     and_then (require (bd_enforcement b \<notin> st_failed_enforcements s) ''provider bound enforcement has failed'') (\<lambda>_.
       require (\<not> overrun_pending s fam) ''connection has an unreconciled overrun'')"

definition money_overrun :: "bound \<Rightarrow> usage \<Rightarrow> bool outcome" where
  "money_overrun b u =
     (case bd_money b of
        None \<Rightarrow> Inr False
      | Some maximum \<Rightarrow>
          (case us_money u of
             None \<Rightarrow> reject ''unknown cost cannot release a priced reservation''
           | Some actual \<Rightarrow> Inr (mn_currency actual \<noteq> mn_currency maximum \<or> mn_micros maximum < mn_micros actual)))"

definition measured :: "attempt \<Rightarrow> usage \<Rightarrow> string \<Rightarrow> bool option outcome" where
  "measured a u evidence =
     (case bt_get (at_measurements a) evidence of
        Some previous \<Rightarrow> and_then (require (previous = u) ''usage evidence identity collision'') (\<lambda>_. Inr None)
      | None \<Rightarrow>
          and_then (require (us_money u = None \<or> us_rate u \<noteq> None) ''measured cost requires its rate basis'') (\<lambda>_.
          and_then (money_overrun (at_bound a) u) (\<lambda>over.
            Inr (Some (bd_tokens (at_bound a) < us_tokens u \<or> over)))))"

section \<open>Decisions\<close>

text \<open>\<open>None\<close> is a replay that changes nothing. The month is the one of \<open>Month::at\<close>, which always
  answers one.\<close>

definition new_attempt ::
  "invocation \<Rightarrow> applicable_grant list \<Rightarrow> month \<Rightarrow> bound \<Rightarrow> u64 \<Rightarrow> u64 \<Rightarrow> attempt" where
  "new_attempt iv grants month b reserved_until reconcile_by =
     \<lparr>at_invocation = iv, at_grants = grants, at_month = month, at_bound = b,
      at_reserved_until = reserved_until, at_reconcile_by = reconcile_by, at_revision = 1,
      at_phase = AReserved, at_usage = None, at_measurements = [], at_unknown_evidence = None,
      at_overrun = False, at_reconciled_with = None\<rparr>"

definition spend_reserve ::
  "connection_state \<Rightarrow> string \<Rightarrow> invocation \<Rightarrow> execution_evidence \<Rightarrow> bound \<Rightarrow> u64 \<Rightarrow> u64 \<Rightarrow> string \<Rightarrow> u64 \<Rightarrow>
     spend_change option outcome" where
  "spend_reserve s i iv ev b reserved_until reconcile_by actor now =
     and_then (require (iv_final_fetch iv = actor \<and> ee_observed ev = iv)
       ''reservation audience or invocation mismatch'') (\<lambda>_.
     case bt_get (st_attempts s) i of
       Some previous \<Rightarrow>
         and_then (require (at_invocation previous = iv \<and> at_bound previous = b \<and>
           at_reserved_until previous = reserved_until \<and> at_reconcile_by previous = reconcile_by)
           ''provider attempt identity collision'') (\<lambda>_. Inr None)
     | None \<Rightarrow>
         and_then (require (0 < bd_tokens b \<and> (bd_money b = None \<or> bd_rate b \<noteq> None))
           ''unsupported conservative request bound'') (\<lambda>_.
         and_then (require (now < reserved_until \<and> reserved_until < reconcile_by)
           ''attempt requires ordered future deadlines'') (\<lambda>_.
         and_then (applicable s iv ev actor) (\<lambda>grants.
         and_then (eligible s (bk_family (ag_budget (hd grants))) b) (\<lambda>_.
         let month = the (month_at now) in
         and_then (within_budgets s month b (budgets grants)) (\<lambda>_.
           Inr (Some (ReservedEv i (new_attempt iv grants month b reserved_until reconcile_by)
             (ee_observation ev)))))))))"

fun spend_advance :: "connection_state \<Rightarrow> attempt \<Rightarrow> spend_operation \<Rightarrow> string \<Rightarrow> u64 \<Rightarrow> spend_change option outcome" where
  "spend_advance s a (Dispatch i ev b) actor now =
     and_then (require (b = at_bound a) ''actual request bound no longer matches reservation'') (\<lambda>_.
     and_then (require (at_phase a = AReserved \<and> now < at_reserved_until a) ''attempt is not dispatchable'') (\<lambda>_.
     and_then (applicable s (at_invocation a) ev actor) (\<lambda>grants.
     and_then (require (grants = at_grants a) ''grant basis changed; re-admit undispatched work'') (\<lambda>_.
     and_then (eligible s (family a) (at_bound a)) (\<lambda>_. Inr (Some (DispatchedEv i (ee_observation ev))))))))"
| "spend_advance s a (Cancel i) actor now =
     and_then (require (at_phase a = AReserved) ''only definite pre-dispatch non-use can release allowance'') (\<lambda>_.
       Inr (Some (ReleasedEv i)))"
| "spend_advance s a (Expire i) actor now =
     and_then (require (at_phase a = AReserved) ''only definite pre-dispatch non-use can release allowance'') (\<lambda>_.
     and_then (require (at_reserved_until a \<le> now) ''reservation deadline has not elapsed'') (\<lambda>_.
       Inr (Some (ReleasedEv i))))"
| "spend_advance s a (OutcomeUnknown i evidence) actor now =
     (if at_phase a = AUnknown \<and> at_unknown_evidence a = Some evidence then Inr None
      else and_then (require (at_phase a = ADispatched) ''unknown outcome requires a dispatched attempt'') (\<lambda>_.
        Inr (Some (OutcomeUnknownEv i evidence))))"
| "spend_advance s a (Settle i u evidence) actor now =
     and_then (measured a u evidence) (\<lambda>fresh.
       case fresh of
         None \<Rightarrow> Inr None
       | Some overrun \<Rightarrow>
           and_then (require (at_phase a = ADispatched \<or> at_phase a = AUnknown)
             ''attempt requires a correction, not another settlement'') (\<lambda>_.
             Inr (Some (SettledEv i u evidence overrun))))"
| "spend_advance s a (ReconcileDeadline i) actor now =
     and_then (require (at_reconcile_by a \<le> now) ''reconciliation deadline has not elapsed'') (\<lambda>_.
       if at_phase a = AAccountedAtBound then Inr None
       else and_then (require (at_phase a = ADispatched \<or> at_phase a = AUnknown)
         ''attempt has no unknown charge to reconcile'') (\<lambda>_. Inr (Some (AccountedAtBoundEv i))))"
| "spend_advance s a (Correct i u evidence) actor now =
     and_then (measured a u evidence) (\<lambda>fresh.
       case fresh of
         None \<Rightarrow> Inr None
       | Some overrun \<Rightarrow>
           and_then (require (at_phase a = ASettled \<or> at_phase a = AAccountedAtBound)
             ''only terminal accounting can be corrected'') (\<lambda>_.
             Inr (Some (CorrectedEv i u evidence overrun))))"
| "spend_advance s a (ReconcileOverrun i repaired evidence) actor now =
     and_then (require (at_overrun a \<and> at_reconciled_with a = None) ''no unreconciled overrun'') (\<lambda>_.
     and_then (require (repaired \<noteq> bd_enforcement (at_bound a) \<and> repaired \<notin> st_failed_enforcements s)
       ''repair must name a new eligible enforcement revision'') (\<lambda>_.
       Inr (Some (OverrunReconciledEv i repaired evidence))))"
| "spend_advance s a (Reserve _ _ _ _ _ _) actor now = Inr None"

definition spend_decide ::
  "connection_state \<Rightarrow> spend_operation \<Rightarrow> string \<Rightarrow> u64 \<Rightarrow> spend_change option outcome" where
  "spend_decide s operation actor now =
     (case operation of
        Reserve i iv ev b reserved_until reconcile_by \<Rightarrow>
          spend_reserve s i iv ev b reserved_until reconcile_by actor now
      | _ \<Rightarrow>
          and_then (find_attempt s (spend_id operation)) (\<lambda>a.
          and_then (require (checked_add (at_revision a) 1 \<noteq> None) ''attempt revision exhausted'') (\<lambda>_.
          and_then (require (spend_capability operation \<in> {CapInvokeProvider, CapObserveUsage} \<longrightarrow>
              iv_final_fetch (at_invocation a) = actor) ''wrong attempt final-fetch actor'') (\<lambda>_.
            spend_advance s a operation actor now))))"

section \<open>Evolution\<close>

definition update_attempt :: "string \<Rightarrow> (attempt \<Rightarrow> attempt) \<Rightarrow> connection_state \<Rightarrow> connection_state" where
  "update_attempt i f s =
     s\<lparr>st_attempts := bt_modify i (\<lambda>a. (f a)\<lparr>at_revision := at_revision a + 1\<rparr>) (st_attempts s)\<rparr>"

definition measure_attempt :: "usage \<Rightarrow> string \<Rightarrow> bool \<Rightarrow> attempt \<Rightarrow> attempt" where
  "measure_attempt u evidence over a =
     (let a' = a\<lparr>at_measurements := bt_insert evidence u (at_measurements a), at_usage := Some u,
                 at_phase := ASettled\<rparr>
      in if over then a'\<lparr>at_overrun := True, at_reconciled_with := None\<rparr> else a')"

definition settle_attempt :: "string \<Rightarrow> usage \<Rightarrow> string \<Rightarrow> bool \<Rightarrow> connection_state \<Rightarrow> connection_state" where
  "settle_attempt i u evidence over s =
     (let s' = update_attempt i (measure_attempt u evidence over) s
      in if over
         then (case bt_get (st_attempts s) i of
                 None \<Rightarrow> s'
               | Some a \<Rightarrow> s'\<lparr>st_failed_enforcements := insert (bd_enforcement (at_bound a)) (st_failed_enforcements s)\<rparr>)
         else s')"

fun spend_evolve :: "connection_state \<Rightarrow> spend_change \<Rightarrow> connection_state" where
  "spend_evolve s (ReservedEv i a _) = s\<lparr>st_attempts := bt_insert i a (st_attempts s)\<rparr>"
| "spend_evolve s (DispatchedEv i _) = update_attempt i (\<lambda>a. a\<lparr>at_phase := ADispatched\<rparr>) s"
| "spend_evolve s (ReleasedEv i) = update_attempt i (\<lambda>a. a\<lparr>at_phase := AReleased\<rparr>) s"
| "spend_evolve s (OutcomeUnknownEv i evidence) =
     update_attempt i (\<lambda>a. a\<lparr>at_unknown_evidence := Some evidence, at_phase := AUnknown\<rparr>) s"
| "spend_evolve s (SettledEv i u evidence over) = settle_attempt i u evidence over s"
| "spend_evolve s (CorrectedEv i u evidence over) = settle_attempt i u evidence over s"
| "spend_evolve s (AccountedAtBoundEv i) = update_attempt i (\<lambda>a. a\<lparr>at_phase := AAccountedAtBound\<rparr>) s"
| "spend_evolve s (OverrunReconciledEv i repaired _) =
     update_attempt i (\<lambda>a. a\<lparr>at_reconciled_with := Some repaired\<rparr>) s"

end
