(* ===== verification/Connection_Lifecycle.thy ===== *)
theory Connection_Lifecycle
  imports Connection_Spend
begin

text \<open>
  The reducer \<open>ModelConnection\<close> of \<open>crates/core/src/model_connection.rs\<close>: the intake, verification,
  activation and erasure of credentials, and the dispatch to grants and spend.
\<close>

section \<open>Commands and events\<close>

datatype connection_operation =
    GrantOp access_operation
  | SpendOp spend_operation
  | BeginIntake string connection_definition "string option" string u64
  | BeginReplacement string string u64
  | RecordSealed string string string
  | RecordVerification string string provider_binding string string verification_check bool
  | Activate string string
  | CancelCandidate string string
  | ExpireCandidate string string
  | Rename string string
  | SetModelPolicy string model_policy
  | SetDefault "model_selection option"
  | Suspend string
  | Resume string
  | Revoke string
  | RequestErasure string
  | RecordMaterialErased string string "string option" string

record connection_command =
  cc_binding :: authority_binding
  cc_actor :: string
  cc_capability :: capability
  cc_basis :: basis
  cc_now :: u64
  cc_operation :: connection_operation

datatype connection_change =
    GrantChange access_change
  | SpendChange spend_change
  | IntakeBegun string connection_definition "string option" string u64
  | ReplacementBegun string string u64
  | CandidateSealed string string string
  | CandidateVerified string string string "verification_check option"
  | CandidateFailed string string string "verification_check option"
  | VersionActivated string string string
  | CandidateCancelled string string
  | CandidateExpired string string
  | ConnectionRenamed string string
  | ModelPolicyChanged string model_policy
  | DefaultChanged "model_selection option"
  | ConnectionSuspended string
  | ConnectionResumed string
  | ConnectionRevoked string
  | ErasureRequested string
  | MaterialErased string string string
  | ConnectionErased string

record connection_event =
  ce_binding :: authority_binding
  ce_actor :: string
  ce_at :: u64
  ce_change :: connection_change

section \<open>Decisions\<close>

fun required_capability :: "connection_operation \<Rightarrow> capability" where
  "required_capability (GrantOp _) = CapManageGrants"
| "required_capability (SpendOp operation) = spend_capability operation"
| "required_capability (RecordSealed _ _ _) = CapSealCandidate"
| "required_capability (RecordVerification _ _ _ _ _ _ _) = CapVerifyCandidate"
| "required_capability (ExpireCandidate _ _) = CapObserveDeadline"
| "required_capability (RecordMaterialErased _ _ _ _) = CapConfirmErasure"
| "required_capability _ = CapManageConnections"

fun closure_permitted :: "connection_operation \<Rightarrow> bool" where
  "closure_permitted (Revoke _) = True"
| "closure_permitted (RequestErasure _) = True"
| "closure_permitted (GrantOp (RevokeGrant _)) = True"
| "closure_permitted _ = False"

fun operation_basis :: "connection_state \<Rightarrow> connection_operation \<Rightarrow> basis \<Rightarrow> unit outcome" where
  "operation_basis s (SpendOp operation) b = check_basis s operation b"
| "operation_basis s _ b = require (b = MetadataBasis (st_revision s)) ''stale connection authority basis''"

text \<open>A candidate version of a connection, both named by the command, and \<open>mutable\<close> with a deadline ahead.\<close>

definition with_candidate ::
  "connection_state \<Rightarrow> string \<Rightarrow> string \<Rightarrow> (connection \<Rightarrow> version \<Rightarrow> 'a outcome) \<Rightarrow> 'a outcome" where
  "with_candidate s i v f = and_then (find_connection s i) (\<lambda>c. and_then (find_candidate c v) (f c))"

definition candidate_open :: "connection \<Rightarrow> version \<Rightarrow> u64 \<Rightarrow> bool" where
  "candidate_open c item now \<longleftrightarrow> mutable c \<and> now < vs_expires_at item"

fun verified_evidence :: "version_phase \<Rightarrow> string option" where
  "verified_evidence (VVerified evidence) = Some evidence"
| "verified_evidence _ = None"

definition decide_mutable :: "connection_state \<Rightarrow> string \<Rightarrow> connection_change \<Rightarrow> connection_change list outcome" where
  "decide_mutable s i change =
     and_then (find_connection s i) (\<lambda>c.
     and_then (require (mutable c) ''connection is terminal'') (\<lambda>_. Inr [change]))"

fun connection_changes ::
  "connection_state \<Rightarrow> string \<Rightarrow> u64 \<Rightarrow> connection_operation \<Rightarrow> connection_change list outcome" where
  "connection_changes s actor now (GrantOp operation) =
     and_then (access_decide s operation) (\<lambda>change. Inr [GrantChange change])"
| "connection_changes s actor now (SpendOp operation) =
     and_then (spend_decide s operation actor now) (\<lambda>change.
       Inr (case change of None \<Rightarrow> [] | Some ch \<Rightarrow> [SpendChange ch]))"
| "connection_changes s actor now (BeginIntake i definition reconnects v expires_at) =
     and_then (require (bt_get (st_connections s) i = None) ''connection identity already exists'') (\<lambda>_.
     and_then (require (now < expires_at) ''candidate deadline must be in the future'') (\<lambda>_.
     and_then (case reconnects of
         None \<Rightarrow> Inr ()
       | Some previous \<Rightarrow>
           and_then (find_connection s previous) (\<lambda>p.
             require (\<not> mutable p \<and> cd_provider (cn_definition p) = cd_provider definition)
               ''reconnection requires a terminal predecessor with the same provider binding'')) (\<lambda>_.
       Inr [IntakeBegun i definition reconnects v expires_at])))"
| "connection_changes s actor now (BeginReplacement i v expires_at) =
     and_then (find_connection s i) (\<lambda>c.
     and_then (require (mutable c) ''connection is terminal'') (\<lambda>_.
     and_then (require (now < expires_at) ''candidate deadline must be in the future'') (\<lambda>_.
     and_then (require (bt_get (cn_versions c) v = None) ''credential version identity already exists'') (\<lambda>_.
     and_then (require (\<not> list_ex (\<lambda>item. version_open (vs_phase item)) (bt_values (cn_versions c)))
       ''finish or cancel the existing candidate'') (\<lambda>_. Inr [ReplacementBegun i v expires_at])))))"
| "connection_changes s actor now (RecordSealed i v handle) =
     with_candidate s i v (\<lambda>c item.
     and_then (require (candidate_open c item now) ''candidate is no longer open'') (\<lambda>_.
     and_then (require (vs_phase item = VAwaitingSecret \<and> vs_material item = Unobserved)
       ''candidate already received material'') (\<lambda>_.
     and_then (require (handle \<notin> st_used_handles s) ''secret handle already belongs to another version'') (\<lambda>_.
       Inr [CandidateSealed i v handle]))))"
| "connection_changes s actor now (RecordVerification i v provider handle evidence check passed) =
     with_candidate s i v (\<lambda>c item.
     and_then (require (candidate_open c item now) ''candidate is no longer open'') (\<lambda>_.
     and_then (require (cd_provider (cn_definition c) = provider)
       ''verification targets a different provider binding'') (\<lambda>_.
     and_then (require (vs_phase item = VSealed \<and> vs_material item = Held handle)
       ''verification targets different or unsealed material'') (\<lambda>_.
       Inr [if passed then CandidateVerified i v evidence (Some check)
            else CandidateFailed i v evidence (Some check)]))))"
| "connection_changes s actor now (Activate i v) =
     with_candidate s i v (\<lambda>c item.
     and_then (require (candidate_open c item now) ''candidate is no longer activatable'') (\<lambda>_.
     case verified_evidence (vs_phase item) of
       None \<Rightarrow> reject ''candidate has not passed verification''
     | Some evidence \<Rightarrow>
         and_then (require (material_held (vs_material item)) ''verified material is unavailable'') (\<lambda>_.
         and_then (require (vs_verification item \<noteq> None)
           ''candidate verification does not identify the tested capability'') (\<lambda>_.
           Inr [VersionActivated i v evidence]))))"
| "connection_changes s actor now (CancelCandidate i v) =
     with_candidate s i v (\<lambda>c item.
     and_then (require (version_open (vs_phase item)) ''candidate is already terminal'') (\<lambda>_.
       Inr [CandidateCancelled i v]))"
| "connection_changes s actor now (ExpireCandidate i v) =
     with_candidate s i v (\<lambda>c item.
     and_then (require (version_open (vs_phase item) \<and> vs_expires_at item \<le> now)
       ''candidate has not expired or is terminal'') (\<lambda>_. Inr [CandidateExpired i v]))"
| "connection_changes s actor now (Rename i name) = decide_mutable s i (ConnectionRenamed i name)"
| "connection_changes s actor now (SetModelPolicy i policy) = decide_mutable s i (ModelPolicyChanged i policy)"
| "connection_changes s actor now (SetDefault selection) =
     and_then (case selection of
         None \<Rightarrow> Inr ()
       | Some value \<Rightarrow>
           and_then (find_connection s (sel_connection value)) (\<lambda>c.
             require (active_version c \<noteq> None \<and> sel_model value \<in> mp_models (cd_policy (cn_definition c)) \<and>
               mp_execution_classes (cd_policy (cn_definition c)) \<noteq> {})
               ''default is not an active approved model'')) (\<lambda>_. Inr [DefaultChanged selection])"
| "connection_changes s actor now (Suspend i) =
     and_then (find_connection s i) (\<lambda>c.
     and_then (require (cn_status c = CActive) ''only active connections may be suspended'') (\<lambda>_.
       Inr [ConnectionSuspended i]))"
| "connection_changes s actor now (Resume i) =
     and_then (find_connection s i) (\<lambda>c.
     and_then (require (cn_status c = CSuspended) ''connection is not suspended'') (\<lambda>_.
     and_then (require
       (case cn_current_version c of
          None \<Rightarrow> False
        | Some v \<Rightarrow> (case bt_get (cn_versions c) v of None \<Rightarrow> False | Some item \<Rightarrow> version_usable item))
       ''current credential is unavailable'') (\<lambda>_. Inr [ConnectionResumed i])))"
| "connection_changes s actor now (Revoke i) =
     and_then (find_connection s i) (\<lambda>c.
     and_then (require (mutable c) ''connection is already terminal'') (\<lambda>_. Inr [ConnectionRevoked i]))"
| "connection_changes s actor now (RequestErasure i) =
     and_then (find_connection s i) (\<lambda>c.
     and_then (require (cn_status c \<noteq> CErased \<and> \<not> cn_erasure_requested c)
       ''erasure is already requested or complete'') (\<lambda>_.
       Inr ((if mutable c then [ConnectionRevoked i] else []) @ [ErasureRequested i] @
            (if material_gone c then [ConnectionErased i] else []))))"
| "connection_changes s actor now (RecordMaterialErased i v expected evidence) =
     with_candidate s i v (\<lambda>c item.
     and_then (require (vs_material item = ErasureRequired expected)
       ''erasure does not match an outstanding cleanup obligation'') (\<lambda>_.
       Inr ([MaterialErased i v evidence] @
            (if cn_erasure_requested c \<and>
                list_all (\<lambda>(key, value). key = v \<or> material_erased (vs_material value)) (cn_versions c)
             then [ConnectionErased i] else []))))"

fun managed :: "connection_change \<Rightarrow> bool" where
  "managed (SpendChange _) = False"
| "managed _ = True"

definition connection_decide :: "connection_state \<Rightarrow> connection_command \<Rightarrow> connection_event list outcome" where
  "connection_decide s cmd =
     and_then (require (st_binding s = None \<or> st_binding s = Some (cc_binding cmd))
       ''wrong connection authority, organization or environment'') (\<lambda>_.
     and_then (operation_basis s (cc_operation cmd) (cc_basis cmd)) (\<lambda>_.
     and_then (require (0 < cc_now cmd \<and> st_last_at s \<le> cc_now cmd) ''invalid or stale observation time'') (\<lambda>_.
     and_then (require (cc_capability cmd = required_capability (cc_operation cmd) \<or>
         (cc_capability cmd = CapOrganizationClosure \<and> closure_permitted (cc_operation cmd)))
       ''operation not permitted by authenticated capability'') (\<lambda>_.
     and_then (connection_changes s (cc_actor cmd) (cc_now cmd) (cc_operation cmd)) (\<lambda>changes.
     and_then (require (checked_add (st_revision s) (word_of_nat (length (filter managed changes))) \<noteq> None)
       ''connection authority revision exhausted'') (\<lambda>_.
       Inr (map (\<lambda>change. \<lparr>ce_binding = cc_binding cmd, ce_actor = cc_actor cmd, ce_at = cc_now cmd,
         ce_change = change\<rparr>) changes)))))))"

section \<open>Evolution\<close>

definition new_version :: "u64 \<Rightarrow> version" where
  "new_version expires_at =
     \<lparr>vs_expires_at = expires_at, vs_phase = VAwaitingSecret, vs_material = Unobserved, vs_verification = None\<rparr>"

text \<open>\<open>stored_connection\<close> and \<open>stored_version\<close> panic on an absent key; no admitted event names one.\<close>

definition update_connection :: "string \<Rightarrow> (connection \<Rightarrow> connection) \<Rightarrow> connection_state \<Rightarrow> connection_state" where
  "update_connection i f s = s\<lparr>st_connections := bt_modify i f (st_connections s)\<rparr>"

definition update_version :: "string \<Rightarrow> string \<Rightarrow> (version \<Rightarrow> version) \<Rightarrow> connection_state \<Rightarrow> connection_state" where
  "update_version i v f = update_connection i (\<lambda>c. c\<lparr>cn_versions := bt_modify v f (cn_versions c)\<rparr>)"

definition close_version :: "version_phase \<Rightarrow> version \<Rightarrow> version" where
  "close_version phase item = item\<lparr>vs_phase := phase, vs_material := require_erasure (vs_material item)\<rparr>"

definition observed_check :: "u64 \<Rightarrow> verification_check option \<Rightarrow> verification option" where
  "observed_check at check = map_option (\<lambda>ch. \<lparr>vf_check = ch, vf_observed_at = at\<rparr>) check"

definition activate_version :: "string \<Rightarrow> string \<Rightarrow> connection \<Rightarrow> connection" where
  "activate_version v evidence c =
     c\<lparr>cn_versions := bt_modify v (\<lambda>item. item\<lparr>vs_phase := VActivated evidence\<rparr>) (cn_versions c),
       cn_current_version := Some v,
       cn_status := if cn_status c = CPending then CActive else cn_status c\<rparr>"

definition begin_intake ::
  "connection_state \<Rightarrow> string \<Rightarrow> connection_definition \<Rightarrow> string option \<Rightarrow> string \<Rightarrow> u64 \<Rightarrow> connection" where
  "begin_intake s i definition reconnects v expires_at =
     \<lparr>cn_definition = definition,
      cn_budget_family =
        (case reconnects of
           None \<Rightarrow> i
         | Some previous \<Rightarrow>
             (case bt_get (st_connections s) previous of None \<Rightarrow> i | Some p \<Rightarrow> cn_budget_family p)),
      cn_status = CPending, cn_versions = [(v, new_version expires_at)], cn_current_version = None,
      cn_erasure_requested = False\<rparr>"

fun evolve_change :: "connection_state \<Rightarrow> u64 \<Rightarrow> connection_change \<Rightarrow> connection_state" where
  "evolve_change s at (GrantChange change) = access_evolve s change"
| "evolve_change s at (SpendChange change) = spend_evolve s change"
| "evolve_change s at (IntakeBegun i definition reconnects v expires_at) =
     s\<lparr>st_connections :=
       bt_insert i (begin_intake s i definition reconnects v expires_at) (st_connections s)\<rparr>"
| "evolve_change s at (ReplacementBegun i v expires_at) =
     update_connection i (\<lambda>c. c\<lparr>cn_versions := bt_insert v (new_version expires_at) (cn_versions c)\<rparr>) s"
| "evolve_change s at (CandidateSealed i v handle) =
     update_version i v (\<lambda>item. item\<lparr>vs_phase := VSealed, vs_material := Held handle\<rparr>)
       (s\<lparr>st_used_handles := insert handle (st_used_handles s)\<rparr>)"
| "evolve_change s at (CandidateVerified i v evidence check) =
     update_version i v (\<lambda>item. item\<lparr>vs_phase := VVerified evidence, vs_verification := observed_check at check\<rparr>) s"
| "evolve_change s at (CandidateFailed i v evidence check) =
     update_version i v (\<lambda>item. close_version (VFailed evidence) (item\<lparr>vs_verification := observed_check at check\<rparr>)) s"
| "evolve_change s at (CandidateCancelled i v) = update_version i v (close_version VCancelled) s"
| "evolve_change s at (CandidateExpired i v) = update_version i v (close_version VExpired) s"
| "evolve_change s at (VersionActivated i v evidence) = update_connection i (activate_version v evidence) s"
| "evolve_change s at (ConnectionRenamed i name) =
     update_connection i (\<lambda>c. c\<lparr>cn_definition := (cn_definition c)\<lparr>cd_name := name\<rparr>\<rparr>) s"
| "evolve_change s at (ModelPolicyChanged i policy) =
     update_connection i (\<lambda>c. c\<lparr>cn_definition := (cn_definition c)\<lparr>cd_policy := policy\<rparr>\<rparr>) s"
| "evolve_change s at (DefaultChanged selection) = s\<lparr>st_default := selection\<rparr>"
| "evolve_change s at (ConnectionSuspended i) = update_connection i (\<lambda>c. c\<lparr>cn_status := CSuspended\<rparr>) s"
| "evolve_change s at (ConnectionResumed i) = update_connection i (\<lambda>c. c\<lparr>cn_status := CActive\<rparr>) s"
| "evolve_change s at (ConnectionRevoked i) = update_connection i revoke s"
| "evolve_change s at (ErasureRequested i) =
     update_connection i (\<lambda>c. (map_versions (\<lambda>item. item\<lparr>vs_material := require_erasure (vs_material item)\<rparr>) c)
       \<lparr>cn_erasure_requested := True\<rparr>) s"
| "evolve_change s at (MaterialErased i v evidence) =
     update_version i v (\<lambda>item. item\<lparr>vs_material := MaterialGone evidence\<rparr>) s"
| "evolve_change s at (ConnectionErased i) = update_connection i (\<lambda>c. c\<lparr>cn_status := CErased\<rparr>) s"

definition connection_evolve :: "connection_state \<Rightarrow> connection_event \<Rightarrow> connection_state" where
  "connection_evolve s e =
     evolve_change
       (s\<lparr>st_binding := Some (ce_binding e),
          st_revision := (if managed (ce_change e) then st_revision s + 1 else st_revision s),
          st_last_at := ce_at e\<rparr>)
       (ce_at e) (ce_change e)"

definition connection_lifecycle ::
  "connection_event serde \<Rightarrow> (connection_state, connection_command, connection_event) lifecycle" where
  "connection_lifecycle sd =
     \<lparr>lc_kind = ''organization-model-connection.v1'', lc_default = connection_default,
      lc_decide = connection_decide, lc_evolve = connection_evolve, lc_serde = sd, lc_snapshot_codec = None\<rparr>"

lemma connection_lifecycle_simps [simp]:
  "lc_kind (connection_lifecycle sd) = ''organization-model-connection.v1''"
  "lc_default (connection_lifecycle sd) = connection_default"
  "lc_decide (connection_lifecycle sd) = connection_decide"
  "lc_evolve (connection_lifecycle sd) = connection_evolve"
  "lc_serde (connection_lifecycle sd) = sd"
  by (simp_all add: connection_lifecycle_def)

end
