(* ===== verification/Connection_Ledger.thy ===== *)
theory Connection_Ledger
  imports Connection_Lifecycle "HOL-Library.Multiset"
begin

text \<open>
  The totals of \<open>spend.rs\<close> against the ledger they summarise: the charges of a budget in a month are a
  multiset, and the 128-bit totals the code folds out of the attempts are its exact sums.
\<close>

section \<open>Charges\<close>

type_synonym charge = "u64 \<times> money option"

definition charge_in :: "currency \<Rightarrow> charge \<Rightarrow> nat" where
  "charge_in c x = (case snd x of None \<Rightarrow> 0 | Some m \<Rightarrow> if mn_currency m = c then unat (mn_micros m) else 0)"

definition charge_tokens :: "charge \<Rightarrow> nat" where
  "charge_tokens x = unat (fst x)"

definition charged :: "attempt \<Rightarrow> charge multiset" where
  "charged a = (case counted a of None \<Rightarrow> {#} | Some x \<Rightarrow> {#x#})"

definition ledger :: "connection_state \<Rightarrow> budget_key \<Rightarrow> month \<Rightarrow> charge multiset" where
  "ledger s k m =
     (\<Sum>a \<leftarrow> filter (\<lambda>a. at_month a = m \<and> charges a k) (bt_values (st_attempts s)). charged a)"

definition summarises :: "u128 \<Rightarrow> (currency, u128) btree \<Rightarrow> bool \<Rightarrow> charge multiset \<Rightarrow> bool" where
  "summarises tokens m unknown M \<longleftrightarrow>
     bt_wf m \<and> unat tokens = (\<Sum>x \<in># M. charge_tokens x) \<and>
     (\<forall>c. unat (amount_at m c) = (\<Sum>x \<in># M. charge_in c x)) \<and>
     set (bt_keys m) = {mn_currency v |v. Some v \<in> snd ` set_mset M} \<and>
     (unknown \<longleftrightarrow> None \<in> snd ` set_mset M)"

abbreviation totals_of :: "spend_totals \<Rightarrow> charge multiset \<Rightarrow> bool" where
  "totals_of t M \<equiv> summarises (tt_tokens t) (tt_money t) (tt_unknown_money t) M"

lemma unat_ucast_u128 [simp]: "unat (ucast (x :: u64) :: u128) = unat x"
proof -
  have "unat x < 2 ^ 64" using unsigned_less [of x] by simp
  then have "unat x < 2 ^ 128" by (rule less_le_trans) simp
  then show ?thesis by (simp add: unsigned_ucast_eq take_bit_nat_eq_self)
qed

lemma amount_at_insert: "bt_wf m \<Longrightarrow> amount_at (bt_insert c x m) d = (if d = c then x else amount_at m d)"
  by (simp add: amount_at_def bt_get_insert)

lemma bt_keys_insert: "set (bt_keys (bt_insert k v m)) = insert k (set (bt_keys m))"
  using fst_bt_insert [of k v m] by (simp add: bt_keys_def)

lemma add_money_exact:
  assumes "add_money m xs = Inr m'" and "bt_wf m" and "distinct (map fst xs)"
  shows "bt_wf m' \<and> (\<forall>c. unat (amount_at m' c) = unat (amount_at m c) + unat (amount_at xs c)) \<and>
    set (bt_keys m') = set (bt_keys m) \<union> set (bt_keys xs)"
  using assms
proof (induction m xs rule: add_money.induct)
  case (1 m)
  then show ?case by (simp add: amount_at_def bt_get_def bt_keys_def)
next
  case (2 m c x rest)
  then obtain t where t: "checked_add (amount_at m c) x = Some t" by (auto split: option.splits)
  have "map_of rest c = None" using "2.prems"(3) by (simp add: map_of_eq_None_iff)
  then have absent: "amount_at rest c = 0" by (simp add: amount_at_def bt_get_def)
  have ih: "bt_wf m' \<and> (\<forall>d. unat (amount_at m' d) = unat (amount_at (bt_insert c t m) d) + unat (amount_at rest d)) \<and>
      set (bt_keys m') = set (bt_keys (bt_insert c t m)) \<union> set (bt_keys rest)"
    using "2.IH" [OF t] "2.prems" t by (simp add: bt_wf_insert)
  have "amount_at ((c, x) # rest) d = (if d = c then x else amount_at rest d)" for d
    by (simp add: amount_at_def bt_get_def)
  with ih absent checked_add_Some [OF t] "2.prems"(2) show ?case
    by (auto simp: amount_at_insert bt_keys_insert) (auto simp: bt_keys_def)
qed

lemma totals_add_exact:
  assumes add: "totals_add t tokens m unknown = Inr t'"
    and t: "totals_of t M" and n: "summarises tokens m unknown N"
  shows "totals_of t' (M + N)"
proof -
  obtain total m' where total: "checked_add (tt_tokens t) tokens = Some total"
    and m': "add_money (tt_money t) m = Inr m'"
    and t': "t' = t\<lparr>tt_tokens := total, tt_money := m', tt_unknown_money := tt_unknown_money t \<or> unknown\<rparr>"
    using add by (auto simp: totals_add_def and_then_Inr split: option.splits)
  have "distinct (map fst m)" using n by (simp add: summarises_def bt_wf_distinct)
  with add_money_exact [OF m'] t have "bt_wf m'"
    "\<And>c. unat (amount_at m' c) = unat (amount_at (tt_money t) c) + unat (amount_at m c)"
    "set (bt_keys m') = set (bt_keys (tt_money t)) \<union> set (bt_keys m)"
    by (simp_all add: summarises_def)
  with t n checked_add_Some [OF total] show ?thesis
    unfolding summarises_def t' by auto
qed

lemma single_exact:
  "summarises (ucast (fst x)) (case snd x of None \<Rightarrow> [] | Some v \<Rightarrow> [(mn_currency v, ucast (mn_micros v))])
     (snd x = None) {#x#}"
  by (cases x; cases "snd x")
    (auto simp: summarises_def charge_tokens_def charge_in_def amount_at_def bt_get_def bt_keys_def bt_wf_def)

lemma none_exact: "totals_of totals_default {#}"
  by (simp add: summarises_def totals_default_def amount_at_def bt_get_def bt_keys_def bt_wf_def)

lemma add_charge_exact: "add_charge t x = Inr t' \<Longrightarrow> totals_of t M \<Longrightarrow> totals_of t' (add_mset x M)"
  using totals_add_exact [OF _ _ single_exact, of t x t' M] by (simp add: add_charge_def)

section \<open>Periods\<close>

definition period_of :: "spend_period \<Rightarrow> charge multiset \<Rightarrow> bool" where
  "period_of u M \<longleftrightarrow> (\<exists>A B C. totals_of (pu_measured u) A \<and> totals_of (pu_reserved u) B \<and>
     totals_of (pu_accounted_at_bound u) C \<and> M = A + B + C)"

lemma period_default_of: "period_of period_default {#}"
  by (auto simp: period_of_def period_default_def intro: none_exact)

lemma count_bucket_exact:
  assumes "count_bucket u p x = Inr u'" and "period_of u M"
  shows "period_of u' (add_mset x M)"
proof -
  obtain A B C where parts: "totals_of (pu_measured u) A" "totals_of (pu_reserved u) B"
    "totals_of (pu_accounted_at_bound u) C" and M: "M = A + B + C"
    using assms(2) by (auto simp: period_of_def)
  consider t where "add_charge (pu_measured u) x = Inr t" "u' = u\<lparr>pu_measured := t\<rparr>"
    | t where "add_charge (pu_reserved u) x = Inr t" "u' = u\<lparr>pu_reserved := t\<rparr>"
    | t where "add_charge (pu_accounted_at_bound u) x = Inr t" "u' = u\<lparr>pu_accounted_at_bound := t\<rparr>"
    using assms(1) by (cases p) (auto simp: count_bucket_def and_then_Inr)
  then show ?thesis
  proof cases
    case (1 t)
    with parts M show ?thesis unfolding period_of_def
      by (intro exI [of _ "add_mset x A"] exI [of _ B] exI [of _ C]) (simp add: add_charge_exact)
  next
    case (2 t)
    with parts M show ?thesis unfolding period_of_def
      by (intro exI [of _ A] exI [of _ "add_mset x B"] exI [of _ C]) (simp add: add_charge_exact)
  next
    case (3 t)
    with parts M show ?thesis unfolding period_of_def
      by (intro exI [of _ A] exI [of _ B] exI [of _ "add_mset x C"]) (simp add: add_charge_exact)
  qed
qed

lemma period_of_outcomes [simp]: "period_of (u\<lparr>pu_unknown_outcomes := n\<rparr>) M \<longleftrightarrow> period_of u M"
  by (simp add: period_of_def)

lemma count_attempt_exact: "count_attempt u a = Inr u' \<Longrightarrow> period_of u M \<Longrightarrow> period_of u' (charged a + M)"
  using count_bucket_exact [of u "at_phase a" "the (counted a)" _ M]
  by (auto simp: count_attempt_def charged_def and_then_Inr split: option.splits if_splits)

lemma foldl_and_then_Inl: "foldl (\<lambda>r a. and_then r (\<lambda>u. f u a)) (Inl e) xs = Inl e"
  by (induction xs) auto

lemma count_attempts_exact:
  assumes "foldl (\<lambda>r a. and_then r (\<lambda>u. count_attempt u a)) (Inr u) as = Inr u'" and "period_of u M"
  shows "period_of u' ((\<Sum>a \<leftarrow> as. charged a) + M)"
  using assms
proof (induction as arbitrary: u M)
  case Nil
  then show ?case by simp
next
  case (Cons a as)
  obtain v where v: "count_attempt u a = Inr v"
    using Cons.prems(1) by (cases "count_attempt u a") (auto simp: foldl_and_then_Inl)
  from Cons.IH [of v "charged a + M"] Cons.prems count_attempt_exact [OF v Cons.prems(2)] v
  show ?case by (simp add: ac_simps)
qed

lemma period_usage_exact: "period_usage s k m = Inr u \<Longrightarrow> period_of u (ledger s k m)"
  using count_attempts_exact [OF _ period_default_of] by (fastforce simp: period_usage_def ledger_def)

lemma period_total_exact:
  assumes "period_total u = Inr t" and "period_of u M"
  shows "totals_of t M"
proof -
  obtain A B C where parts: "totals_of (pu_measured u) A" "totals_of (pu_reserved u) B"
    "totals_of (pu_accounted_at_bound u) C" and M: "M = {#} + A + B + C"
    using assms(2) by (auto simp: period_of_def)
  have "\<exists>x y. totals_add totals_default (tt_tokens (pu_measured u)) (tt_money (pu_measured u))
      (tt_unknown_money (pu_measured u)) = Inr x \<and>
    totals_add x (tt_tokens (pu_reserved u)) (tt_money (pu_reserved u)) (tt_unknown_money (pu_reserved u)) = Inr y \<and>
    totals_add y (tt_tokens (pu_accounted_at_bound u)) (tt_money (pu_accounted_at_bound u))
      (tt_unknown_money (pu_accounted_at_bound u)) = Inr t"
    using assms(1) by (auto simp: period_total_def and_then_Inr)
  then show ?thesis unfolding M by (meson totals_add_exact none_exact parts)
qed

lemma totals_exact: "totals s k m = Inr t \<Longrightarrow> totals_of t (ledger s k m)"
  using period_total_exact period_usage_exact by (auto simp: totals_def and_then_Inr)

section \<open>The totals never overflow\<close>

text \<open>
  A charge is below \<open>2 ^ 64\<close> in every dimension, so fewer than \<open>2 ^ 64\<close> of them stay below \<open>2 ^ 128\<close>.
\<close>

lemma sum_below:
  assumes "size M < 2 ^ 64" and "\<And>x. f x < (2 :: nat) ^ 64"
  shows "(\<Sum>x \<in># M. f x) < 2 ^ 128"
proof -
  have "(\<Sum>x \<in># M. f x) \<le> size M * (2 ^ 64)"
  proof (induction M)
    case (add x M)
    then show ?case using assms(2) [of x] by simp
  qed simp
  also have "\<dots> < 2 ^ 64 * 2 ^ 64" using assms(1) by (intro mult_strict_right_mono) simp_all
  finally show ?thesis by simp
qed

lemma charge_below: "charge_tokens x < 2 ^ 64" "charge_in c x < 2 ^ 64"
proof -
  have "unat (w :: u64) < 2 ^ 64" for w using unsigned_less [of w] by simp
  then show "charge_tokens x < 2 ^ 64" "charge_in c x < 2 ^ 64"
    by (auto simp: charge_tokens_def charge_in_def split: option.splits)
qed

lemma checked_add_ok: "unat (a :: u128) + unat b < 2 ^ 128 \<Longrightarrow> checked_add a b = Some (a + b)"
  by (simp add: checked_add_def)

lemma add_money_ok:
  assumes "bt_wf m" and "distinct (map fst xs)"
    and "\<And>c. unat (amount_at m c) + unat (amount_at xs c) < 2 ^ 128"
  shows "is_ok (add_money m xs)"
  using assms
proof (induction m xs rule: add_money.induct)
  case (2 m c x rest)
  have entry: "amount_at ((c, x) # rest) d = (if d = c then x else amount_at rest d)" for d
    by (simp add: amount_at_def bt_get_def)
  have "map_of rest c = None" using "2.prems"(2) by (simp add: map_of_eq_None_iff)
  then have absent: "amount_at rest c = 0" by (simp add: amount_at_def bt_get_def)
  have t: "checked_add (amount_at m c) x = Some (amount_at m c + x)"
    using "2.prems"(3) [of c] by (intro checked_add_ok) (simp add: entry)
  have "unat (amount_at (bt_insert c (amount_at m c + x) m) d) + unat (amount_at rest d) < 2 ^ 128" for d
    using "2.prems"(1) "2.prems"(3) [of d] absent checked_add_Some [OF t]
    by (auto simp: amount_at_insert entry split: if_splits)
  with "2.IH" [OF t] "2.prems" t show ?case by (simp add: bt_wf_insert)
qed simp

lemma totals_add_ok:
  assumes t: "totals_of t M" and n: "summarises tokens m unknown N" and small: "size (M + N) < 2 ^ 64"
  shows "is_ok (totals_add t tokens m unknown)"
proof -
  have "unat (tt_tokens t) + unat tokens < 2 ^ 128"
    using sum_below [OF small, of charge_tokens] charge_below t n by (simp add: summarises_def)
  note tokens = checked_add_ok [OF this]
  have "unat (amount_at (tt_money t) c) + unat (amount_at m c) < 2 ^ 128" for c
    using sum_below [OF small, of "charge_in c"] charge_below t n by (simp add: summarises_def)
  then have "is_ok (add_money (tt_money t) m)"
    using t n by (intro add_money_ok) (simp_all add: summarises_def bt_wf_distinct)
  with tokens show ?thesis by (auto simp: totals_add_def)
qed

definition period_counts :: "spend_period \<Rightarrow> charge multiset \<Rightarrow> bool" where
  "period_counts u M \<longleftrightarrow> period_of u M \<and> unat (pu_unknown_outcomes u) \<le> size M"

lemma add_charge_ok:
  assumes "totals_of t M" and "Suc (size M) < 2 ^ 64"
  shows "is_ok (add_charge t x)"
  using totals_add_ok [OF assms(1) single_exact [of x]] assms(2) by (simp add: add_charge_def)

lemma count_bucket_ok:
  assumes "period_of u M" and "Suc (size M) < 2 ^ 64"
  shows "\<exists>u'. count_bucket u p x = Inr u' \<and> pu_unknown_outcomes u' = pu_unknown_outcomes u"
proof -
  obtain A B C where parts: "totals_of (pu_measured u) A" "totals_of (pu_reserved u) B"
    "totals_of (pu_accounted_at_bound u) C" and M: "M = A + B + C"
    using assms(1) by (auto simp: period_of_def)
  have "is_ok (add_charge (pu_measured u) x)" "is_ok (add_charge (pu_reserved u) x)"
    "is_ok (add_charge (pu_accounted_at_bound u) x)"
    using assms(2) M by (auto intro: add_charge_ok [OF parts(1)] add_charge_ok [OF parts(2)] add_charge_ok [OF parts(3)])
  then show ?thesis by (cases p) (auto simp: count_bucket_def)
qed

lemma count_attempt_ok:
  assumes "period_counts u M" and "Suc (size M) < 2 ^ 64"
  shows "\<exists>u'. count_attempt u a = Inr u' \<and> period_counts u' (charged a + M)"
proof (cases "counted a")
  case None
  with assms show ?thesis by (simp add: count_attempt_def charged_def)
next
  case (Some x)
  from count_bucket_ok [of u M "at_phase a" x] assms obtain v where
    v: "count_bucket u (at_phase a) x = Inr v" "pu_unknown_outcomes v = pu_unknown_outcomes u"
    by (auto simp: period_counts_def)
  have "unat (pu_unknown_outcomes u) + 1 < 2 ^ 64" using assms by (simp add: period_counts_def)
  then have n: "checked_add (pu_unknown_outcomes u) 1 = Some (pu_unknown_outcomes u + 1)"
    by (simp add: checked_add_def)
  have "\<exists>u'. count_attempt u a = Inr u' \<and> unat (pu_unknown_outcomes u') \<le> Suc (size M)"
    using Some v n checked_add_Some [OF n] assms(1) by (auto simp: count_attempt_def period_counts_def)
  with Some count_attempt_exact [of u a _ M] assms(1) show ?thesis
    by (auto simp: period_counts_def charged_def)
qed

lemma size_charged: "size (charged a) \<le> 1"
  by (simp add: charged_def split: option.split)

lemma count_attempts_ok:
  assumes "period_counts u M" and "size M + length as < 2 ^ 64"
  shows "is_ok (foldl (\<lambda>r a. and_then r (\<lambda>u. count_attempt u a)) (Inr u) as)"
  using assms
proof (induction as arbitrary: u M)
  case (Cons a as)
  from count_attempt_ok [of u M a] Cons.prems obtain v where
    v: "count_attempt u a = Inr v" "period_counts v (charged a + M)" by auto
  have "size (charged a + M) + length as < 2 ^ 64" using Cons.prems(2) size_charged [of a] by simp
  from Cons.IH [OF v(2) this] v(1) show ?case by simp
qed simp

lemma size_ledger: "size (ledger s k m) \<le> length (st_attempts s)"
proof -
  have "size (\<Sum>a \<leftarrow> as. charged a) \<le> length as" for as
    by (induction as) (auto simp: add.commute intro: order_trans [OF add_mono [OF size_charged]])
  from this [of "filter (\<lambda>a. at_month a = m \<and> charges a k) (bt_values (st_attempts s))"] show ?thesis
    by (simp add: ledger_def bt_values_def) (meson length_filter_le order_trans length_map)
qed

lemma period_total_ok:
  assumes "period_of u M" and "size M < 2 ^ 64"
  shows "is_ok (period_total u)"
proof -
  obtain A B C where parts: "totals_of (pu_measured u) A" "totals_of (pu_reserved u) B"
    "totals_of (pu_accounted_at_bound u) C" and M: "M = {#} + A + B + C"
    using assms(1) by (auto simp: period_of_def)
  obtain x where x: "totals_add totals_default (tt_tokens (pu_measured u)) (tt_money (pu_measured u))
      (tt_unknown_money (pu_measured u)) = Inr x"
    using totals_add_ok [OF none_exact parts(1)] assms(2) M by auto
  note xA = totals_add_exact [OF x none_exact parts(1)]
  obtain y where y: "totals_add x (tt_tokens (pu_reserved u)) (tt_money (pu_reserved u))
      (tt_unknown_money (pu_reserved u)) = Inr y"
    using totals_add_ok [OF xA parts(2)] assms(2) M by auto
  from totals_add_ok [OF totals_add_exact [OF y xA parts(2)] parts(3)] assms(2) M x y show ?thesis
    by (auto simp: period_total_def)
qed

lemma totals_ok:
  assumes "length (st_attempts s) < 2 ^ 64"
  shows "is_ok (totals s k m)"
proof -
  have "length (filter (\<lambda>a. at_month a = m \<and> charges a k) (bt_values (st_attempts s))) \<le> length (st_attempts s)"
    using length_filter_le [of _ "bt_values (st_attempts s)"] by (simp add: bt_values_def)
  moreover have "period_counts period_default {#}"
    using period_default_of by (simp add: period_counts_def period_default_def)
  ultimately have "is_ok (period_usage s k m)" unfolding period_usage_def
    using assms by (intro count_attempts_ok [of _ "{#}"]) simp_all
  then obtain u where u: "period_usage s k m = Inr u" by blast
  have "size (ledger s k m) < 2 ^ 64" using size_ledger [of s k m] assms by simp
  with period_total_ok [OF period_usage_exact [OF u]] u show ?thesis by (simp add: totals_def)
qed

end
