(* ===== verification/Connection_Standing.thy ===== *)
theory Connection_Standing
  imports Connection_Ledger
begin

text \<open>
  What holds of every state of the model-connection reducer: the custody of secrets, the budget of every
  grant and the charges of every attempt. \<open>change_admitted\<close> is the contract between \<open>decide\<close> and
  \<open>evolve\<close>: what a change that \<open>decide\<close> admitted may rely on.
\<close>

section \<open>Admitted changes\<close>

definition attempt_is :: "connection_state \<Rightarrow> string \<Rightarrow> (attempt \<Rightarrow> bool) \<Rightarrow> bool" where
  "attempt_is s i P \<longleftrightarrow> (\<exists>a. bt_get (st_attempts s) i = Some a \<and> P a)"

definition connection_is :: "connection_state \<Rightarrow> string \<Rightarrow> (connection \<Rightarrow> bool) \<Rightarrow> bool" where
  "connection_is s i P \<longleftrightarrow> (\<exists>c. bt_get (st_connections s) i = Some c \<and> P c)"

definition version_is :: "connection \<Rightarrow> string \<Rightarrow> (version \<Rightarrow> bool) \<Rightarrow> bool" where
  "version_is c v P \<longleftrightarrow> (\<exists>item. bt_get (cn_versions c) v = Some item \<and> P item)"

definition budget_of :: "connection_state \<Rightarrow> grant \<Rightarrow> bool" where
  "budget_of s g \<longleftrightarrow> connection_is s (gd_connection (gr_definition g))
     (\<lambda>c. gr_budget g = BudgetKey (cn_budget_family c) (gd_subject (gr_definition g)))"

fun grant_admitted :: "connection_state \<Rightarrow> access_change \<Rightarrow> bool" where
  "grant_admitted s (GrantCreated i g _) \<longleftrightarrow> bt_get (st_grants s) i = None \<and> budget_of s g"
| "grant_admitted s (CapsChanged i _) \<longleftrightarrow> bt_get (st_grants s) i \<noteq> None"
| "grant_admitted s (GrantEdited i _ _ _) \<longleftrightarrow> bt_get (st_grants s) i \<noteq> None"
| "grant_admitted s (GrantSuspended i) \<longleftrightarrow> bt_get (st_grants s) i \<noteq> None"
| "grant_admitted s (GrantResumed i _) \<longleftrightarrow> bt_get (st_grants s) i \<noteq> None"
| "grant_admitted s (GrantRevoked i) \<longleftrightarrow> bt_get (st_grants s) i \<noteq> None"

definition reservable :: "connection_state \<Rightarrow> string \<Rightarrow> u64 \<Rightarrow> attempt \<Rightarrow> bool" where
  "reservable s actor now a \<longleftrightarrow>
     (\<exists>ev. applicable s (at_invocation a) ev actor = Inr (at_grants a)) \<and>
     a = new_attempt (at_invocation a) (at_grants a) (the (month_at now)) (at_bound a) (at_reserved_until a)
       (at_reconcile_by a) \<and>
     now < at_reserved_until a \<and>
     eligible s (family a) (at_bound a) = Inr () \<and>
     within_budgets s (at_month a) (at_bound a) (budgets (at_grants a)) = Inr ()"

definition dispatchable :: "connection_state \<Rightarrow> string \<Rightarrow> u64 \<Rightarrow> attempt \<Rightarrow> bool" where
  "dispatchable s actor now a \<longleftrightarrow>
     at_phase a = AReserved \<and> now < at_reserved_until a \<and>
     (\<exists>ev. applicable s (at_invocation a) ev actor = Inr (at_grants a)) \<and>
     eligible s (family a) (at_bound a) = Inr ()"

fun spend_admitted :: "connection_state \<Rightarrow> string \<Rightarrow> u64 \<Rightarrow> spend_change \<Rightarrow> bool" where
  "spend_admitted s actor now (ReservedEv i a _) \<longleftrightarrow> bt_get (st_attempts s) i = None \<and> reservable s actor now a"
| "spend_admitted s actor now (DispatchedEv i _) \<longleftrightarrow> attempt_is s i (dispatchable s actor now)"
| "spend_admitted s actor now (ReleasedEv i) \<longleftrightarrow> attempt_is s i (\<lambda>a. at_phase a = AReserved)"
| "spend_admitted s actor now (OutcomeUnknownEv i _) \<longleftrightarrow> attempt_is s i (\<lambda>a. at_phase a = ADispatched)"
| "spend_admitted s actor now (SettledEv i u e over) \<longleftrightarrow>
     attempt_is s i (\<lambda>a. at_phase a \<in> {ADispatched, AUnknown} \<and> measured a u e = Inr (Some over))"
| "spend_admitted s actor now (AccountedAtBoundEv i) \<longleftrightarrow> attempt_is s i (\<lambda>a. at_phase a \<in> {ADispatched, AUnknown})"
| "spend_admitted s actor now (CorrectedEv i u e over) \<longleftrightarrow>
     attempt_is s i (\<lambda>a. at_phase a \<in> {ASettled, AAccountedAtBound} \<and> measured a u e = Inr (Some over))"
| "spend_admitted s actor now (OverrunReconciledEv i r _) \<longleftrightarrow>
     attempt_is s i (\<lambda>a. at_overrun a \<and> at_reconciled_with a = None \<and> r \<notin> st_failed_enforcements s)"

fun change_admitted :: "connection_state \<Rightarrow> string \<Rightarrow> u64 \<Rightarrow> connection_change \<Rightarrow> bool" where
  "change_admitted s actor now (GrantChange ch) \<longleftrightarrow> grant_admitted s ch"
| "change_admitted s actor now (SpendChange ch) \<longleftrightarrow> spend_admitted s actor now ch"
| "change_admitted s actor now (IntakeBegun i d r v x) \<longleftrightarrow>
     bt_get (st_connections s) i = None \<and> (\<forall>p. r = Some p \<longrightarrow> connection_is s p (\<lambda>c. \<not> mutable c))"
| "change_admitted s actor now (ReplacementBegun i v x) \<longleftrightarrow>
     connection_is s i (\<lambda>c. mutable c \<and> bt_get (cn_versions c) v = None \<and>
       (\<forall>w. \<not> version_is c w (\<lambda>item. version_open (vs_phase item))))"
| "change_admitted s actor now (CandidateSealed i v h) \<longleftrightarrow>
     connection_is s i (\<lambda>c. mutable c \<and> version_is c v (\<lambda>item. vs_phase item = VAwaitingSecret)) \<and>
     h \<notin> st_used_handles s"
| "change_admitted s actor now (CandidateVerified i v e ch) \<longleftrightarrow>
     connection_is s i (\<lambda>c. mutable c \<and> version_is c v (\<lambda>item. vs_phase item = VSealed)) \<and> ch \<noteq> None"
| "change_admitted s actor now (CandidateFailed i v e ch) \<longleftrightarrow>
     connection_is s i (\<lambda>c. mutable c \<and> version_is c v (\<lambda>item. vs_phase item = VSealed)) \<and> ch \<noteq> None"
| "change_admitted s actor now (VersionActivated i v e) \<longleftrightarrow>
     connection_is s i (\<lambda>c. mutable c \<and> version_is c v (\<lambda>item. vs_phase item = VVerified e))"
| "change_admitted s actor now (CandidateCancelled i v) \<longleftrightarrow>
     connection_is s i (\<lambda>c. version_is c v (\<lambda>item. version_open (vs_phase item)))"
| "change_admitted s actor now (CandidateExpired i v) \<longleftrightarrow>
     connection_is s i (\<lambda>c. version_is c v (\<lambda>item. version_open (vs_phase item)))"
| "change_admitted s actor now (ConnectionRenamed i _) \<longleftrightarrow> connection_is s i mutable"
| "change_admitted s actor now (ModelPolicyChanged i _) \<longleftrightarrow> connection_is s i mutable"
| "change_admitted s actor now (DefaultChanged _) \<longleftrightarrow> True"
| "change_admitted s actor now (ConnectionSuspended i) \<longleftrightarrow> connection_is s i (\<lambda>c. cn_status c = CActive)"
| "change_admitted s actor now (ConnectionResumed i) \<longleftrightarrow> connection_is s i (\<lambda>c. cn_status c = CSuspended)"
| "change_admitted s actor now (ConnectionRevoked i) \<longleftrightarrow> connection_is s i mutable"
| "change_admitted s actor now (ErasureRequested i) \<longleftrightarrow> connection_is s i (\<lambda>c. \<not> mutable c)"
| "change_admitted s actor now (MaterialErased i v _) \<longleftrightarrow>
     connection_is s i (\<lambda>c. version_is c v (\<lambda>item. \<exists>h. vs_material item = ErasureRequired h))"
| "change_admitted s actor now (ConnectionErased i) \<longleftrightarrow>
     connection_is s i (\<lambda>c. cn_erasure_requested c \<and> material_gone c)"

definition event_admitted :: "connection_state \<Rightarrow> connection_event \<Rightarrow> bool" where
  "event_admitted s e = change_admitted s (ce_actor e) (ce_at e) (ce_change e)"

fun events_admitted :: "connection_state \<Rightarrow> connection_event list \<Rightarrow> bool" where
  "events_admitted s [] = True"
| "events_admitted s (e # es) \<longleftrightarrow> event_admitted s e \<and> events_admitted (connection_evolve s e) es"

text \<open>The three fields every event updates do not bear on what a change may rely on.\<close>

definition stamp :: "connection_event \<Rightarrow> connection_state \<Rightarrow> connection_state" where
  "stamp e s = s\<lparr>st_binding := Some (ce_binding e),
     st_revision := (if managed (ce_change e) then st_revision s + 1 else st_revision s), st_last_at := ce_at e\<rparr>"

lemma connection_evolve_stamp: "connection_evolve s e = evolve_change (stamp e s) (ce_at e) (ce_change e)"
  by (simp add: connection_evolve_def stamp_def)

lemma stamp_simps [simp]:
  "st_connections (stamp e s) = st_connections s" "st_grants (stamp e s) = st_grants s"
  "st_attempts (stamp e s) = st_attempts s" "st_used_handles (stamp e s) = st_used_handles s"
  "st_failed_enforcements (stamp e s) = st_failed_enforcements s"
  by (simp_all add: stamp_def)

lemma is_stamp [simp]:
  "attempt_is (stamp e s) i P = attempt_is s i P" "connection_is (stamp e s) i Q = connection_is s i Q"
  "budget_of (stamp e s) g = budget_of s g"
  by (simp_all add: attempt_is_def connection_is_def budget_of_def)

lemma is_simps [simp]:
  "attempt_is (s\<lparr>st_connections := x\<rparr>) i P = attempt_is s i P"
  "attempt_is (s\<lparr>st_grants := y\<rparr>) i P = attempt_is s i P"
  "connection_is (s\<lparr>st_attempts := z\<rparr>) i Q = connection_is s i Q"
  "connection_is (s\<lparr>st_grants := y\<rparr>) i Q = connection_is s i Q"
  "connection_is (s\<lparr>st_failed_enforcements := f\<rparr>) i Q = connection_is s i Q"
  "connection_is (s\<lparr>st_used_handles := f\<rparr>) i Q = connection_is s i Q"
  "connection_is (s\<lparr>st_default := d\<rparr>) i Q = connection_is s i Q"
  by (simp_all add: attempt_is_def connection_is_def)

section \<open>Custody\<close>

fun handle_of :: "material \<Rightarrow> string option" where
  "handle_of (Held h) = Some h"
| "handle_of (ErasureRequired h) = h"
| "handle_of _ = None"

fun material_due :: "material \<Rightarrow> bool" where
  "material_due (ErasureRequired _) = True"
| "material_due (MaterialGone _) = True"
| "material_due _ = False"

fun phase_material :: "version_phase \<Rightarrow> material \<Rightarrow> bool" where
  "phase_material VAwaitingSecret m = (m = Unobserved)"
| "phase_material VSealed m = material_held m"
| "phase_material (VVerified _) m = material_held m"
| "phase_material (VActivated _) m = (material_held m \<or> material_due m)"
| "phase_material _ m = material_due m"

definition version_ok :: "connection \<Rightarrow> version \<Rightarrow> bool" where
  "version_ok c item \<longleftrightarrow>
     (version_open (vs_phase item) \<longrightarrow> mutable c) \<and> phase_material (vs_phase item) (vs_material item) \<and>
     (cn_erasure_requested c \<longrightarrow> material_due (vs_material item)) \<and>
     (cn_status c = CErased \<longrightarrow> material_erased (vs_material item)) \<and>
     (\<forall>e. vs_phase item \<in> {VVerified e, VActivated e} \<longrightarrow> vs_verification item \<noteq> None)"

definition custody_ok :: "connection \<Rightarrow> bool" where
  "custody_ok c \<longleftrightarrow>
     bt_wf (cn_versions c) \<and> (\<forall>v item. bt_get (cn_versions c) v = Some item \<longrightarrow> version_ok c item) \<and>
     (cn_erasure_requested c \<longrightarrow> \<not> mutable c) \<and> (cn_status c = CErased \<longrightarrow> cn_erasure_requested c) \<and>
     (\<forall>v. cn_current_version c = Some v \<longrightarrow> version_is c v (\<lambda>item. version_activated (vs_phase item)))"

definition connections_ok :: "connection_state \<Rightarrow> bool" where
  "connections_ok s \<longleftrightarrow> bt_wf (st_connections s) \<and> (\<forall>i c. bt_get (st_connections s) i = Some c \<longrightarrow> custody_ok c)"

lemma require_erasure_due [simp]: "material_due (require_erasure m)" "handle_of (require_erasure m) = handle_of m"
  "material_erased (require_erasure m) = material_erased m"
  by (cases m; simp)+

lemma material_erased_due: "material_erased m \<Longrightarrow> material_due m"
  by (cases m) auto

lemma update_connection_get [simp]:
  "bt_get (st_connections (update_connection i f s)) j =
     (if j = i then map_option f (bt_get (st_connections s) j) else bt_get (st_connections s) j)"
  by (simp add: update_connection_def bt_get_modify)

lemma update_connection_simps [simp]:
  "st_grants (update_connection i f s) = st_grants s" "st_attempts (update_connection i f s) = st_attempts s"
  "st_used_handles (update_connection i f s) = st_used_handles s"
  "st_failed_enforcements (update_connection i f s) = st_failed_enforcements s"
  by (simp_all add: update_connection_def)

lemma connections_ok_update:
  assumes "connections_ok s" and "connection_is s i P"
    and "\<And>c. bt_get (st_connections s) i = Some c \<Longrightarrow> custody_ok c \<Longrightarrow> P c \<Longrightarrow> custody_ok (f c)"
  shows "connections_ok (update_connection i f s)"
proof -
  obtain c where c: "bt_get (st_connections s) i = Some c" "P c" using assms(2) by (auto simp: connection_is_def)
  with assms have "custody_ok (f c)" by (simp add: connections_ok_def)
  moreover have "bt_wf (st_connections (update_connection i f s))"
    using assms(1) by (simp add: connections_ok_def update_connection_def bt_wf_modify)
  ultimately show ?thesis using assms(1) c by (simp add: connections_ok_def split: if_splits)
qed

lemma mutable_update [simp]:
  "mutable (c\<lparr>cn_versions := m\<rparr>) = mutable c" "mutable (c\<lparr>cn_definition := d\<rparr>) = mutable c"
  "mutable (c\<lparr>cn_current_version := w\<rparr>) = mutable c" "mutable (c\<lparr>cn_erasure_requested := b\<rparr>) = mutable c"
  "mutable (c\<lparr>cn_status := st\<rparr>) = (st \<noteq> CRevoked \<and> st \<noteq> CErased)"
  by (simp_all add: mutable_def)

lemma version_ok_versions [simp]:
  "version_ok (c\<lparr>cn_versions := m\<rparr>) item = version_ok c item"
  "version_ok (c\<lparr>cn_definition := d\<rparr>) item = version_ok c item"
  by (simp_all add: version_ok_def)

lemma version_is_update [simp]:
  "version_is (c\<lparr>cn_definition := d\<rparr>) v P = version_is c v P"
  "version_is (c\<lparr>cn_status := st\<rparr>) v P = version_is c v P"
  "version_is (c\<lparr>cn_erasure_requested := b\<rparr>) v P = version_is c v P"
  by (simp_all add: version_is_def)

lemma custody_version:
  assumes c: "custody_ok c" and item: "version_is c v P"
    and ok: "\<And>item. version_ok c item \<Longrightarrow> P item \<Longrightarrow> version_ok c (f item)"
    and active: "\<And>item. P item \<Longrightarrow> version_activated (vs_phase item) \<Longrightarrow> version_activated (vs_phase (f item))"
  shows "custody_ok (c\<lparr>cn_versions := bt_modify v f (cn_versions c)\<rparr>)"
proof -
  obtain x where x: "bt_get (cn_versions c) v = Some x" "P x" using item by (auto simp: version_is_def)
  have "version_ok c (f x)" using c x ok by (simp add: custody_ok_def)
  moreover have "version_is (c\<lparr>cn_versions := bt_modify v f (cn_versions c)\<rparr>) w (\<lambda>item. version_activated (vs_phase item))"
    if "version_is c w (\<lambda>item. version_activated (vs_phase item))" for w
    using that x active by (auto simp: version_is_def bt_get_modify)
  ultimately show ?thesis using c x
    by (auto simp: custody_ok_def bt_get_modify bt_wf_modify split: if_splits)
qed

lemma map_versions_get: "bt_get (cn_versions (map_versions f c)) v = map_option f (bt_get (cn_versions c) v)"
  by (simp add: map_versions_def bt_get_def map_of_map)

lemma map_versions_simps [simp]:
  "cn_status (map_versions f c) = cn_status c" "cn_current_version (map_versions f c) = cn_current_version c"
  "cn_erasure_requested (map_versions f c) = cn_erasure_requested c"
  "cn_budget_family (map_versions f c) = cn_budget_family c"
  "bt_wf (cn_versions (map_versions f c)) = bt_wf (cn_versions c)"
  "mutable (map_versions f c) = mutable c"
  by (simp_all add: map_versions_def bt_wf_def comp_def split_def mutable_def)

lemma custody_revoke: "custody_ok c \<Longrightarrow> mutable c \<Longrightarrow> custody_ok (revoke c)"
  unfolding custody_ok_def revoke_def
  by (fastforce simp: version_is_def map_versions_get version_ok_def mutable_def
      elim: version_open.elims phase_material.elims)

lemma custody_erasure:
  assumes "custody_ok c" and "\<not> mutable c"
  shows "custody_ok ((map_versions (\<lambda>item. item\<lparr>vs_material := require_erasure (vs_material item)\<rparr>) c)
    \<lparr>cn_erasure_requested := True\<rparr>)"
proof -
  have "phase_material p (require_erasure m)" if "phase_material p m" "\<not> version_open p" for p m
    using that by (cases p) auto
  with assms show ?thesis
    by (auto simp: custody_ok_def version_is_def map_versions_get version_ok_def)
qed

lemma custody_activate:
  assumes "custody_ok c" and "mutable c" and "version_is c v (\<lambda>item. vs_phase item = VVerified e)"
  shows "custody_ok (activate_version v e c)"
proof -
  let ?c = "c\<lparr>cn_versions := bt_modify v (\<lambda>item. item\<lparr>vs_phase := VActivated e\<rparr>) (cn_versions c)\<rparr>"
  have "custody_ok ?c" using assms(1,3)
    by (rule custody_version) (auto simp: version_ok_def)
  moreover have "version_is ?c v (\<lambda>item. version_activated (vs_phase item))"
    using assms(3) by (auto simp: version_is_def bt_get_modify)
  ultimately show ?thesis using assms(2)
    by (auto simp: activate_version_def custody_ok_def version_ok_def mutable_def version_is_def)
qed

lemma custody_status:
  assumes "custody_ok c" and "mutable c" and "st \<noteq> CRevoked" "st \<noteq> CErased"
  shows "custody_ok (c\<lparr>cn_status := st\<rparr>)"
  using assms by (auto simp: custody_ok_def version_ok_def)

lemma custody_erased: "custody_ok c \<Longrightarrow> cn_erasure_requested c \<Longrightarrow> material_gone c \<Longrightarrow> custody_ok (c\<lparr>cn_status := CErased\<rparr>)"
  by (auto simp: custody_ok_def version_ok_def material_gone_def list_all_iff bt_values_iff)

lemma custody_replacement:
  assumes "custody_ok c" and "mutable c" and "bt_get (cn_versions c) v = None"
  shows "custody_ok (c\<lparr>cn_versions := bt_insert v (new_version x) (cn_versions c)\<rparr>)"
proof -
  have "version_ok c (new_version x)"
    using assms(1,2) by (auto simp: version_ok_def new_version_def custody_ok_def mutable_def)
  moreover have "bt_wf (cn_versions c)" using assms(1) by (simp add: custody_ok_def)
  ultimately show ?thesis using assms
    by (auto simp: custody_ok_def bt_get_insert bt_wf_insert version_is_def)
qed

lemma custody_intake: "custody_ok (begin_intake s i d r v x)"
  by (auto simp: begin_intake_def custody_ok_def version_ok_def new_version_def mutable_def bt_wf_def bt_get_def
      split: if_splits)

lemma custody_definition: "custody_ok (c\<lparr>cn_definition := d\<rparr>) = custody_ok c"
  by (simp add: custody_ok_def)

lemma connections_ok_version:
  assumes "connections_ok s" and "connection_is s i (\<lambda>c. Q c \<and> version_is c v P)"
    and "\<And>c item. Q c \<Longrightarrow> version_ok c item \<Longrightarrow> P item \<Longrightarrow> version_ok c (f item)"
    and "\<And>item. P item \<Longrightarrow> version_activated (vs_phase item) \<Longrightarrow> version_activated (vs_phase (f item))"
  shows "connections_ok (update_version i v f s)"
  unfolding update_version_def using assms(1,2)
  by (rule connections_ok_update) (use assms(3,4) in \<open>auto intro: custody_version\<close>)

lemma connections_ok_close:
  assumes "connections_ok s" and "connection_is s i (\<lambda>c. version_is c v (\<lambda>item. version_open (vs_phase item)))"
    and "\<And>m. phase_material p m = material_due m" "\<not> version_open p" "\<And>e. p \<noteq> VActivated e"
    and "\<And>item. vs_phase (f item) = vs_phase item \<and> vs_material (f item) = vs_material item"
  shows "connections_ok (update_version i v (\<lambda>item. close_version p (f item)) s)"
proof (rule connections_ok_version [OF assms(1), where Q = "\<lambda>_. True"])
  show "connection_is s i (\<lambda>c. True \<and> version_is c v (\<lambda>item. version_open (vs_phase item)))" using assms(2) by simp
qed (use assms(3-6) in \<open>auto simp: version_ok_def close_version_def elim: version_open.elims\<close>)

lemma phase_material_gone: "phase_material p (ErasureRequired h) \<Longrightarrow> phase_material p (MaterialGone e)"
  by (cases p) auto

lemma evolve_frame [simp]:
  "st_connections (access_evolve s ach) = st_connections s" "st_attempts (access_evolve s ach) = st_attempts s"
  "st_used_handles (access_evolve s ach) = st_used_handles s"
  "st_failed_enforcements (access_evolve s ach) = st_failed_enforcements s"
  "st_connections (spend_evolve s sch) = st_connections s" "st_grants (spend_evolve s sch) = st_grants s"
  "st_used_handles (spend_evolve s sch) = st_used_handles s"
  by (cases ach; simp add: update_grant_def)+
    (cases sch; simp add: update_attempt_def settle_attempt_def Let_def split: option.split)+

lemma evolve_connections_ok:
  assumes ok: "connections_ok s" and ch: "change_admitted s actor now ch"
  shows "connections_ok (evolve_change s now ch)"
proof -
  note upd = connections_ok_update [OF ok]
  show ?thesis
  proof (cases ch)
    case (IntakeBegun i d r v x)
    with ok custody_intake show ?thesis
      by (auto simp: connections_ok_def bt_wf_insert bt_get_insert)
  next
    case (ReplacementBegun i v x)
    with ch show ?thesis by (auto intro!: upd [where i = i] custody_replacement)
  next
    case (CandidateSealed i v h)
    have "connections_ok (s\<lparr>st_used_handles := insert h (st_used_handles s)\<rparr>)" using ok by (simp add: connections_ok_def)
    with CandidateSealed ch show ?thesis
      by (auto elim!: connections_ok_version simp: version_ok_def)
  next
    case (CandidateVerified i v e check)
    with ok ch show ?thesis
      by (auto elim!: connections_ok_version simp: version_ok_def observed_check_def)
  next
    case (CandidateFailed i v e check)
    with ok ch show ?thesis
      by (auto intro!: connections_ok_close simp: connection_is_def version_is_def)
  next
    case (CandidateCancelled i v)
    with ok ch connections_ok_close [of s i v VCancelled "\<lambda>x. x"] show ?thesis by auto
  next
    case (CandidateExpired i v)
    with ok ch connections_ok_close [of s i v VExpired "\<lambda>x. x"] show ?thesis by auto
  next
    case (MaterialErased i v e)
    with ok ch show ?thesis
      by (auto intro!: connections_ok_version [where Q = "\<lambda>_. True"] simp: version_ok_def phase_material_gone)
  next
    case (VersionActivated i v e)
    with ch show ?thesis by (auto intro!: upd custody_activate)
  next
    case (ConnectionSuspended i)
    with ch show ?thesis by (auto intro!: upd custody_status simp: mutable_def)
  next
    case (ConnectionResumed i)
    with ch show ?thesis by (auto intro!: upd custody_status simp: mutable_def)
  next
    case (ConnectionRevoked i)
    with ch show ?thesis by (auto intro!: upd custody_revoke)
  next
    case (ErasureRequested i)
    with ch show ?thesis by (auto intro!: upd custody_erasure)
  next
    case (ConnectionErased i)
    with ch show ?thesis by (auto intro!: upd custody_erased)
  next
    case (ConnectionRenamed i x)
    with ch show ?thesis by (auto intro!: upd simp: custody_definition)
  next
    case (ModelPolicyChanged i x)
    with ch show ?thesis by (auto intro!: upd simp: custody_definition)
  qed (use ok in \<open>auto simp: connections_ok_def\<close>)
qed

section \<open>Handles\<close>

definition holds_at :: "connection_state \<Rightarrow> string \<Rightarrow> string \<Rightarrow> string \<Rightarrow> bool" where
  "holds_at s i v h \<longleftrightarrow> connection_is s i (\<lambda>c. version_is c v (\<lambda>item. handle_of (vs_material item) = Some h))"

definition handles_ok :: "connection_state \<Rightarrow> bool" where
  "handles_ok s \<longleftrightarrow> (\<forall>i v h. holds_at s i v h \<longrightarrow> h \<in> st_used_handles s) \<and>
     (\<forall>i v j w h. holds_at s i v h \<and> holds_at s j w h \<longrightarrow> i = j \<and> v = w)"

lemma handles_ok_shrink:
  assumes "handles_ok s" and "\<And>i v h. holds_at s' i v h \<Longrightarrow> holds_at s i v h"
    and "st_used_handles s \<subseteq> st_used_handles s'"
  shows "handles_ok s'"
  using assms unfolding handles_ok_def by blast

lemma holds_at_cong: "st_connections s' = st_connections s \<Longrightarrow> holds_at s' = holds_at s"
  by (simp add: holds_at_def connection_is_def fun_eq_iff)

lemma holds_at_update:
  assumes "holds_at (update_connection i f s) j w h"
    and "\<And>c w. bt_get (st_connections s) i = Some c \<Longrightarrow>
      version_is (f c) w (\<lambda>item. handle_of (vs_material item) = Some h) \<Longrightarrow>
      version_is c w (\<lambda>item. handle_of (vs_material item) = Some h)"
  shows "holds_at s j w h"
  using assms by (auto simp: holds_at_def connection_is_def split: if_splits)

lemma holds_at_version:
  assumes "holds_at (update_version i v f s) j w h"
    and "\<And>item. handle_of (vs_material (f item)) = Some h \<Longrightarrow> handle_of (vs_material item) = Some h"
  shows "holds_at s j w h"
  using assms(1) unfolding update_version_def
  by (rule holds_at_update) (use assms(2) in \<open>auto simp: version_is_def bt_get_modify split: if_splits\<close>)

lemma intake_holds_nothing: "\<not> version_is (begin_intake s i d r v x) w (\<lambda>item. handle_of (vs_material item) = Some h)"
  by (auto simp: version_is_def begin_intake_def bt_get_def new_version_def)

lemma evolve_holds_at:
  assumes "holds_at (evolve_change s now ch) j w h" and "bt_wf (st_connections s)" and "connections_ok s"
    and new: "\<And>i v. ch \<noteq> CandidateSealed i v h" and "change_admitted s actor now ch"
  shows "holds_at s j w h"
proof (cases ch)
  case (GrantChange x)
  with assms(1) holds_at_cong [of "access_evolve s x" s] show ?thesis by simp
next
  case (SpendChange x)
  with assms(1) holds_at_cong [of "spend_evolve s x" s] show ?thesis by simp
next
  case (IntakeBegun i d r v x)
  with assms(1,2) show ?thesis
    by (auto simp: holds_at_def connection_is_def bt_get_insert intake_holds_nothing split: if_splits)
next
  case (ReplacementBegun i v x)
  have "bt_wf (cn_versions c)" if "bt_get (st_connections s) i = Some c" for c
    using assms(3) that by (simp add: connections_ok_def custody_ok_def)
  with ReplacementBegun assms(1) show ?thesis
    by (auto elim!: holds_at_update simp: version_is_def bt_get_insert new_version_def split: if_splits)
next
  case (CandidateSealed i v h')
  with assms(1) new show ?thesis
    by (auto simp: holds_at_def connection_is_def update_version_def version_is_def bt_get_modify split: if_splits)
next
  case (DefaultChanged x)
  with assms(1) show ?thesis by (simp add: holds_at_def)
qed (use assms(1) in \<open>auto elim!: holds_at_version holds_at_update
  simp: close_version_def revoke_def map_versions_get version_is_def activate_version_def bt_get_modify split: if_splits\<close>)

lemma sealed_holds_at:
  "holds_at (evolve_change s now (CandidateSealed i v h)) j w h' \<Longrightarrow>
     (h' = h \<and> j = i \<and> w = v) \<or> holds_at s j w h'"
  by (auto simp: holds_at_def connection_is_def update_version_def version_is_def bt_get_modify split: if_splits)

lemma evolve_used_handles:
  "st_used_handles (evolve_change s now ch) =
     (case ch of CandidateSealed i v h \<Rightarrow> insert h (st_used_handles s) | _ \<Rightarrow> st_used_handles s)"
  by (cases ch) (simp_all add: update_version_def)

lemma evolve_handles_ok:
  assumes ok: "handles_ok s" "connections_ok s" and ch: "change_admitted s actor now ch"
  shows "handles_ok (evolve_change s now ch)"
proof (cases "\<exists>i v h. ch = CandidateSealed i v h")
  case True
  then obtain i v h where sealed: "ch = CandidateSealed i v h" by blast
  with ch have fresh: "h \<notin> st_used_handles s" by simp
  then have "\<not> holds_at s j w h" for j w using ok(1) by (auto simp: handles_ok_def)
  then have step: "(k = h \<and> j = i \<and> w = v) \<or> (k \<noteq> h \<and> holds_at s j w k)"
    if "holds_at (evolve_change s now ch) j w k" for j w k
    using that sealed_holds_at [of s now i v h j w k] sealed by blast
  have used: "st_used_handles (evolve_change s now ch) = insert h (st_used_handles s)"
    by (simp only: evolve_used_handles sealed connection_change.case)
  from ok(1) show ?thesis unfolding handles_ok_def used by (auto dest!: step) blast+
next
  case False
  have "holds_at s j w h" if "holds_at (evolve_change s now ch) j w h" for j w h
    using that ok(2) False ch by (intro evolve_holds_at [OF that]) (auto simp: connections_ok_def)
  moreover have "st_used_handles s \<subseteq> st_used_handles (evolve_change s now ch)"
    by (auto simp: evolve_used_handles split: connection_change.split)
  ultimately show ?thesis using handles_ok_shrink [OF ok(1)] by blast
qed

section \<open>Grants and attempts\<close>

definition grants_ok :: "connection_state \<Rightarrow> bool" where
  "grants_ok s \<longleftrightarrow> bt_wf (st_grants s) \<and> (\<forall>i g. bt_get (st_grants s) i = Some g \<longrightarrow> budget_of s g)"

definition usage_within :: "usage \<Rightarrow> bound \<Rightarrow> bool" where
  "usage_within u b \<longleftrightarrow> us_tokens u \<le> bd_tokens b \<and>
     (\<forall>m. bd_money b = Some m \<longrightarrow>
        (\<exists>x. us_money u = Some x \<and> mn_currency x = mn_currency m \<and> mn_micros x \<le> mn_micros m))"

definition attempt_ok :: "connection_state \<Rightarrow> attempt \<Rightarrow> bool" where
  "attempt_ok s a \<longleftrightarrow> at_grants a \<noteq> [] \<and> (\<forall>g \<in> set (at_grants a). charges a (ag_budget g)) \<and>
     (at_phase a = ASettled \<longrightarrow> (\<exists>u. at_usage a = Some u \<and> (\<not> at_overrun a \<longrightarrow> usage_within u (at_bound a)))) \<and>
     (at_overrun a \<longrightarrow> bd_enforcement (at_bound a) \<in> st_failed_enforcements s)"

definition attempts_ok :: "connection_state \<Rightarrow> bool" where
  "attempts_ok s \<longleftrightarrow> bt_wf (st_attempts s) \<and> (\<forall>i a. bt_get (st_attempts s) i = Some a \<longrightarrow> attempt_ok s a)"

lemma budget_of_keep:
  assumes "budget_of s g" and "\<And>i c. bt_get (st_connections s) i = Some c \<Longrightarrow>
    \<exists>c'. bt_get (st_connections s') i = Some c' \<and> cn_budget_family c' = cn_budget_family c"
  shows "budget_of s' g"
  using assms by (fastforce simp: budget_of_def connection_is_def)

lemma budget_family_simps [simp]:
  "cn_budget_family (activate_version v e c) = cn_budget_family c"
  "cn_budget_family (revoke c) = cn_budget_family c"
  by (simp_all add: activate_version_def revoke_def)

lemma evolve_families:
  assumes "change_admitted s actor now ch" and "bt_wf (st_connections s)" and "bt_get (st_connections s) i = Some c"
  shows "\<exists>c'. bt_get (st_connections (evolve_change s now ch)) i = Some c' \<and> cn_budget_family c' = cn_budget_family c"
  using assms by (cases ch)
    (auto simp: update_version_def bt_get_insert split: if_splits)

lemma evolve_grants:
  assumes "bt_get (st_grants (evolve_change s now ch)) i = Some g" and "bt_wf (st_grants s)"
    and "change_admitted s actor now ch"
  shows "(\<exists>g'. bt_get (st_grants s) i = Some g' \<and> gr_budget g = gr_budget g' \<and>
      gd_connection (gr_definition g) = gd_connection (gr_definition g') \<and>
      gd_subject (gr_definition g) = gd_subject (gr_definition g')) \<or> budget_of s g"
proof (cases ch)
  case (GrantChange x)
  with assms show ?thesis
    by (cases x) (auto simp: update_grant_def bt_get_modify bt_get_insert split: if_splits)
qed (use assms in \<open>auto simp: update_version_def\<close>)

lemma evolve_grants_ok:
  assumes ok: "grants_ok s" "bt_wf (st_connections s)" and ch: "change_admitted s actor now ch"
  shows "grants_ok (evolve_change s now ch)"
proof -
  have "budget_of s g" if "bt_get (st_grants (evolve_change s now ch)) i = Some g" for i g
    using evolve_grants [OF that _ ch] ok(1) by (auto simp: grants_ok_def budget_of_def)
  then have "budget_of (evolve_change s now ch) g" if "bt_get (st_grants (evolve_change s now ch)) i = Some g" for i g
    using budget_of_keep evolve_families [OF ch ok(2)] that by blast
  moreover have "bt_wf (st_grants (evolve_change s now ch))"
  proof (cases ch)
    case (GrantChange x)
    with ok(1) show ?thesis by (cases x) (auto simp: grants_ok_def update_grant_def bt_wf_modify bt_wf_insert)
  qed (use ok(1) in \<open>auto simp: grants_ok_def update_version_def\<close>)
  ultimately show ?thesis by (simp add: grants_ok_def)
qed

lemma applicable_Inr:
  assumes "applicable s iv ev actor = Inr grants"
  shows "iv_final_fetch iv = actor" "grants = map applicable_of (matching_grants s iv)" "grants \<noteq> []"
    "connection_is s (iv_connection iv) (\<lambda>c. active_version c = Some (iv_version iv) \<and>
       cd_provider (cn_definition c) = iv_provider iv \<and> iv_model iv \<in> mp_models (cd_policy (cn_definition c)) \<and>
       iv_class iv \<in> mp_execution_classes (cd_policy (cn_definition c)))"
  using assms by (auto simp: applicable_def and_then_Inr Let_def connection_is_def require_def list_ex_iff split: if_splits)

lemma matching_charged:
  assumes "grants_ok s" and "g \<in> set (map applicable_of (matching_grants s iv))"
  shows "connection_is s (iv_connection iv) (\<lambda>c. \<exists>x. ag_budget g = BudgetKey (cn_budget_family c) x \<and> subject_of x iv)"
proof -
  obtain i r where r: "(i, r) \<in> set (st_grants s)" "g = applicable_of (i, r)"
    "gd_connection (gr_definition r) = iv_connection iv" "subject_of (gd_subject (gr_definition r)) iv"
    using assms(2) by (auto simp: matching_grants_def)
  with assms(1) have "budget_of s r" by (simp add: grants_ok_def bt_entries_get)
  with r show ?thesis by (auto simp: budget_of_def connection_is_def applicable_of_def)
qed

lemma reservable_ok:
  assumes "grants_ok s" and "reservable s actor now a"
  shows "attempt_ok s a" "at_phase a = AReserved" "counted a = Some (bd_tokens (at_bound a), bd_money (at_bound a))"
proof -
  obtain ev where ap: "applicable s (at_invocation a) ev actor = Inr (at_grants a)"
    and new: "a = new_attempt (at_invocation a) (at_grants a) (the (month_at now)) (at_bound a) (at_reserved_until a)
       (at_reconcile_by a)"
    using assms(2) by (auto simp: reservable_def)
  show phase: "at_phase a = AReserved" and over: "counted a = Some (bd_tokens (at_bound a), bd_money (at_bound a))"
    by (subst new, simp add: new_attempt_def counted_def)+
  have "\<not> at_overrun a" by (subst new) (simp add: new_attempt_def)
  moreover note grants = applicable_Inr(2,3) [OF ap]
  obtain c where conn: "bt_get (st_connections s) (iv_connection (at_invocation a)) = Some c"
    using applicable_Inr(4) [OF ap] by (auto simp: connection_is_def)
  have c: "\<exists>x. ag_budget g = BudgetKey (cn_budget_family c) x \<and> subject_of x (at_invocation a)"
    if "g \<in> set (at_grants a)" for g
    using matching_charged [OF assms(1), of g "at_invocation a"] that grants(1) conn
    by (auto simp: connection_is_def)
  then have "charges a (ag_budget g)" if "g \<in> set (at_grants a)" for g
    using that c [OF hd_in_set [OF grants(2)]] by (fastforce simp: charges_def family_def)
  ultimately show "attempt_ok s a" using grants(2) phase by (simp add: attempt_ok_def)
qed

lemma attempt_ok_revision [simp]: "attempt_ok s (a\<lparr>at_revision := n\<rparr>) = attempt_ok s a"
  by (simp add: attempt_ok_def charges_def family_def)

lemma attempts_ok_update:
  assumes "attempts_ok s" and "attempt_is s i P" and "\<And>a. P a \<Longrightarrow> attempt_ok s a \<Longrightarrow> attempt_ok s (f a)"
  shows "attempts_ok (update_attempt i f s)"
proof -
  have "attempt_ok (update_attempt i f s) = attempt_ok s"
    by (simp add: attempt_ok_def update_attempt_def fun_eq_iff)
  with assms show ?thesis
    by (auto simp: attempts_ok_def update_attempt_def attempt_is_def bt_wf_modify bt_get_modify split: if_splits)
qed

lemma measured_over: "measured a u e = Inr (Some over) \<Longrightarrow> over \<longleftrightarrow> \<not> usage_within u (at_bound a)"
  by (auto simp: measured_def money_overrun_def and_then_Inr usage_within_def not_less split: option.splits)

lemma attempts_ok_settle:
  assumes ok: "attempts_ok s" and a: "attempt_is s i (\<lambda>a. measured a u e = Inr (Some over))"
  shows "attempts_ok (settle_attempt i u e over s)"
proof -
  obtain a where a': "bt_get (st_attempts s) i = Some a" "measured a u e = Inr (Some over)"
    using a by (auto simp: attempt_is_def)
  define t where "t = s\<lparr>st_failed_enforcements := (if over then insert (bd_enforcement (at_bound a)) else id) (st_failed_enforcements s)\<rparr>"
  have t: "settle_attempt i u e over s = update_attempt i (measure_attempt u e over) t"
    using a'(1) by (simp add: settle_attempt_def t_def update_attempt_def)
  have "attempts_ok t" using ok by (auto simp: attempts_ok_def attempt_ok_def t_def)
  moreover have "attempt_is t i (\<lambda>b. b = a)" using a'(1) by (simp add: attempt_is_def t_def)
  moreover have "attempt_ok t (measure_attempt u e over a)" if "attempt_ok t a"
    using that measured_over [OF a'(2)]
    by (auto simp: attempt_ok_def measure_attempt_def charges_def family_def t_def Let_def)
  ultimately show ?thesis unfolding t by (auto intro: attempts_ok_update)
qed

lemma evolve_attempts_ok:
  assumes ok: "attempts_ok s" "grants_ok s" and ch: "change_admitted s actor now ch"
  shows "attempts_ok (evolve_change s now ch)"
proof (cases ch)
  case (SpendChange x)
  note upd = attempts_ok_update [OF ok(1)]
  have keep: "attempt_ok s (a\<lparr>at_phase := p\<rparr>)" "attempt_ok s (a\<lparr>at_unknown_evidence := w, at_phase := p\<rparr>)"
    if "attempt_ok s a" "p \<noteq> ASettled" for a p w
    using that by (simp_all add: attempt_ok_def charges_def family_def)
  have reconciled: "attempt_ok s (a\<lparr>at_reconciled_with := w\<rparr>)" if "attempt_ok s a" for a w
    using that by (simp add: attempt_ok_def charges_def family_def)
  show ?thesis
  proof (cases x)
    case (ReservedEv i a obs)
    with SpendChange ch have "reservable s actor now a" by simp
    note reservable_ok(1) [OF ok(2) this]
    then show ?thesis using ReservedEv SpendChange ok(1)
      by (auto simp: attempts_ok_def attempt_ok_def bt_wf_insert bt_get_insert)
  next
    case (SettledEv i u e over)
    with SpendChange ch show ?thesis by (auto simp: attempt_is_def intro!: attempts_ok_settle [OF ok(1)])
  next
    case (CorrectedEv i u e over)
    with SpendChange ch show ?thesis by (auto simp: attempt_is_def intro!: attempts_ok_settle [OF ok(1)])
  qed (use SpendChange ch keep reconciled in \<open>auto intro!: upd\<close>)
qed (use ok(1) in \<open>auto simp: attempts_ok_def attempt_ok_def update_version_def\<close>)

end
