(* ===== verification/Connection_Trace.thy ===== *)
theory Connection_Trace
  imports Connection_Standing
begin

text \<open>
  The model-connection reducer over time: what \<open>decide\<close> emits is admitted, so the standing invariant
  holds in every state a command sequence reaches, and the log says when an attempt was dispatched and
  what an overrun stops.
\<close>

section \<open>Decisions are admitted\<close>

lemma require_ok [simp]: "require b why = Inr x \<longleftrightarrow> b"
  by (auto simp: require_def)

lemma access_decide_admitted: "access_decide s op = Inr ch \<Longrightarrow> grant_admitted s ch"
  by (cases op) (auto simp: and_then_Inr budget_of_def connection_is_def)

lemma new_attempt_simps [simp]:
  "at_invocation (new_attempt iv gs m b r q) = iv" "at_grants (new_attempt iv gs m b r q) = gs"
  "at_month (new_attempt iv gs m b r q) = m" "at_bound (new_attempt iv gs m b r q) = b"
  "at_reserved_until (new_attempt iv gs m b r q) = r" "at_reconcile_by (new_attempt iv gs m b r q) = q"
  "family (new_attempt iv gs m b r q) = bk_family (ag_budget (hd gs))"
  by (simp_all add: new_attempt_def family_def)

lemma spend_reserve_admitted:
  assumes "spend_reserve s i iv ev b r q actor now = Inr (Some ch)"
  shows "spend_admitted s actor now ch"
proof -
  from assms have fresh: "bt_get (st_attempts s) i = None"
    by (auto simp: spend_reserve_def split: option.splits)
  with assms obtain grants where g: "applicable s iv ev actor = Inr grants"
    "eligible s (bk_family (ag_budget (hd grants))) b = Inr ()"
    "within_budgets s (the (month_at now)) b (budgets grants) = Inr ()" "now < r"
    "ch = ReservedEv i (new_attempt iv grants (the (month_at now)) b r q) (ee_observation ev)"
    by (auto simp: spend_reserve_def and_then_Inr Let_def)
  then show ?thesis using fresh by (simp add: reservable_def exI [of _ ev])
qed

lemma spend_advance_admitted:
  assumes "spend_advance s a op actor now = Inr (Some ch)" and "bt_get (st_attempts s) (spend_id op) = Some a"
  shows "spend_admitted s actor now ch"
proof (cases op)
  case (Dispatch i ev b)
  with assms(1) have "dispatchable s actor now a" "ch = DispatchedEv i (ee_observation ev)"
    by (auto simp: and_then_Inr dispatchable_def)
  with assms(2) Dispatch show ?thesis by (simp add: attempt_is_def)
next
  case (OutcomeUnknown i e)
  with assms show ?thesis by (simp add: and_then_Inr attempt_is_def split: if_splits)
next
  case (Settle i u e)
  with assms(1) obtain over where over: "measured a u e = Inr (Some over)" "at_phase a \<in> {ADispatched, AUnknown}" "ch = SettledEv i u e over"
    by (auto simp: and_then_Inr split: option.split_asm)
  with assms(2) Settle show ?thesis by (simp add: attempt_is_def)
next
  case (Correct i u e)
  with assms(1) obtain over where over: "measured a u e = Inr (Some over)" "at_phase a \<in> {ASettled, AAccountedAtBound}" "ch = CorrectedEv i u e over"
    by (auto simp: and_then_Inr split: option.split_asm)
  with assms(2) Correct show ?thesis by (simp add: attempt_is_def)
next
  case (ReconcileDeadline i)
  with assms show ?thesis by (simp add: and_then_Inr attempt_is_def split: if_splits)
qed (use assms in \<open>simp_all add: and_then_Inr attempt_is_def\<close>)

lemma spend_decide_cases:
  assumes "spend_decide s op actor now = Inr x"
  obtains i iv ev b r q where "op = Reserve i iv ev b r q" "spend_reserve s i iv ev b r q actor now = Inr x"
  | a where "bt_get (st_attempts s) (spend_id op) = Some a" "spend_advance s a op actor now = Inr x"
  using assms by (cases op) (simp_all add: spend_decide_def and_then_Inr del: spend_advance.simps, blast+)

lemma spend_decide_admitted: "spend_decide s op actor now = Inr (Some ch) \<Longrightarrow> spend_admitted s actor now ch"
  by (erule spend_decide_cases) (auto dest: spend_reserve_admitted spend_advance_admitted simp del: spend_advance.simps)

lemma with_candidate_Inr:
  "with_candidate s i v f = Inr x \<longleftrightarrow> (\<exists>c item. bt_get (st_connections s) i = Some c \<and>
     bt_get (cn_versions c) v = Some item \<and> f c item = Inr x)"
  by (auto simp: with_candidate_def and_then_Inr)

lemma revoke_gone: "material_gone c \<Longrightarrow> material_gone (revoke c)"
  by (auto simp: material_gone_def revoke_def map_versions_def list_all_iff bt_values_def split_def)

lemma erasure_gone: "material_gone c \<Longrightarrow>
    material_gone ((map_versions (\<lambda>item. item\<lparr>vs_material := require_erasure (vs_material item)\<rparr>) c)\<lparr>cn_erasure_requested := True\<rparr>)"
  by (auto simp: material_gone_def map_versions_def list_all_iff bt_values_def split_def)

lemma revoke_not_mutable [simp]: "\<not> mutable (revoke c)"
  by (simp add: revoke_def mutable_def)

lemma event_admitted_simps [simp]:
  "event_admitted s \<lparr>ce_binding = b, ce_actor = actor, ce_at = now, ce_change = ch\<rparr> = change_admitted s actor now ch"
  by (simp add: event_admitted_def)

lemma erasure_admitted:
  assumes "connection_is s i (\<lambda>c. \<not> mutable c \<and> (gone \<longrightarrow> material_gone c))"
  shows "events_admitted s (map (\<lambda>ch. \<lparr>ce_binding = b, ce_actor = actor, ce_at = now, ce_change = ch\<rparr>)
    (ErasureRequested i # (if gone then [ConnectionErased i] else [])))"
  using assms erasure_gone by (fastforce simp: connection_is_def connection_evolve_stamp)

lemma request_erasure_admitted:
  assumes "bt_get (st_connections s) i = Some c" and "gone \<longrightarrow> material_gone c"
  shows "events_admitted s (map (\<lambda>ch. \<lparr>ce_binding = b, ce_actor = actor, ce_at = now, ce_change = ch\<rparr>)
    ((if mutable c then [ConnectionRevoked i] else []) @ ErasureRequested i # (if gone then [ConnectionErased i] else [])))"
proof (cases "mutable c")
  case True
  let ?e = "\<lparr>ce_binding = b, ce_actor = actor, ce_at = now, ce_change = ConnectionRevoked i\<rparr>"
  have "connection_is (connection_evolve s ?e) i (\<lambda>c. \<not> mutable c \<and> (gone \<longrightarrow> material_gone c))"
    using assms revoke_gone by (simp add: connection_is_def connection_evolve_stamp)
  from erasure_admitted [OF this] True assms(1) show ?thesis by (simp add: connection_is_def)
next
  case False
  with erasure_admitted [of s i gone b actor now] assms show ?thesis by (simp add: connection_is_def)
qed

lemma material_erased_admitted:
  assumes "bt_get (st_connections s) i = Some c" and "bt_get (cn_versions c) v = Some item"
    and "vs_material item = ErasureRequired h"
    and "final \<longrightarrow> cn_erasure_requested c \<and> (\<forall>(key, value) \<in> set (cn_versions c). key = v \<or> material_erased (vs_material value))"
  shows "events_admitted s (map (\<lambda>ch. \<lparr>ce_binding = b, ce_actor = actor, ce_at = now, ce_change = ch\<rparr>)
    (MaterialErased i v e # (if final then [ConnectionErased i] else [])))"
proof -
  have "material_gone (c\<lparr>cn_versions := bt_modify v (\<lambda>item. item\<lparr>vs_material := MaterialGone e\<rparr>) (cn_versions c)\<rparr>)" if final
    using assms(4) that by (auto simp: material_gone_def bt_modify_def list_all_iff bt_values_def)
  with assms show ?thesis
    by (auto simp: connection_is_def version_is_def connection_evolve_stamp update_version_def)
qed

lemma connection_changes_admitted:
  assumes "connection_changes s actor now op = Inr chs"
  shows "events_admitted s (map (\<lambda>ch. \<lparr>ce_binding = b, ce_actor = actor, ce_at = now, ce_change = ch\<rparr>) chs)"
proof (cases op)
  case (GrantOp x)
  with assms show ?thesis by (auto simp: and_then_Inr dest: access_decide_admitted)
next
  case (SpendOp x)
  with assms show ?thesis by (auto simp: and_then_Inr dest: spend_decide_admitted split: option.splits)
next
  case (RequestErasure i)
  with assms obtain c where "bt_get (st_connections s) i = Some c" and
    "chs = (if mutable c then [ConnectionRevoked i] else []) @ ErasureRequested i #
       (if material_gone c then [ConnectionErased i] else [])"
    by (auto simp: and_then_Inr)
  then show ?thesis using request_erasure_admitted [of s i c "material_gone c"] by simp
next
  case (RecordMaterialErased i v h e)
  with assms obtain c item where found: "bt_get (st_connections s) i = Some c" "bt_get (cn_versions c) v = Some item"
    "vs_material item = ErasureRequired h" and
    "chs = MaterialErased i v e # (if cn_erasure_requested c \<and>
       list_all (\<lambda>(key, value). key = v \<or> material_erased (vs_material value)) (cn_versions c)
       then [ConnectionErased i] else [])"
    by (auto simp: with_candidate_Inr)
  then show ?thesis by (auto simp only: list_all_iff intro!: material_erased_admitted)
next
  case (BeginIntake i d r v x)
  with assms show ?thesis by (auto simp: and_then_Inr connection_is_def split: option.splits)
next
  case (BeginReplacement i v x)
  with assms obtain c where c: "bt_get (st_connections s) i = Some c" "mutable c" "bt_get (cn_versions c) v = None"
    "\<forall>item \<in> set (bt_values (cn_versions c)). \<not> version_open (vs_phase item)" "chs = [ReplacementBegun i v x]"
    by (auto simp: and_then_Inr list_ex_iff)
  then have "\<not> version_is c w (\<lambda>item. version_open (vs_phase item))" for w
    by (auto simp: version_is_def bt_values_def bt_get_def dest!: map_of_SomeD)
  with c show ?thesis by (simp add: connection_is_def)
next
  case (Activate i v)
  with assms show ?thesis
    by (auto simp: with_candidate_Inr connection_is_def version_is_def candidate_open_def
        elim: verified_evidence.elims split: option.splits)
next
  case (SetDefault x)
  with assms show ?thesis by (auto simp: and_then_Inr)
qed (use assms in \<open>auto simp: and_then_Inr with_candidate_Inr connection_is_def version_is_def candidate_open_def
  decide_mutable_def\<close>)

lemma connection_decide_admitted: "connection_decide s cmd = Inr es \<Longrightarrow> events_admitted s es"
  by (auto simp: connection_decide_def and_then_Inr intro: connection_changes_admitted)

section \<open>The invariant\<close>

definition connection_inv :: "connection_state \<Rightarrow> bool" where
  "connection_inv s \<longleftrightarrow> connections_ok s \<and> handles_ok s \<and> grants_ok s \<and> attempts_ok s"

lemma totals_stamp: "totals (stamp e s) = totals s"
  by (simp add: totals_def period_usage_def fun_eq_iff)

lemma within_budgets_stamp: "within_budgets (stamp e s) m b ks = within_budgets s m b ks"
  by (induction ks) (auto simp: totals_stamp)

lemma reads_stamp:
  "applicable (stamp e s) = applicable s" "eligible (stamp e s) = eligible s"
  "within_budgets (stamp e s) = within_budgets s"
  by (simp_all add: fun_eq_iff applicable_def eligible_def find_connection_def matching_grants_def overrun_pending_def
      within_budgets_stamp)

lemma change_admitted_stamp: "change_admitted (stamp e s) actor now ch = change_admitted s actor now ch"
proof (cases ch)
  case (GrantChange x)
  then show ?thesis by (cases x) auto
next
  case (SpendChange x)
  then show ?thesis by (cases x) (auto simp: reservable_def dispatchable_def reads_stamp attempt_is_def)
qed simp_all

lemma connection_inv_stamp: "connection_inv s \<Longrightarrow> connection_inv (stamp e s)"
  by (simp add: connection_inv_def connections_ok_def handles_ok_def grants_ok_def attempts_ok_def attempt_ok_def
      holds_at_def)

lemma event_inv:
  assumes "connection_inv s" and "event_admitted s e"
  shows "connection_inv (connection_evolve s e)"
proof -
  have "connection_inv (stamp e s)" using assms(1) by (rule connection_inv_stamp)
  moreover have "change_admitted (stamp e s) (ce_actor e) (ce_at e) (ce_change e)"
    using assms(2) by (simp add: change_admitted_stamp event_admitted_def)
  ultimately show ?thesis unfolding connection_evolve_stamp connection_inv_def
    using evolve_connections_ok evolve_handles_ok evolve_grants_ok evolve_attempts_ok connections_ok_def by blast
qed

lemma connection_default_inv: "connection_inv connection_default"
  by (auto simp: connection_inv_def connections_ok_def handles_ok_def grants_ok_def attempts_ok_def
      connection_default_def bt_wf_def bt_get_def holds_at_def connection_is_def)

lemma events_inv: "connection_inv s \<Longrightarrow> events_admitted s es \<Longrightarrow> connection_inv (foldl connection_evolve s es)"
  by (induction es arbitrary: s) (auto simp: event_inv)

lemma events_admitted_append:
  "events_admitted s (xs @ ys) \<longleftrightarrow> events_admitted s xs \<and> events_admitted (foldl connection_evolve s xs) ys"
  by (induction xs arbitrary: s) auto

lemma connection_fold [simp]: "lc_fold (connection_lifecycle sd) s es = foldl connection_evolve s es"
  by (simp add: lc_fold_def)

interpretation connection_trace: lifecycle_trace "connection_lifecycle sd"
  "\<lambda>es s. events_admitted connection_default es \<and> s = foldl connection_evolve connection_default es \<and> connection_inv s" for sd
proof unfold_locales
  show "events_admitted connection_default [] \<and>
    lc_default (connection_lifecycle sd) = foldl connection_evolve connection_default [] \<and>
    connection_inv (lc_default (connection_lifecycle sd))"
    by (simp add: connection_default_inv)
next
  fix es s c fs
  assume "events_admitted connection_default es \<and> s = foldl connection_evolve connection_default es \<and> connection_inv s"
    and "lc_decide (connection_lifecycle sd) s c = Inr fs"
  then show "events_admitted connection_default (es @ fs) \<and>
    lc_fold (connection_lifecycle sd) s fs = foldl connection_evolve connection_default (es @ fs) \<and>
    connection_inv (lc_fold (connection_lifecycle sd) s fs)"
    using connection_decide_admitted [of s c fs] events_inv [of s fs] by (auto simp: events_admitted_append)
qed

abbreviation replayed :: "connection_event list \<Rightarrow> connection_state" where
  "replayed es \<equiv> foldl connection_evolve connection_default es"

lemma log_event:
  assumes "lc_log (connection_lifecycle sd) connection_default cs = xs @ e # ys"
  shows "event_admitted (replayed xs) e" "connection_inv (replayed xs)" "events_admitted (replayed (xs @ [e])) ys"
    "events_admitted connection_default xs"
  using connection_trace.log_tinv [of sd cs] assms events_inv [OF connection_default_inv, of xs]
  by (auto simp: events_admitted_append)

end
