(* ===== verification/Connection_Sample.thy ===== *)
theory Connection_Sample
  imports Connection_Lifecycle
begin

text \<open>
  One organization's credential, from its intake over a grant with caps to an attempt that overruns its
  bound: the concrete run on which the properties of the reducer are exercised.
\<close>

definition sample_binding :: authority_binding where
  "sample_binding = \<lparr>ab_authority = ''org'', ab_organization = ''o'', ab_environment = ''dev''\<rparr>"

definition sample_provider :: provider_binding where
  "sample_provider = \<lparr>pb_provider = ''p'', pb_endpoint = ''u'', pb_authentication = ApiKey\<rparr>"

definition sample_policy :: model_policy where
  "sample_policy = \<lparr>mp_models = {''m''}, mp_execution_classes = {PrivateBroker}\<rparr>"

definition sample_caps :: caps where
  "sample_caps = \<lparr>cap_tokens = Some 100, cap_money = Some \<lparr>mn_currency = ''USD'', mn_micros = 50\<rparr>\<rparr>"

definition sample_grant :: grant_definition where
  "sample_grant = \<lparr>gd_connection = ''c'', gd_subject = MemberSubject ''alice'', gd_policy = sample_policy,
     gd_audiences = {MemberClass}, gd_caps = sample_caps\<rparr>"

definition sample_invocation :: invocation where
  "sample_invocation = \<lparr>iv_connection = ''c'', iv_version = ''v'', iv_provider = sample_provider, iv_model = ''m'',
     iv_class = PrivateBroker, iv_initiator = Member ''alice'', iv_project = None, iv_home = None, iv_work = ''w'',
     iv_final_fetch = ''fetch'', iv_request_digest = replicate 32 0\<rparr>"

definition sample_evidence :: execution_evidence where
  "sample_evidence = \<lparr>ee_observed = sample_invocation, ee_current_identity_and_work = True, ee_funding_admitted = True,
     ee_private_plaintext_admitted = True, ee_public_deployment_and_budget_admitted = False, ee_observation = ''obs''\<rparr>"

definition sample_bound :: "string \<Rightarrow> bound" where
  "sample_bound enforcement = \<lparr>bd_tokens = 40, bd_money = Some \<lparr>mn_currency = ''USD'', mn_micros = 20\<rparr>,
     bd_rate = Some ''rate'', bd_enforcement = enforcement\<rparr>"

definition sample_usage :: usage where
  "sample_usage = \<lparr>us_tokens = 41, us_money = Some \<lparr>mn_currency = ''USD'', mn_micros = 20\<rparr>,
     us_rate = Some ''rate'', us_runtime = ''rt''\<rparr>"

definition sample_command :: "string \<Rightarrow> capability \<Rightarrow> basis \<Rightarrow> connection_operation \<Rightarrow> connection_command" where
  "sample_command actor capability b operation = \<lparr>cc_binding = sample_binding, cc_actor = actor,
     cc_capability = capability, cc_basis = b, cc_now = 1, cc_operation = operation\<rparr>"

definition sample_connection_commands :: "connection_command list" where
  "sample_connection_commands =
    [sample_command ''admin'' CapManageConnections (MetadataBasis 0)
       (BeginIntake ''c'' \<lparr>cd_name = ''n'', cd_provider = sample_provider, cd_policy = sample_policy\<rparr> None ''v'' 100),
     sample_command ''intake'' CapSealCandidate (MetadataBasis 1) (RecordSealed ''c'' ''v'' ''h''),
     sample_command ''custody'' CapVerifyCandidate (MetadataBasis 2)
       (RecordVerification ''c'' ''v'' sample_provider ''h'' ''e'' ModelCatalogRead True),
     sample_command ''admin'' CapManageConnections (MetadataBasis 3) (Activate ''c'' ''v''),
     sample_command ''admin'' CapManageGrants (MetadataBasis 4) (GrantOp (CreateGrant ''g'' sample_grant ''adm'')),
     sample_command ''fetch'' CapInvokeProvider (MetadataBasis 5)
       (SpendOp (Reserve ''a'' sample_invocation sample_evidence (sample_bound ''one'') 10 20)),
     sample_command ''fetch'' CapInvokeProvider (DispatchBasis 5 ''a'' 1)
       (SpendOp (Dispatch ''a'' sample_evidence (sample_bound ''one''))),
     sample_command ''fetch'' CapObserveUsage (AttemptBasis ''a'' 2) (SpendOp (Settle ''a'' sample_usage ''m1'')),
     sample_command ''ops'' CapReconcileBounds (AttemptBasis ''a'' 3) (SpendOp (ReconcileOverrun ''a'' ''two'' ''m2'')),
     sample_command ''fetch'' CapInvokeProvider (MetadataBasis 5)
       (SpendOp (Reserve ''b'' sample_invocation sample_evidence (sample_bound ''two'') 10 20))]"

definition sample_connection_serde :: "connection_event serde" where
  "sample_connection_serde = \<lparr>to_json = \<lambda>_. [], from_json = \<lambda>_. None\<rparr>"

definition sample_connection_log :: "connection_event list" where
  "sample_connection_log = lc_log (connection_lifecycle sample_connection_serde) connection_default sample_connection_commands"

lemma sample_length: "length sample_connection_log = 10"
  by code_simp

end
