(* ===== verification/Connection_Properties.thy ===== *)
theory Connection_Properties
  imports Connection_Trace Connection_Sample
begin

text \<open>
  What the model-connection reducer promises: spend stays within every cap, an attempt is dispatched once
  under the grants it was reserved with, an overrun stops its connection, and secrets stay in custody.
\<close>

section \<open>Caps\<close>

lemma within_each_iff: "within_each t b cs = Inr () \<longleftrightarrow> (\<forall>c \<in> set cs. within t b c = Inr ())"
  by (induction cs) (auto simp: and_then_Inr)

lemma within_budgets_each:
  "within_budgets s m b ks = Inr () \<Longrightarrow> (k, cs) \<in> set ks \<Longrightarrow>
     \<exists>t. totals s k m = Inr t \<and> (\<forall>c \<in> set cs. within t b c = Inr ())"
  by (induction ks) (auto simp: and_then_Inr within_each_iff)

lemma budgets_caps:
  assumes "g \<in> set grants"
  shows "\<exists>cs. (ag_budget g, cs) \<in> set (budgets grants) \<and> ag_caps g \<in> set cs"
proof -
  have "bt_wf (budgets gs) \<and> (\<forall>g \<in> set gs. \<exists>cs. bt_get (budgets gs) (ag_budget g) = Some cs \<and> ag_caps g \<in> set cs)" for gs
  proof (induction gs rule: rev_induct)
    case Nil
    show ?case by (simp add: budgets_def bt_wf_def)
  next
    case (snoc x gs)
    then show ?case by (auto simp: budgets_def bt_wf_insert bt_get_insert split: option.split)
  qed
  with assms show ?thesis by (metis bt_entries_get)
qed

lemma bt_insert_fresh:
  "bt_get m i = None \<Longrightarrow> \<exists>xs ys. m = xs @ ys \<and> bt_insert i a m = xs @ (i, a) # ys"
proof (induction m)
  case Nil
  then show ?case by simp
next
  case (Cons e m)
  show ?case
  proof (cases "i < fst e")
    case True
    then show ?thesis by (intro exI [of _ "[]"] exI [of _ "e # m"]) simp
  next
    case False
    have "i \<noteq> fst e" "bt_get m i = None" using Cons.prems by (auto simp: bt_get_def split: if_splits)
    with Cons.IH obtain xs ys where "m = xs @ ys" "bt_insert i a m = xs @ (i, a) # ys" by blast
    with False \<open>i \<noteq> fst e\<close> show ?thesis by (intro exI [of _ "e # xs"] exI [of _ ys]) simp
  qed
qed

lemma ledger_insert:
  assumes "bt_get (st_attempts s) i = None" and "at_month a = m" "charges a k"
    and "st_attempts s' = bt_insert i a (st_attempts s)"
  shows "ledger s' k m = charged a + ledger s k m"
proof -
  obtain xs ys where "st_attempts s = xs @ ys" "bt_insert i a (st_attempts s) = xs @ (i, a) # ys"
    using bt_insert_fresh [OF assms(1)] by blast
  with assms show ?thesis by (simp add: ledger_def bt_values_def)
qed

definition within_caps :: "caps \<Rightarrow> charge multiset \<Rightarrow> bool" where
  "within_caps caps M \<longleftrightarrow>
     (\<forall>cap. cap_tokens caps = Some cap \<longrightarrow> (\<Sum>x \<in># M. charge_tokens x) \<le> unat cap) \<and>
     (\<forall>cap. cap_money caps = Some cap \<longrightarrow>
        (\<forall>x \<in># M. \<exists>v. snd x = Some v \<and> mn_currency v = mn_currency cap) \<and>
        (\<Sum>x \<in># M. charge_in (mn_currency cap) x) \<le> unat (mn_micros cap))"

lemma checked_add_le:
  assumes "checked_add a (ucast (x :: u64) :: u128) = Some v" and "v \<le> ucast (cap :: u64)"
  shows "unat x + unat a \<le> unat cap"
proof -
  from assms(2) have "unat v \<le> unat (ucast cap :: u128)" by (simp add: word_le_nat_alt)
  with checked_add_Some [OF assms(1)] show ?thesis by simp
qed

lemma within_caps_added:
  assumes "totals_of t M" and "within t b caps = Inr ()"
  shows "within_caps caps (add_mset (bd_tokens b, bd_money b) M)"
proof -
  have "within_tokens t b cap" if "cap_tokens caps = Some cap" for cap
    using assms(2) that by (simp add: within_def)
  then have tokens: "(\<Sum>x \<in># add_mset (bd_tokens b, bd_money b) M. charge_tokens x) \<le> unat cap"
    if "cap_tokens caps = Some cap" for cap
    using that assms(1) by (auto simp: within_tokens_def summarises_def charge_tokens_def dest!: checked_add_le split: option.split_asm)
  have money: "(\<forall>x \<in># add_mset (bd_tokens b, bd_money b) M. \<exists>v. snd x = Some v \<and> mn_currency v = mn_currency cap) \<and>
      (\<Sum>x \<in># add_mset (bd_tokens b, bd_money b) M. charge_in (mn_currency cap) x) \<le> unat (mn_micros cap)"
    if cap: "cap_money caps = Some cap" for cap
  proof -
    from cap assms(2) have w: "within_money t b cap = Inr ()" by (auto simp: within_def and_then_Inr)
    then obtain v where m: "bd_money b = Some v" by (cases "bd_money b") (simp_all add: within_money_def)
    with w have v: "mn_currency v = mn_currency cap" "\<not> tt_unknown_money t"
      "list_all (\<lambda>c. c = mn_currency cap) (bt_keys (tt_money t))"
      and add: "case checked_add (amount_at (tt_money t) (mn_currency cap)) (ucast (mn_micros v)) of
        None \<Rightarrow> False | Some x \<Rightarrow> x \<le> ucast (mn_micros cap)"
      by (simp_all add: within_money_def)
    from add have sum: "unat (mn_micros v) + unat (amount_at (tt_money t) (mn_currency cap)) \<le> unat (mn_micros cap)"
      by (auto dest!: checked_add_le split: option.split_asm)
    have "\<exists>w. snd x = Some w \<and> mn_currency w = mn_currency cap" if x: "x \<in># M" for x
    proof (cases "snd x")
      case None
      with x have "None \<in> snd ` set_mset M" by (metis image_eqI)
      with v(2) assms(1) show ?thesis by (simp add: summarises_def)
    next
      case (Some w)
      with x have "Some w \<in> snd ` set_mset M" by (metis image_eqI)
      moreover have "set (bt_keys (tt_money t)) = {mn_currency v |v. Some v \<in> snd ` set_mset M}"
        using assms(1) by (simp add: summarises_def)
      ultimately have "mn_currency w \<in> set (bt_keys (tt_money t))" by blast
      with v(3) Some show ?thesis by (simp add: list_all_iff)
    qed
    with m v sum assms(1) show ?thesis by (simp add: summarises_def charge_in_def)
  qed
  from tokens money show ?thesis unfolding within_caps_def by blast
qed

section \<open>Attempts over time\<close>

text \<open>What a reservation fixes of its attempt.\<close>

definition attempt_terms :: "attempt \<Rightarrow> invocation \<times> applicable_grant list \<times> month \<times> bound \<times> u64 \<times> u64" where
  "attempt_terms a = (at_invocation a, at_grants a, at_month a, at_bound a, at_reserved_until a, at_reconcile_by a)"

lemma attempt_terms_family: "attempt_terms a = attempt_terms b \<Longrightarrow> family a = family b"
  by (simp add: attempt_terms_def family_def)

lemma attempt_terms_update [simp]:
  "attempt_terms (a\<lparr>at_phase := p\<rparr>) = attempt_terms a" "attempt_terms (a\<lparr>at_revision := n\<rparr>) = attempt_terms a"
  "attempt_terms (a\<lparr>at_unknown_evidence := w\<rparr>) = attempt_terms a"
  "attempt_terms (a\<lparr>at_reconciled_with := w\<rparr>) = attempt_terms a"
  by (simp_all add: attempt_terms_def)

lemma measure_attempt_simps [simp]:
  "attempt_terms (measure_attempt u e over a) = attempt_terms a" "at_phase (measure_attempt u e over a) = ASettled"
  "at_overrun (measure_attempt u e over a) = (over \<or> at_overrun a)"
  "at_reconciled_with (measure_attempt u e over a) = (if over then None else at_reconciled_with a)"
  by (simp_all add: measure_attempt_def Let_def attempt_terms_def)

lemma update_attempt_get:
  "bt_get (st_attempts (update_attempt i f s)) j =
     (if j = i then map_option (\<lambda>a. (f a)\<lparr>at_revision := at_revision a + 1\<rparr>) (bt_get (st_attempts s) j)
      else bt_get (st_attempts s) j)"
  by (simp add: update_attempt_def bt_get_modify)

lemma settle_attempts: "st_attempts (settle_attempt i u e over s) = st_attempts (update_attempt i (measure_attempt u e over) s)"
  by (simp add: settle_attempt_def Let_def split: option.split)

fun reserves :: "string \<Rightarrow> connection_change \<Rightarrow> bool" where
  "reserves i (SpendChange (ReservedEv j _ _)) = (j = i)"
| "reserves i _ = False"

fun leaves_reserved :: "string \<Rightarrow> connection_change \<Rightarrow> bool" where
  "leaves_reserved i (SpendChange (DispatchedEv j _)) = (j = i)"
| "leaves_reserved i (SpendChange (ReleasedEv j)) = (j = i)"
| "leaves_reserved i _ = False"

lemma evolve_other_attempts: "\<nexists>x. ch = SpendChange x \<Longrightarrow> st_attempts (evolve_change s now ch) = st_attempts s"
  by (cases ch) (simp_all add: update_version_def)

lemma evolve_attempt:
  assumes "change_admitted s actor now ch" and "bt_wf (st_attempts s)" and "bt_get (st_attempts s) i = Some a"
  shows "\<exists>a'. bt_get (st_attempts (evolve_change s now ch)) i = Some a' \<and> attempt_terms a' = attempt_terms a \<and>
    \<not> reserves i ch \<and> (leaves_reserved i ch \<longrightarrow> at_phase a = AReserved \<and> at_phase a' \<noteq> AReserved) \<and>
    (at_phase a \<noteq> AReserved \<longrightarrow> at_phase a' \<noteq> AReserved)"
proof (cases ch)
  case (SpendChange x)
  with assms show ?thesis
    by (cases x) (auto simp: update_attempt_get settle_attempts bt_get_insert attempt_is_def dispatchable_def)
qed (use assms in \<open>auto simp: update_version_def\<close>)

lemma evolve_new_attempt:
  assumes "bt_wf (st_attempts s)" and "bt_get (st_attempts s) i = None"
    and "bt_get (st_attempts (evolve_change s now ch)) i = Some a"
  shows "\<exists>obs. ch = SpendChange (ReservedEv i a obs)"
proof (cases ch)
  case (SpendChange x)
  with assms show ?thesis
    by (cases x) (auto simp: update_attempt_get settle_attempts bt_get_insert split: if_splits)
qed (use assms in \<open>auto simp: update_version_def\<close>)

lemma inv_attempts_wf: "connection_inv s \<Longrightarrow> bt_wf (st_attempts s)"
  by (simp add: connection_inv_def attempts_ok_def)

lemma event_attempt:
  assumes "event_admitted s e" and "connection_inv s" and "bt_get (st_attempts s) i = Some a"
  obtains a' where "bt_get (st_attempts (connection_evolve s e)) i = Some a'" "attempt_terms a' = attempt_terms a"
    "\<not> reserves i (ce_change e)"
    "leaves_reserved i (ce_change e) \<Longrightarrow> at_phase a = AReserved \<and> at_phase a' \<noteq> AReserved"
    "at_phase a \<noteq> AReserved \<Longrightarrow> at_phase a' \<noteq> AReserved"
  using evolve_attempt [of "stamp e s" "ce_actor e" "ce_at e" "ce_change e" i a] assms that
  by (auto simp: connection_evolve_stamp event_admitted_def change_admitted_stamp inv_attempts_wf)

lemma events_attempt:
  assumes "events_admitted s es" and "connection_inv s" and "bt_get (st_attempts s) i = Some a"
  shows "\<exists>a'. bt_get (st_attempts (foldl connection_evolve s es)) i = Some a' \<and> attempt_terms a' = attempt_terms a \<and>
    (\<forall>e \<in> set es. \<not> reserves i (ce_change e)) \<and>
    (at_phase a \<noteq> AReserved \<longrightarrow> (\<forall>e \<in> set es. \<not> leaves_reserved i (ce_change e)))"
  using assms
proof (induction es arbitrary: s a)
  case Nil
  then show ?case by simp
next
  case (Cons e es)
  from Cons.prems have "event_admitted s e" by simp
  from event_attempt [OF this Cons.prems(2,3)] obtain b where b:
    "bt_get (st_attempts (connection_evolve s e)) i = Some b" "attempt_terms b = attempt_terms a"
    "\<not> reserves i (ce_change e)"
    "leaves_reserved i (ce_change e) \<Longrightarrow> at_phase a = AReserved \<and> at_phase b \<noteq> AReserved"
    "at_phase a \<noteq> AReserved \<Longrightarrow> at_phase b \<noteq> AReserved"
    by metis
  have "events_admitted (connection_evolve s e) es" "connection_inv (connection_evolve s e)"
    using Cons.prems event_inv by auto
  from Cons.IH [OF this b(1)] b show ?case by auto
qed

lemma reserved_before:
  assumes "events_admitted connection_default es" and "bt_get (st_attempts (replayed es)) i = Some a"
  shows "\<exists>e \<in> set es. \<exists>b obs. ce_change e = SpendChange (ReservedEv i b obs) \<and> attempt_terms a = attempt_terms b"
  using assms
proof (induction es arbitrary: a rule: rev_induct)
  case Nil
  then show ?case by (simp add: connection_default_def bt_get_def)
next
  case (snoc e es)
  have adm: "events_admitted connection_default es" "event_admitted (replayed es) e"
    using snoc.prems(1) by (auto simp: events_admitted_append)
  note inv = events_inv [OF connection_default_inv adm(1)]
  show ?case
  proof (cases "bt_get (st_attempts (replayed es)) i")
    case None
    with snoc.prems(2) inv obtain obs where "ce_change e = SpendChange (ReservedEv i a obs)"
      using evolve_new_attempt [of "stamp e (replayed es)" i "ce_at e" "ce_change e" a]
      by (auto simp: connection_evolve_stamp [of "replayed es" e] inv_attempts_wf)
    then show ?thesis by auto
  next
    case (Some b)
    from event_attempt [OF adm(2) inv Some] snoc.prems(2) have "attempt_terms a = attempt_terms b" by auto
    with snoc.IH [OF adm(1) Some] show ?thesis by auto
  qed
qed

text \<open>
  C19. An attempt goes to the provider at most once. Every dispatch in the log of a command sequence
  follows the reservation of its attempt, by the final-fetch actor the reservation names, before its
  deadline; the grants are still exactly those of the reservation and the invocation names the
  version that is active at that moment; and nothing else in the log dispatches, releases or
  reserves this attempt again.
\<close>

theorem attempt_dispatched_once:
  assumes log: "lc_log (connection_lifecycle sd) connection_default cs = xs @ e # ys"
    and e: "ce_change e = SpendChange (DispatchedEv i obs)"
  shows "\<exists>a. (\<exists>r obs'. r \<in> set xs \<and> ce_change r = SpendChange (ReservedEv i a obs')) \<and>
    ce_actor e = iv_final_fetch (at_invocation a) \<and> ce_at e < at_reserved_until a \<and>
    map applicable_of (matching_grants (replayed xs) (at_invocation a)) = at_grants a \<and>
    (\<exists>c. bt_get (st_connections (replayed xs)) (iv_connection (at_invocation a)) = Some c \<and>
       active_version c = Some (iv_version (at_invocation a)) \<and>
       iv_model (at_invocation a) \<in> mp_models (cd_policy (cn_definition c))) \<and>
    (\<forall>f \<in> set xs \<union> set ys. \<not> leaves_reserved i (ce_change f)) \<and>
    (\<forall>f \<in> set ys. \<not> reserves i (ce_change f))"
proof -
  note facts = log_event [OF log]
  obtain a where a: "bt_get (st_attempts (replayed xs)) i = Some a" "dispatchable (replayed xs) (ce_actor e) (ce_at e) a"
    using facts(1) e by (auto simp: event_admitted_def attempt_is_def)
  then obtain ev where ap: "applicable (replayed xs) (at_invocation a) ev (ce_actor e) = Inr (at_grants a)"
    and phase: "at_phase a = AReserved" "ce_at e < at_reserved_until a" by (auto simp: dispatchable_def)
  from reserved_before [OF facts(4) a(1)] obtain r b obs' where
    b: "r \<in> set xs" "ce_change r = SpendChange (ReservedEv i b obs')" "attempt_terms a = attempt_terms b" by blast
  have before: "\<not> leaves_reserved i (ce_change f)" if f: "f \<in> set xs" for f
  proof
    assume gone: "leaves_reserved i (ce_change f)"
    from f obtain us vs where split: "xs = us @ f # vs" by (auto simp: in_set_conv_decomp)
    with log have log': "lc_log (connection_lifecycle sd) connection_default cs = us @ f # (vs @ e # ys)" by simp
    note early = log_event [OF log']
    obtain d where d: "bt_get (st_attempts (replayed us)) i = Some d"
      using early(1) gone by (auto simp: event_admitted_def attempt_is_def elim!: leaves_reserved.elims)
    from event_attempt [OF early(1,2) d] gone obtain d' where
      "bt_get (st_attempts (replayed (us @ [f]))) i = Some d'" "at_phase d' \<noteq> AReserved" by auto
    from events_attempt [OF early(3) _ this(1)] this(2) event_inv [OF early(2,1)] e show False by simp
  qed
  from event_attempt [OF facts(1,2) a(1)] e obtain a' where
    a': "bt_get (st_attempts (replayed (xs @ [e]))) i = Some a'" "at_phase a' \<noteq> AReserved" by auto
  from events_attempt [OF facts(3) _ a'(1)] a'(2) event_inv [OF facts(2,1)]
  have after: "\<forall>f \<in> set ys. \<not> leaves_reserved i (ce_change f) \<and> \<not> reserves i (ce_change f)" by auto
  show ?thesis
    using applicable_Inr [OF ap] phase b before after
    by (intro exI [of _ b]) (auto simp: attempt_terms_def connection_is_def)
qed

lemma sample_split:
  "n < 10 \<Longrightarrow> lc_log (connection_lifecycle sample_connection_serde) connection_default sample_connection_commands =
     take n sample_connection_log @ sample_connection_log ! n # drop (Suc n) sample_connection_log"
  using id_take_nth_drop [of n sample_connection_log] sample_length by (simp add: sample_connection_log_def)

theorem attempt_dispatched_once_witness:
  "ce_change (sample_connection_log ! 6) = SpendChange (DispatchedEv ''a'' ''obs'') \<and>
   list_all (\<lambda>f. \<not> leaves_reserved ''a'' (ce_change f)) (take 6 sample_connection_log @ drop 7 sample_connection_log)"
proof -
  have e: "ce_change (sample_connection_log ! 6) = SpendChange (DispatchedEv ''a'' ''obs'')" by code_simp
  from attempt_dispatched_once [OF sample_split [of 6] e] e show ?thesis by (auto simp: list_all_iff)
qed

section \<open>Spend\<close>

text \<open>
  C18. Spend stays within every cap. When the log of a command sequence reserves an attempt, then for every
  grant that is active at that moment on the connection and whose subject is the invoking member or the
  project, the charges of its budget in the accounting month of the reservation, the new one
  included, add up to at most the grant's token cap; under a money cap all of them are priced in the
  cap's currency and add up to at most its amount. No sum wraps: they are sums of natural numbers.
\<close>

theorem spend_within_caps:
  assumes log: "lc_log (connection_lifecycle sd) connection_default cs = xs @ e # ys"
    and e: "ce_change e = SpendChange (ReservedEv i a obs)"
    and g: "bt_get (st_grants (replayed xs)) j = Some g" "gr_status g = GActive"
      "gd_connection (gr_definition g) = iv_connection (at_invocation a)"
      "subject_of (gd_subject (gr_definition g)) (at_invocation a)"
  shows "month_at (ce_at e) = Some (at_month a) \<and>
    (bd_tokens (at_bound a), bd_money (at_bound a)) \<in># ledger (replayed (xs @ [e])) (gr_budget g) (at_month a) \<and>
    within_caps (gd_caps (gr_definition g)) (ledger (replayed (xs @ [e])) (gr_budget g) (at_month a))"
proof -
  let ?s = "replayed xs"
  note facts = log_event [OF log]
  have fresh: "bt_get (st_attempts ?s) i = None" and res: "reservable ?s (ce_actor e) (ce_at e) a"
    using facts(1) e by (auto simp: event_admitted_def)
  obtain ev where ap: "applicable ?s (at_invocation a) ev (ce_actor e) = Inr (at_grants a)"
    and new: "a = new_attempt (at_invocation a) (at_grants a) (the (month_at (ce_at e))) (at_bound a)
      (at_reserved_until a) (at_reconcile_by a)"
    and budgets: "within_budgets ?s (at_month a) (at_bound a) (budgets (at_grants a)) = Inr ()"
    using res by (auto simp: reservable_def)
  have ok: "grants_ok ?s" using facts(2) by (simp add: connection_inv_def)
  have "(j, g) \<in> set (matching_grants ?s (at_invocation a))"
    using g ok by (auto simp: matching_grants_def grants_ok_def bt_entries_get)
  then have mem: "applicable_of (j, g) \<in> set (at_grants a)" using applicable_Inr(2) [OF ap] by (metis imageI list.set_map)
  have charge: "charges a (gr_budget g)" "charged a = {#(bd_tokens (at_bound a), bd_money (at_bound a))#}"
    using reservable_ok [OF ok res] mem by (auto simp: attempt_ok_def applicable_of_def charged_def)
  have "ledger (replayed (xs @ [e])) (gr_budget g) (at_month a) = charged a + ledger ?s (gr_budget g) (at_month a)"
    using fresh charge(1) e by (intro ledger_insert [where i = i]) (simp_all add: connection_evolve_stamp [of ?s e])
  moreover from budgets_caps [OF mem] obtain caps where
    "(gr_budget g, caps) \<in> set (budgets (at_grants a))" "gd_caps (gr_definition g) \<in> set caps"
    by (auto simp: applicable_of_def)
  with within_budgets_each [OF budgets] obtain t where
    "totals ?s (gr_budget g) (at_month a) = Inr t" "within t (at_bound a) (gd_caps (gr_definition g)) = Inr ()" by blast
  from within_caps_added [OF totals_exact [OF this(1)] this(2)]
  have "within_caps (gd_caps (gr_definition g))
      (add_mset (bd_tokens (at_bound a), bd_money (at_bound a)) (ledger ?s (gr_budget g) (at_month a)))" .
  moreover have "at_month a = the (month_at (ce_at e))" by (subst new) simp
  ultimately show ?thesis using charge(2) month_at_defined [of "ce_at e"] by auto
qed

definition sample_reserved :: attempt where
  "sample_reserved = new_attempt sample_invocation
     [\<lparr>ag_id = ''g'', ag_revision = 1, ag_budget = BudgetKey ''c'' (MemberSubject ''alice''), ag_caps = sample_caps\<rparr>]
     (Month 1970 1) (sample_bound ''two'') 10 20"

text \<open>The second reservation of the sample: 41 tokens are settled, 40 more fit under the cap of 100.\<close>

theorem spend_within_caps_witness:
  "within_caps sample_caps (ledger (replayed (take 9 sample_connection_log @ [sample_connection_log ! 9]))
     (BudgetKey ''c'' (MemberSubject ''alice'')) (Month 1970 1))"
proof -
  have e: "ce_change (sample_connection_log ! 9) = SpendChange (ReservedEv ''b'' sample_reserved ''obs'')" by code_simp
  have g: "bt_get (st_grants (replayed (take 9 sample_connection_log))) ''g'' = Some \<lparr>gr_definition = sample_grant,
      gr_budget = BudgetKey ''c'' (MemberSubject ''alice''), gr_revision = 1, gr_status = GActive\<rparr>" by code_simp
  from spend_within_caps [OF sample_split [of 9] e g] show ?thesis
    by (simp add: sample_grant_def sample_reserved_def new_attempt_def sample_invocation_def)
qed

section \<open>Overruns\<close>

text \<open>The attempt a change sends towards the provider.\<close>

fun launched :: "connection_state \<Rightarrow> connection_change \<Rightarrow> attempt option" where
  "launched s (SpendChange (ReservedEv _ a _)) = Some a"
| "launched s (SpendChange (DispatchedEv i _)) = bt_get (st_attempts s) i"
| "launched s _ = None"

fun overruns :: "string \<Rightarrow> connection_change \<Rightarrow> bool" where
  "overruns i (SpendChange (SettledEv j _ _ over)) = (j = i \<and> over)"
| "overruns i (SpendChange (CorrectedEv j _ _ over)) = (j = i \<and> over)"
| "overruns i _ = False"

fun reconciles :: "string \<Rightarrow> connection_change \<Rightarrow> bool" where
  "reconciles i (SpendChange (OverrunReconciledEv j _ _)) = (j = i)"
| "reconciles i _ = False"

lemma launched_eligible:
  "event_admitted s e \<Longrightarrow> launched s (ce_change e) = Some b \<Longrightarrow> eligible s (family b) (at_bound b) = Inr ()"
  by (auto simp: event_admitted_def attempt_is_def dispatchable_def reservable_def elim!: launched.elims)

definition overrun_open :: "connection_state \<Rightarrow> string \<Rightarrow> bool" where
  "overrun_open s i \<longleftrightarrow> attempt_is s i (\<lambda>a. at_overrun a \<and> at_reconciled_with a = None)"

lemma evolve_overrun_open:
  assumes "change_admitted s actor now ch" and "bt_wf (st_attempts s)" and "overrun_open s i" and "\<not> reconciles i ch"
  shows "overrun_open (evolve_change s now ch) i"
proof (cases ch)
  case (SpendChange x)
  with assms show ?thesis
    by (cases x) (auto simp: overrun_open_def attempt_is_def update_attempt_get settle_attempts bt_get_insert)
qed (use assms in \<open>auto simp: overrun_open_def attempt_is_def update_version_def\<close>)

lemma evolve_overruns:
  "change_admitted s actor now ch \<Longrightarrow> overruns i ch \<Longrightarrow> overrun_open (evolve_change s now ch) i"
  by (auto simp: overrun_open_def attempt_is_def update_attempt_get settle_attempts elim!: overruns.elims)

lemma event_overrun:
  assumes "event_admitted s e" and "connection_inv s"
  shows "overruns i (ce_change e) \<Longrightarrow> overrun_open (connection_evolve s e) i"
    and "overrun_open s i \<Longrightarrow> \<not> reconciles i (ce_change e) \<Longrightarrow> overrun_open (connection_evolve s e) i"
proof -
  have adm: "change_admitted (stamp e s) (ce_actor e) (ce_at e) (ce_change e)"
    using assms(1) by (simp add: change_admitted_stamp event_admitted_def)
  have wf: "bt_wf (st_attempts (stamp e s))" using assms(2) by (simp add: inv_attempts_wf)
  show "overruns i (ce_change e) \<Longrightarrow> overrun_open (connection_evolve s e) i"
    unfolding connection_evolve_stamp by (rule evolve_overruns [OF adm])
  show "overrun_open s i \<Longrightarrow> \<not> reconciles i (ce_change e) \<Longrightarrow> overrun_open (connection_evolve s e) i"
    unfolding connection_evolve_stamp by (rule evolve_overrun_open [OF adm wf]) (simp_all add: overrun_open_def)
qed

lemma events_overrun:
  "events_admitted s es \<Longrightarrow> connection_inv s \<Longrightarrow> overrun_open s i \<Longrightarrow> \<forall>e \<in> set es. \<not> reconciles i (ce_change e) \<Longrightarrow>
     overrun_open (foldl connection_evolve s es) i"
  by (induction es arbitrary: s) (auto simp: event_inv event_overrun)

lemma evolve_failed:
  "st_failed_enforcements s \<subseteq> st_failed_enforcements (evolve_change s now ch)"
proof (cases ch)
  case (SpendChange x)
  then show ?thesis
    by (cases x) (auto simp: update_attempt_def settle_attempt_def Let_def split: option.split)
qed (auto simp: update_version_def)

lemma events_failed: "st_failed_enforcements s \<subseteq> st_failed_enforcements (foldl connection_evolve s es)"
proof (induction es arbitrary: s)
  case (Cons e es)
  have "st_failed_enforcements s \<subseteq> st_failed_enforcements (connection_evolve s e)"
    using evolve_failed [of "stamp e s"] by (simp add: connection_evolve_stamp)
  with Cons show ?case by auto
qed simp

lemma open_blocks:
  assumes "overrun_open s i" and "connection_inv s" and "bt_get (st_attempts s) i = Some a"
  shows "overrun_pending s (family a)" "bd_enforcement (at_bound a) \<in> st_failed_enforcements s"
proof -
  have over: "at_overrun a" "at_reconciled_with a = None" using assms by (auto simp: overrun_open_def attempt_is_def)
  moreover have "a \<in> set (bt_values (st_attempts s))"
    using assms(2,3) by (auto simp: bt_values_iff inv_attempts_wf)
  ultimately show "overrun_pending s (family a)" by (auto simp: overrun_pending_def list_ex_iff)
  show "bd_enforcement (at_bound a) \<in> st_failed_enforcements s"
    using assms(2,3) over(1) by (auto simp: connection_inv_def attempts_ok_def attempt_ok_def)
qed

text \<open>Usage beyond what was reserved: more tokens, or, when the reservation was priced, more money, money
  of another currency, or no known cost.\<close>

definition beyond :: "usage \<Rightarrow> bound \<Rightarrow> bool" where
  "beyond u b \<longleftrightarrow> bd_tokens b < us_tokens u \<or>
     (case bd_money b of
        None \<Rightarrow> False
      | Some m \<Rightarrow> (case us_money u of
          None \<Rightarrow> True
        | Some x \<Rightarrow> mn_currency x \<noteq> mn_currency m \<or> mn_micros m < mn_micros x))"

fun measures :: "connection_change \<Rightarrow> (string \<times> usage) option" where
  "measures (SpendChange (SettledEv i u _ _)) = Some (i, u)"
| "measures (SpendChange (CorrectedEv i u _ _)) = Some (i, u)"
| "measures _ = None"

lemma measures_beyond:
  assumes "event_admitted s e" "measures (ce_change e) = Some (i, u)" "bt_get (st_attempts s) i = Some a"
    "beyond u (at_bound a)"
  shows "overruns i (ce_change e)"
proof -
  have "\<not> usage_within u (at_bound a)"
    using assms(4) by (auto simp: beyond_def usage_within_def not_less split: option.splits)
  then have over: "over" if "measured a u ev = Inr (Some over)" for ev over using measured_over [OF that] by simp
  from assms(2) consider ev over where "ce_change e = SpendChange (SettledEv i u ev over)"
    | ev over where "ce_change e = SpendChange (CorrectedEv i u ev over)"
    by (auto elim!: measures.elims)
  then show ?thesis
    by cases (use assms(1,3) over in \<open>auto simp: event_admitted_def attempt_is_def\<close>)
qed

text \<open>
  C20. An overrun stops its connection. After an event that records, in a settlement or a correction, usage
  beyond the bound of an attempt, no attempt is reserved or dispatched any more under the bound
  enforcement that failed, and none in the same budget family before the overrun is reconciled.
\<close>

theorem overrun_freezes:
  assumes log: "lc_log (connection_lifecycle sd) connection_default cs = xs @ e # ys @ f # zs"
    and e: "measures (ce_change e) = Some (i, u)" "bt_get (st_attempts (replayed xs)) i = Some a" "beyond u (at_bound a)"
    and f: "launched (replayed (xs @ e # ys)) (ce_change f) = Some b"
  shows "bd_enforcement (at_bound b) \<noteq> bd_enforcement (at_bound a) \<and>
    (family b = family a \<longrightarrow> (\<exists>r \<in> set ys. reconciles i (ce_change r)))"
proof -
  let ?s = "replayed (xs @ [e])" and ?t = "replayed (xs @ e # ys)"
  have log': "lc_log (connection_lifecycle sd) connection_default cs = (xs @ e # ys) @ f # zs" using log by simp
  note early = log_event [OF log] and late = log_event [OF log']
  have inv: "connection_inv ?s" using event_inv [OF early(2,1)] by simp
  have adm: "events_admitted ?s ys" using early(3) by (simp add: events_admitted_append)
  have "events_admitted (replayed xs) [e]" using early(1) by simp
  from events_attempt [OF this early(2) e(2)] obtain a1 where
    a1: "bt_get (st_attempts ?s) i = Some a1" "attempt_terms a1 = attempt_terms a" by auto
  have open_s: "overrun_open ?s i" using event_overrun(1) [OF early(1,2) measures_beyond [OF early(1) e]] by simp
  have eligible: "bd_enforcement (at_bound b) \<notin> st_failed_enforcements ?t" "\<not> overrun_pending ?t (family b)"
    using launched_eligible [OF late(1) f] by (auto simp: eligible_def)
  have "bd_enforcement (at_bound a1) \<in> st_failed_enforcements ?t"
    using open_blocks(2) [OF open_s inv a1(1)] events_failed [of ?s ys] by auto
  moreover have "at_bound a1 = at_bound a" using a1(2) by (simp add: attempt_terms_def)
  moreover have "\<exists>r \<in> set ys. reconciles i (ce_change r)" if "family b = family a"
  proof (rule ccontr)
    assume "\<not> (\<exists>r \<in> set ys. reconciles i (ce_change r))"
    then have "overrun_open ?t i" using events_overrun [OF adm inv open_s] by simp
    moreover obtain a' where "bt_get (st_attempts ?t) i = Some a'" "attempt_terms a' = attempt_terms a1"
      using events_attempt [OF adm inv a1(1)] by auto
    ultimately show False using open_blocks(1) [OF _ late(2)] eligible(2) that a1(2) attempt_terms_family by metis
  qed
  ultimately show ?thesis using eligible(1) by metis
qed

theorem overrun_freezes_witness:
  "\<exists>u a. measures (ce_change (sample_connection_log ! 7)) = Some (''a'', u) \<and>
     bt_get (st_attempts (replayed (take 7 sample_connection_log))) ''a'' = Some a \<and> beyond u (at_bound a) \<and>
     bd_enforcement (at_bound sample_reserved) \<noteq> bd_enforcement (at_bound a) \<and>
     reconciles ''a'' (ce_change (sample_connection_log ! 8))"
proof -
  have log: "lc_log (connection_lifecycle sample_connection_serde) connection_default sample_connection_commands =
      take 7 sample_connection_log @ sample_connection_log ! 7 # [sample_connection_log ! 8] @ sample_connection_log ! 9 # []"
    using sample_split [of 7] Cons_nth_drop_Suc [of 8 sample_connection_log] Cons_nth_drop_Suc [of 9 sample_connection_log]
    by (simp add: sample_length)
  have "(case measures (ce_change (sample_connection_log ! 7)) of None \<Rightarrow> False | Some (i, u) \<Rightarrow> i = ''a'' \<and>
      (case bt_get (st_attempts (replayed (take 7 sample_connection_log))) ''a'' of None \<Rightarrow> False
       | Some a \<Rightarrow> beyond u (at_bound a) \<and> family sample_reserved = family a))" by code_simp
  then obtain u a where e: "measures (ce_change (sample_connection_log ! 7)) = Some (''a'', u)"
      "bt_get (st_attempts (replayed (take 7 sample_connection_log))) ''a'' = Some a" "beyond u (at_bound a)"
    and fam: "family sample_reserved = family a"
    by (auto split: option.splits)
  have f: "launched (replayed (take 7 sample_connection_log @ sample_connection_log ! 7 # [sample_connection_log ! 8]))
      (ce_change (sample_connection_log ! 9)) = Some sample_reserved" by code_simp
  from overrun_freezes [OF log e f] e fam show ?thesis by auto
qed

section \<open>Custody\<close>

text \<open>
  C21. Secrets stay in custody. In every state that commands reach, no two versions hold or are to erase the
  same handle; the material of a failed, cancelled or expired version, and of every version of a
  connection whose erasure was requested, is due for erasure or erased; all material of an erased
  connection is erased; and the active version of a connection is one that was verified by a
  named check and activated, and whose material is held.
\<close>

theorem credential_custody:
  assumes s: "s = lc_drive (connection_lifecycle sd) connection_default cs"
    and c: "bt_get (st_connections s) i = Some c" "bt_get (cn_versions c) v = Some item"
  shows "(\<forall>j d w x h. bt_get (st_connections s) j = Some d \<and> bt_get (cn_versions d) w = Some x \<and>
       handle_of (vs_material x) = Some h \<and> handle_of (vs_material item) = Some h \<longrightarrow> j = i \<and> w = v) \<and>
    (vs_phase item \<in> {VCancelled, VExpired} \<union> range VFailed \<or> cn_erasure_requested c \<longrightarrow> material_due (vs_material item)) \<and>
    (cn_status c = CErased \<longrightarrow> material_erased (vs_material item)) \<and>
    (active_version c = Some v \<longrightarrow>
       (\<exists>e h. vs_phase item = VActivated e \<and> vs_material item = Held h \<and> vs_verification item \<noteq> None))"
proof -
  have inv: "connection_inv s" unfolding s
    by (rule conjunct2 [OF conjunct2 [OF connection_trace.log_tinv [of sd cs, unfolded connection_lifecycle_simps]]])
  then have ok: "version_ok c item" using c by (auto simp: connection_inv_def connections_ok_def custody_ok_def)
  have "j = i \<and> w = v" if "bt_get (st_connections s) j = Some d" "bt_get (cn_versions d) w = Some x"
      "handle_of (vs_material x) = Some h" "handle_of (vs_material item) = Some h" for j d w x h
  proof -
    have "holds_at s j w h" "holds_at s i v h" using that c by (auto simp: holds_at_def connection_is_def version_is_def)
    with inv show ?thesis unfolding connection_inv_def handles_ok_def by blast
  qed
  moreover have "\<exists>e h. vs_phase item = VActivated e \<and> vs_material item = Held h \<and> vs_verification item \<noteq> None"
    if "active_version c = Some v"
  proof -
    have "version_usable item" using that c(2)
      by (auto simp: active_version_def split: option.split_asm if_split_asm)
    then obtain e h where "vs_phase item = VActivated e" "vs_material item = Held h"
      by (auto simp: version_usable_def elim!: version_activated.elims material_held.elims)
    with ok show ?thesis by (auto simp: version_ok_def)
  qed
  moreover have "material_due (vs_material item)"
    if "vs_phase item \<in> {VCancelled, VExpired} \<union> range VFailed \<or> cn_erasure_requested c"
    using that ok by (auto simp: version_ok_def)
  ultimately show ?thesis using ok by (auto simp: version_ok_def)
qed

theorem credential_custody_witness:
  "\<exists>c item. active_version c = Some ''v'' \<and> bt_get (cn_versions c) ''v'' = Some item \<and>
     vs_material item = Held ''h'' \<and> vs_verification item \<noteq> None"
proof -
  let ?s = "lc_drive (connection_lifecycle sample_connection_serde) connection_default sample_connection_commands"
  have "(case bt_get (st_connections ?s) ''c'' of None \<Rightarrow> False | Some c \<Rightarrow> active_version c = Some ''v'' \<and>
      map_option vs_material (bt_get (cn_versions c) ''v'') = Some (Held ''h''))" by code_simp
  then obtain c item where c: "bt_get (st_connections ?s) ''c'' = Some c" "bt_get (cn_versions c) ''v'' = Some item"
    "active_version c = Some ''v''" "vs_material item = Held ''h''" by (auto split: option.split_asm)
  with credential_custody [OF refl c(1,2)] show ?thesis by blast
qed

end
