(* ===== verification/Plan.thy ===== *)
theory Plan
  imports Lifecycle
begin

text \<open>
  Plan standing, \<open>crates/core/src/plan.rs\<close>: a plan's steps block one another, are claimed under a
  lease, collect evidence and are settled on evidence the current policy epoch accepts. The cycle
  counter of a step wraps at \<open>2^32\<close> reopenings, as in a release build (a debug build panics there).
\<close>

section \<open>Data\<close>

definition PLAN_KIND :: string where
  "PLAN_KIND = ''work_plan''"

datatype evidence_kind = Attestation | WorkRecord

record settlement_policy =
  accepts :: "evidence_kind set"
  claimant_may_settle :: bool

definition independent_attestation :: settlement_policy where
  "independent_attestation = \<lparr>accepts = {Attestation}, claimant_may_settle = False\<rparr>"

record step_spec =
  spec_id :: string
  spec_title :: string
  spec_blocked_by :: "string set"

record step_claim =
  holder :: authority_id
  claimed_at_ms :: u64
  lease_until_ms :: u64

definition is_live :: "step_claim \<Rightarrow> u64 \<Rightarrow> bool" where
  "is_live c now \<longleftrightarrow> now < lease_until_ms c"

record evidence =
  ev_id :: string
  ev_step :: string
  ev_kind :: evidence_kind
  author :: authority_id
  ev_reference :: string
  ev_cycle :: u32
  recorded_at_ms :: u64

record reopen_cause =
  cause_reference :: string
  cause_reason :: string

record step_settlement =
  set_evidence :: string
  set_epoch :: u32
  set_by :: authority_id
  set_at_ms :: u64

record step_state =
  step_title :: string
  blocked_by :: "string set"
  cycle :: u32
  claim :: "step_claim option"
  settlement :: "step_settlement option"
  reopened :: "reopen_cause list"

datatype plan_phase = Init | Active | Superseded

record plan_state =
  phase :: plan_phase
  plan_id :: string
  plan_title :: string
  proposer :: "authority_id option"
  policies :: "settlement_policy list"
  steps :: "string \<rightharpoonup> step_state"
  evidence :: "string \<rightharpoonup> evidence"
  superseded_by :: "string option"

definition plan_default :: plan_state where
  "plan_default = \<lparr>phase = Init, plan_id = [], plan_title = [], proposer = None, policies = [],
     steps = Map.empty, evidence = Map.empty, superseded_by = None\<rparr>"

section \<open>Readiness\<close>

datatype readiness =
    Blocked "string set"
  | Ready
  | Claimed authority_id u64
  | Settled

definition epoch :: "plan_state \<Rightarrow> u32 option" where
  "epoch s = (if length (policies s) = 0 then None
              else Some (word_of_nat (length (policies s) - 1)))"

definition unsettled_blockers :: "plan_state \<Rightarrow> step_state \<Rightarrow> string set" where
  "unsettled_blockers s st =
     Set.filter (\<lambda>b. case steps s b of None \<Rightarrow> True | Some x \<Rightarrow> settlement x = None)
       (blocked_by st)"

definition readiness :: "plan_state \<Rightarrow> string \<Rightarrow> u64 \<Rightarrow> readiness option" where
  "readiness s step now =
     (case steps s step of
        None \<Rightarrow> None
      | Some st \<Rightarrow>
          if settlement st \<noteq> None then Some Settled
          else
            let by = unsettled_blockers s st;
                unclaimed = Some (if by = {} then Ready else Blocked by)
            in case claim st of
                 Some c \<Rightarrow>
                   if is_live c now then Some (Claimed (holder c) (lease_until_ms c)) else unclaimed
               | None \<Rightarrow> unclaimed)"

section \<open>Commands and events\<close>

datatype plan_command =
    Propose string string authority_id "step_spec list" settlement_policy u64
  | ClaimStep string authority_id u64 u64
  | ReleaseStep string authority_id u64
  | RecordEvidence string evidence_kind authority_id string u64
  | SettleStep string string authority_id u64
  | ReopenStep string reopen_cause authority_id u64
  | ReviseSettlementPolicy settlement_policy authority_id u64
  | Supersede string string authority_id u64

datatype plan_event =
    PlanProposed string string authority_id "step_spec list" settlement_policy u64
  | StepClaimed string authority_id u64 u64
  | StepReleased string authority_id u64
  | EvidenceRecorded evidence
  | StepSettled string string u32 authority_id u64
  | StepReopened string reopen_cause authority_id u64
  | SettlementPolicyRevised u32 settlement_policy authority_id u64
  | PlanSuperseded string string authority_id u64

section \<open>A proposal's steps\<close>

definition valid_policy :: "settlement_policy \<Rightarrow> bool" where
  "valid_policy p \<longleftrightarrow> accepts p \<noteq> {}"

fun check_ids :: "string set \<Rightarrow> step_spec list \<Rightarrow> unit outcome" where
  "check_ids ids [] = Inr ()"
| "check_ids ids (st # sts) =
     (if blank (spec_id st) \<or> blank (spec_title st)
      then reject ''propose: every step needs an id and a title''
      else if spec_id st \<in> ids then reject ''propose: step ids must be unique''
      else check_ids (insert (spec_id st) ids) sts)"

type_synonym graph = "(string \<times> string set) list"

definition graph_of :: "step_spec list \<Rightarrow> graph" where
  "graph_of sts = map (\<lambda>st. (spec_id st, spec_blocked_by st)) sts"

text \<open>Kahn's algorithm: the steps all of whose blockers are done are done next.\<close>

definition kahn_next :: "graph \<Rightarrow> string set \<Rightarrow> string list" where
  "kahn_next g finished = map fst (filter (\<lambda>(i, bs). i \<notin> finished \<and> bs \<subseteq> finished) g)"

lemma kahn_next_set:
  "set (kahn_next g finished) = {i. \<exists>bs. (i, bs) \<in> set g \<and> i \<notin> finished \<and> bs \<subseteq> finished}"
  by (force simp: kahn_next_def)

function kahn :: "graph \<Rightarrow> string set \<Rightarrow> string set" where
  "kahn g finished =
     (let nxt = kahn_next g finished
      in if nxt = [] then finished else kahn g (finished \<union> set nxt))"
  by pat_completeness auto
termination
proof (relation "measure (\<lambda>(g, finished). card (fst ` set g - finished))", goal_cases)
  case (2 g finished nxt)
  then have "hd nxt \<in> set nxt" by simp
  with 2 have "hd nxt \<in> fst ` set g - finished" by (force simp: kahn_next_set)
  with \<open>hd nxt \<in> set nxt\<close> have "fst ` set g - (finished \<union> set nxt) \<subset> fst ` set g - finished"
    by blast
  then show ?case by (simp add: psubset_card_mono)
qed simp

declare kahn.simps [simp del]

definition valid_steps :: "step_spec list \<Rightarrow> unit outcome" where
  "valid_steps sts =
     (if sts = [] then reject ''propose: a plan needs at least one step''
      else and_then (check_ids {} sts) (\<lambda>_.
        let g = graph_of sts
        in if list_ex (\<lambda>(_, bs). \<exists>b \<in> bs. b \<notin> fst ` set g) g
           then reject ''propose: a step is blocked by a step outside the plan''
           else if card (kahn g {}) \<noteq> length g
           then reject ''propose: the steps' blocks relations form a cycle''
           else Inr ()))"

section \<open>The reducer\<close>

definition evidence_id :: "nat \<Rightarrow> string" where
  "evidence_id n = ''evidence-'' @ decimal n"

definition claim_live :: "step_state \<Rightarrow> u64 \<Rightarrow> bool" where
  "claim_live st now = (case claim st of None \<Rightarrow> False | Some c \<Rightarrow> is_live c now)"

definition releasable :: "step_state \<Rightarrow> authority_id \<Rightarrow> u64 \<Rightarrow> bool" where
  "releasable st h now =
     (case claim st of
        Some c \<Rightarrow> holder c = h \<and> is_live c now \<and> settlement st = None
      | None \<Rightarrow> False)"

definition settle_step ::
  "plan_state \<Rightarrow> string \<Rightarrow> string \<Rightarrow> authority_id \<Rightarrow> u64 \<Rightarrow> plan_event list outcome" where
  "settle_step s step ev b t =
     (case steps s step of
        None \<Rightarrow> reject ''settle: no such step''
      | Some current \<Rightarrow>
          if settlement current \<noteq> None then reject ''settle: the step is already settled''
          else case claim current of
            None \<Rightarrow> reject ''settle: nobody has claimed the step''
          | Some cl \<Rightarrow>
            (case evidence s ev of
               None \<Rightarrow> reject ''settle: no such evidence for this step''
             | Some rec \<Rightarrow>
                 if ev_step rec \<noteq> step then reject ''settle: no such evidence for this step''
                 else if ev_cycle rec \<noteq> cycle current
                 then reject ''settle: the evidence predates the step's reopening''
                 else case epoch s of
                   None \<Rightarrow> reject ''settle: the plan has no settlement policy''
                 | Some ep \<Rightarrow>
                     let policy = last (policies s)
                     in if ev_kind rec \<notin> accepts policy
                        then reject ''settle: the policy epoch does not accept this kind of evidence''
                        else if author rec = holder cl \<and> \<not> claimant_may_settle policy
                        then reject ''settle: the policy epoch does not accept the claimant's own record''
                        else Inr [StepSettled step ev ep b t]))"

text \<open>
  The decisions of an active plan. A proposal never gets here: \<open>plan_decide\<close> answers it before, as
  the code's \<open>unreachable!\<close> says.
\<close>

fun plan_decide_active :: "plan_state \<Rightarrow> plan_command \<Rightarrow> plan_event list outcome" where
  "plan_decide_active s (Propose i ti pr sts pol t) = reject ''propose: the plan already exists''"
| "plan_decide_active s (ClaimStep step h t l) =
     (case steps s step of
        None \<Rightarrow> reject ''claim: no such step''
      | Some current \<Rightarrow>
          if settlement current \<noteq> None then reject ''claim: the step is settled''
          else if claim_live current t then reject ''claim: the step already has a live claim''
          else if unsettled_blockers s current \<noteq> {}
          then reject ''claim: a step blocking this one is not settled''
          else if l \<le> t then reject ''claim: the lease must end after it begins''
          else Inr [StepClaimed step h t l])"
| "plan_decide_active s (ReleaseStep step h t) =
     (case steps s step of
        None \<Rightarrow> reject ''release: no such step''
      | Some current \<Rightarrow>
          if releasable current h t then Inr [StepReleased step h t]
          else reject ''release: the step has no live claim of yours'')"
| "plan_decide_active s (RecordEvidence step k a r t) =
     (case steps s step of
        None \<Rightarrow> reject ''evidence: no such step''
      | Some current \<Rightarrow>
          if settlement current \<noteq> None then reject ''evidence: the step is settled''
          else if blank r then reject ''evidence: it must name what it vouches for''
          else Inr [EvidenceRecorded \<lparr>ev_id = evidence_id (card (dom (evidence s)) + 1),
                      ev_step = step, ev_kind = k, author = a, ev_reference = r,
                      ev_cycle = cycle current, recorded_at_ms = t\<rparr>])"
| "plan_decide_active s (SettleStep step ev b t) = settle_step s step ev b t"
| "plan_decide_active s (ReopenStep step cause b t) =
     (case steps s step of
        None \<Rightarrow> reject ''reopen: no such step''
      | Some current \<Rightarrow>
          if settlement current = None then reject ''reopen: the step is not settled''
          else if blank (cause_reference cause) \<or> blank (cause_reason cause)
          then reject ''reopen: it must cite a cause''
          else Inr [StepReopened step cause b t])"
| "plan_decide_active s (ReviseSettlementPolicy pol b t) =
     (if \<not> valid_policy pol then reject ''revise: the settlement policy accepts no evidence''
      else if policies s \<noteq> [] \<and> last (policies s) = pol
      then reject ''revise: the policy is unchanged''
      else Inr [SettlementPolicyRevised (word_of_nat (length (policies s))) pol b t])"
| "plan_decide_active s (Supersede succ r b t) =
     (if blank succ \<or> succ = plan_id s
      then reject ''supersede: it must name a different successor plan''
      else if blank r then reject ''supersede: it must give a reason''
      else Inr [PlanSuperseded succ r b t])"

definition plan_decide_phase :: "plan_state \<Rightarrow> plan_command \<Rightarrow> plan_event list outcome" where
  "plan_decide_phase s c =
     (case phase s of
        Init \<Rightarrow> reject ''the plan has not been proposed''
      | Superseded \<Rightarrow> reject ''the plan is superseded''
      | Active \<Rightarrow> plan_decide_active s c)"

definition plan_decide :: "plan_state \<Rightarrow> plan_command \<Rightarrow> plan_event list outcome" where
  "plan_decide s c =
     (case c of
        Propose i ti pr sts pol t \<Rightarrow>
          if phase s \<noteq> Init then reject ''propose: the plan already exists''
          else if blank i \<or> blank ti then reject ''propose: a plan needs an id and a title''
          else if \<not> valid_policy pol
          then reject ''propose: the settlement policy accepts no evidence''
          else and_then (valid_steps sts) (\<lambda>_. Inr [PlanProposed i ti pr sts pol t])
      | _ \<Rightarrow> plan_decide_phase s c)"

definition step_new :: "step_spec \<Rightarrow> step_state" where
  "step_new sp = \<lparr>step_title = spec_title sp, blocked_by = spec_blocked_by sp, cycle = 0,
     claim = None, settlement = None, reopened = []\<rparr>"

text \<open>\<open>get_mut\<close> on the map of steps: an update of the step if there is one.\<close>

definition update_step :: "string \<Rightarrow> (step_state \<Rightarrow> step_state) \<Rightarrow> plan_state \<Rightarrow> plan_state" where
  "update_step step f s =
     (case steps s step of None \<Rightarrow> s | Some st \<Rightarrow> s\<lparr>steps := (steps s)(step \<mapsto> f st)\<rparr>)"

fun plan_evolve :: "plan_state \<Rightarrow> plan_event \<Rightarrow> plan_state" where
  "plan_evolve s (PlanProposed i ti pr sts pol t) =
     s\<lparr>phase := Active, plan_id := i, plan_title := ti, proposer := Some pr, policies := [pol],
       steps := map_of (rev (map (\<lambda>sp. (spec_id sp, step_new sp)) sts))\<rparr>"
| "plan_evolve s (StepClaimed step h t l) =
     update_step step
       (\<lambda>st. st\<lparr>claim := Some \<lparr>holder = h, claimed_at_ms = t, lease_until_ms = l\<rparr>\<rparr>) s"
| "plan_evolve s (StepReleased step h t) = update_step step (\<lambda>st. st\<lparr>claim := None\<rparr>) s"
| "plan_evolve s (EvidenceRecorded e) = s\<lparr>evidence := (evidence s)(ev_id e \<mapsto> e)\<rparr>"
| "plan_evolve s (StepSettled step ev ep b t) =
     update_step step
       (\<lambda>st. st\<lparr>claim := map_option (\<lambda>c. c\<lparr>lease_until_ms := min (lease_until_ms c) t\<rparr>) (claim st),
         settlement := Some \<lparr>set_evidence = ev, set_epoch = ep, set_by = b, set_at_ms = t\<rparr>\<rparr>) s"
| "plan_evolve s (StepReopened step cause b t) =
     update_step step
       (\<lambda>st. st\<lparr>settlement := None, claim := None, cycle := cycle st + 1,
         reopened := reopened st @ [cause]\<rparr>) s"
| "plan_evolve s (SettlementPolicyRevised ep pol b t) = s\<lparr>policies := policies s @ [pol]\<rparr>"
| "plan_evolve s (PlanSuperseded succ r b t) =
     s\<lparr>phase := Superseded, superseded_by := Some succ\<rparr>"

definition plan_lifecycle ::
  "plan_event serde \<Rightarrow> (plan_state, plan_command, plan_event) lifecycle" where
  "plan_lifecycle sd =
     \<lparr>lc_kind = PLAN_KIND, lc_default = plan_default, lc_decide = plan_decide,
      lc_evolve = plan_evolve, lc_serde = sd, lc_snapshot_codec = None\<rparr>"

lemma plan_lifecycle_simps [simp]:
  "lc_default (plan_lifecycle sd) = plan_default"
  "lc_decide (plan_lifecycle sd) = plan_decide"
  "lc_evolve (plan_lifecycle sd) = plan_evolve"
  by (simp_all add: plan_lifecycle_def)

section \<open>Kahn's algorithm finds the acyclic graphs\<close>

definition blocks :: "graph \<Rightarrow> (string \<times> string) set" where
  "blocks g = {(b, i). \<exists>bs. (i, bs) \<in> set g \<and> b \<in> bs}"

lemma blocks_target: "(b, i) \<in> blocks g \<Longrightarrow> i \<in> fst ` set g"
  unfolding blocks_def by (auto intro: rev_image_eqI)

lemma kahn_subset: "finished \<subseteq> fst ` set g \<Longrightarrow> kahn g finished \<subseteq> fst ` set g"
proof (induction g finished rule: kahn.induct)
  case (1 g finished)
  have "set (kahn_next g finished) \<subseteq> fst ` set g" by (force simp: kahn_next_set)
  with 1 show ?case by (subst kahn.simps) (auto simp: Let_def)
qed

lemma kahn_closed: "kahn_next g (kahn g finished) = []"
proof (induction g finished rule: kahn.induct)
  case (1 g finished)
  then show ?case by (cases "kahn_next g finished = []") (simp_all add: kahn.simps [of g finished])
qed

lemma kahn_acc:
  assumes "distinct (map fst g)" and "finished \<subseteq> Wellfounded.acc (blocks g)"
  shows "kahn g finished \<subseteq> Wellfounded.acc (blocks g)"
  using assms
proof (induction g finished rule: kahn.induct)
  case (1 g finished)
  have "i \<in> Wellfounded.acc (blocks g)" if i: "i \<in> set (kahn_next g finished)" for i
  proof (rule accI)
    fix b
    assume "(b, i) \<in> blocks g"
    then obtain bs where bs: "(i, bs) \<in> set g" "b \<in> bs" by (auto simp: blocks_def)
    from i obtain cs where cs: "(i, cs) \<in> set g" "cs \<subseteq> finished" by (auto simp: kahn_next_set)
    with bs have "bs = cs" using eq_key_imp_eq_value [OF "1.prems"(1)] by metis
    with bs cs "1.prems"(2) show "b \<in> Wellfounded.acc (blocks g)" by blast
  qed
  with 1 show ?case by (subst kahn.simps) (auto simp: Let_def)
qed

lemma kahn_complete_iff:
  assumes dist: "distinct (map fst g)" and closed: "\<forall>(i, bs) \<in> set g. bs \<subseteq> fst ` set g"
  shows "kahn g {} = fst ` set g \<longleftrightarrow> acyclic (blocks g)"
proof
  assume all: "kahn g {} = fst ` set g"
  have sub: "kahn g {} \<subseteq> Wellfounded.acc (blocks g)" by (rule kahn_acc [OF dist]) simp
  have "x \<in> Wellfounded.acc (blocks g)" for x
  proof (cases "x \<in> fst ` set g")
    case True
    then show ?thesis using all sub by blast
  next
    case False
    show ?thesis by (rule accI) (use False blocks_target in blast)
  qed
  then show "acyclic (blocks g)" by (intro wf_acyclic) (simp add: wf_iff_acc)
next
  assume "acyclic (blocks g)"
  moreover have "blocks g \<subseteq> (fst ` set g) \<times> (fst ` set g)"
    using closed by (force simp: blocks_def)
  then have "finite (blocks g)" by (rule finite_subset) simp
  ultimately have wf: "wf (blocks g)" by (simp add: finite_acyclic_wf)
  show "kahn g {} = fst ` set g"
  proof (rule ccontr)
    assume "kahn g {} \<noteq> fst ` set g"
    then obtain x where "x \<in> fst ` set g - kahn g {}" using kahn_subset [of "{}" g] by blast
    from wfE_min [OF wf this] obtain i where i: "i \<in> fst ` set g - kahn g {}"
      and min: "\<And>b. (b, i) \<in> blocks g \<Longrightarrow> b \<notin> fst ` set g - kahn g {}" by blast
    from i obtain bs where bs: "(i, bs) \<in> set g" by auto
    with closed min have "bs \<subseteq> kahn g {}" by (fastforce simp: blocks_def)
    with bs i have "i \<in> set (kahn_next g (kahn g {}))" by (auto simp: kahn_next_set)
    then show False by (simp add: kahn_closed)
  qed
qed

lemma check_ids_iff:
  "check_ids ids sts = Inr () \<longleftrightarrow>
     (\<forall>st \<in> set sts. \<not> blank (spec_id st) \<and> \<not> blank (spec_title st)) \<and>
     distinct (map spec_id sts) \<and> spec_id ` set sts \<inter> ids = {}"
  by (induction sts arbitrary: ids) auto

definition steps_ok :: "step_spec list \<Rightarrow> bool" where
  "steps_ok sts \<longleftrightarrow>
     sts \<noteq> [] \<and> (\<forall>st \<in> set sts. \<not> blank (spec_id st) \<and> \<not> blank (spec_title st)) \<and>
     distinct (map spec_id sts) \<and> (\<forall>st \<in> set sts. spec_blocked_by st \<subseteq> spec_id ` set sts) \<and>
     acyclic {(b, i). \<exists>st \<in> set sts. spec_id st = i \<and> b \<in> spec_blocked_by st}"

lemma graph_of_simps [simp]:
  "map fst (graph_of sts) = map spec_id sts" "fst ` set (graph_of sts) = spec_id ` set sts"
  "length (graph_of sts) = length sts"
  "blocks (graph_of sts) = {(b, i). \<exists>st \<in> set sts. spec_id st = i \<and> b \<in> spec_blocked_by st}"
  by (auto simp: graph_of_def blocks_def image_image)

lemma graph_of_closed:
  "(\<forall>(i, bs) \<in> set (graph_of sts). bs \<subseteq> X) \<longleftrightarrow> (\<forall>st \<in> set sts. spec_blocked_by st \<subseteq> X)"
  "list_ex (\<lambda>(_, bs). \<exists>b \<in> bs. b \<notin> X) (graph_of sts) \<longleftrightarrow>
     \<not> (\<forall>st \<in> set sts. spec_blocked_by st \<subseteq> X)"
  by (auto simp: list_ex_iff graph_of_def)

lemma valid_steps_iff: "valid_steps sts = Inr () \<longleftrightarrow> steps_ok sts"
proof (cases "sts \<noteq> [] \<and> check_ids {} sts = Inr () \<and>
    (\<forall>st \<in> set sts. spec_blocked_by st \<subseteq> spec_id ` set sts)")
  case True
  let ?g = "graph_of sts"
  from True have dist: "distinct (map fst ?g)" by (simp add: check_ids_iff)
  have cl: "\<forall>(i, bs) \<in> set ?g. bs \<subseteq> fst ` set ?g" using True by (simp add: graph_of_closed(1))
  have len: "length ?g = card (fst ` set ?g)" using distinct_card [OF dist] by simp
  have "card (kahn ?g {}) = length ?g \<longleftrightarrow> kahn ?g {} = fst ` set ?g"
    unfolding len using kahn_subset [of "{}" ?g] by (metis List.finite_set card_subset_eq empty_subsetI
      finite_imageI)
  moreover have "\<not> list_ex (\<lambda>(_, bs). \<exists>b \<in> bs. b \<notin> fst ` set ?g) ?g"
    using True by (simp add: graph_of_closed(2))
  ultimately have "valid_steps sts = Inr () \<longleftrightarrow> acyclic (blocks ?g)"
    using True kahn_complete_iff [OF dist cl] by (simp add: valid_steps_def Let_def)
  with True show ?thesis by (simp add: steps_ok_def check_ids_iff)
next
  case False
  then have "\<not> steps_ok sts" by (auto simp: steps_ok_def check_ids_iff)
  moreover have "valid_steps sts \<noteq> Inr ()"
    using False
    by (cases "check_ids {} sts")
       (auto simp: valid_steps_def Let_def graph_of_closed(2))
  ultimately show ?thesis by simp
qed

end
