(* ===== verification/Plan_Standing.thy ===== *)
theory Plan_Standing
  imports Plan
begin

text \<open>
  What a plan's standing guarantees: the invariants of the reducer of \<open>plan.rs\<close>, its settlements,
  leases and evidence along the log, and that it never deadlocks.
\<close>

section \<open>When an event is admitted\<close>

inductive plan_admits :: "plan_state \<Rightarrow> plan_event \<Rightarrow> bool" where
  proposed:
    "\<lbrakk>phase s = Init; valid_policy pol; steps_ok sts\<rbrakk> \<Longrightarrow>
     plan_admits s (PlanProposed i ti pr sts pol t)"
| claimed:
    "\<lbrakk>phase s = Active; steps s step = Some st; settlement st = None; \<not> claim_live st t;
      unsettled_blockers s st = {}; t < l\<rbrakk> \<Longrightarrow>
     plan_admits s (StepClaimed step h t l)"
| released:
    "\<lbrakk>phase s = Active; steps s step = Some st; releasable st h t\<rbrakk> \<Longrightarrow>
     plan_admits s (StepReleased step h t)"
| recorded:
    "\<lbrakk>phase s = Active; steps s step = Some st; settlement st = None\<rbrakk> \<Longrightarrow>
     plan_admits s (EvidenceRecorded
       \<lparr>ev_id = evidence_id (card (dom (evidence s)) + 1), ev_step = step, ev_kind = k,
        author = a, ev_reference = r, ev_cycle = cycle st, recorded_at_ms = t\<rparr>)"
| settled:
    "\<lbrakk>phase s = Active; steps s step = Some st; settlement st = None; claim st = Some cl;
      evidence s ev = Some r; ev_step r = step; ev_cycle r = cycle st; policies s \<noteq> [];
      ep = word_of_nat (length (policies s) - 1); ev_kind r \<in> accepts (last (policies s));
      author r = holder cl \<Longrightarrow> claimant_may_settle (last (policies s))\<rbrakk> \<Longrightarrow>
     plan_admits s (StepSettled step ev ep b t)"
| reopened:
    "\<lbrakk>phase s = Active; steps s step = Some st; settlement st \<noteq> None\<rbrakk> \<Longrightarrow>
     plan_admits s (StepReopened step cause b t)"
| revised:
    "\<lbrakk>phase s = Active; valid_policy pol\<rbrakk> \<Longrightarrow>
     plan_admits s (SettlementPolicyRevised ep pol b t)"
| superseded:
    "phase s = Active \<Longrightarrow> plan_admits s (PlanSuperseded succ r b t)"

lemma settle_step_admits:
  assumes "phase s = Active" and "settle_step s step ev b t = Inr es"
  shows "\<exists>e. es = [e] \<and> plan_admits s e"
  using assms
  by (auto simp: settle_step_def Let_def epoch_def intro!: plan_admits.settled
      split: option.splits if_splits)

lemma plan_decide_active_admits:
  assumes "phase s = Active" and "plan_decide_active s c = Inr es"
  shows "\<exists>e. es = [e] \<and> plan_admits s e"
proof (cases c)
  case (SettleStep step ev b t)
  with assms show ?thesis by (simp add: settle_step_admits)
next
  case (RecordEvidence step k a r t)
  with assms show ?thesis
    using plan_admits.recorded [of s step] by (auto split: option.splits if_splits)
qed (use assms in \<open>auto split: option.splits if_splits intro: plan_admits.intros\<close>)

lemma plan_decide_admits:
  assumes "plan_decide s c = Inr es"
  shows "\<exists>e. es = [e] \<and> plan_admits s e"
proof (cases "\<exists>i ti pr sts pol t. c = Propose i ti pr sts pol t")
  case True
  then obtain i ti pr sts pol t where c: "c = Propose i ti pr sts pol t" by blast
  have "valid_steps sts = Inr ()"
    using assms c by (cases "valid_steps sts") (auto simp: plan_decide_def split: if_splits)
  then have "steps_ok sts" by (simp add: valid_steps_iff)
  with assms c \<open>valid_steps sts = Inr ()\<close> show ?thesis
    by (auto simp: plan_decide_def split: if_splits intro: plan_admits.proposed)
next
  case False
  with assms have "plan_decide_phase s c = Inr es"
    by (cases c) (auto simp: plan_decide_def)
  then have "phase s = Active" "plan_decide_active s c = Inr es"
    by (auto simp: plan_decide_phase_def split: plan_phase.splits)
  then show ?thesis by (rule plan_decide_active_admits)
qed

lemma evidence_id_inj [simp]: "evidence_id m = evidence_id n \<longleftrightarrow> m = n"
  by (simp add: evidence_id_def decimal_inj)

section \<open>The graph of a plan\<close>

definition plan_blocks :: "plan_state \<Rightarrow> (string \<times> string) set" where
  "plan_blocks s = {(b, i). \<exists>st. steps s i = Some st \<and> b \<in> blocked_by st}"

definition plan_graph_ok :: "plan_state \<Rightarrow> bool" where
  "plan_graph_ok s \<longleftrightarrow> finite (dom (steps s)) \<and> acyclic (plan_blocks s) \<and>
     (\<forall>(b, i) \<in> plan_blocks s. b \<in> dom (steps s))"

lemma update_step_simps [simp]:
  "phase (update_step i f s) = phase s" "plan_id (update_step i f s) = plan_id s"
  "policies (update_step i f s) = policies s" "evidence (update_step i f s) = evidence s"
  "dom (steps (update_step i f s)) = dom (steps s)"
  by (auto simp: update_step_def split: option.splits)

lemma update_step_steps:
  "steps (update_step i f s) j =
     (if j = i then map_option f (steps s j) else steps s j)"
  by (auto simp: update_step_def split: option.splits)

lemma update_step_blocks:
  assumes "\<And>st. blocked_by (f st) = blocked_by st"
  shows "plan_blocks (update_step i f s) = plan_blocks s"
  using assms by (auto simp: plan_blocks_def update_step_steps split: if_splits)

lemma update_step_graph:
  assumes "\<And>st. blocked_by (f st) = blocked_by st"
  shows "plan_graph_ok (update_step i f s) \<longleftrightarrow> plan_graph_ok s"
  using update_step_blocks [OF assms] by (simp add: plan_graph_ok_def)

lemma step_new_simps [simp]:
  "settlement (step_new sp) = None" "claim (step_new sp) = None" "cycle (step_new sp) = 0"
  "blocked_by (step_new sp) = spec_blocked_by sp"
  by (simp_all add: step_new_def)

lemma proposal_steps:
  assumes "steps_ok sts"
  shows "map_of (rev (map (\<lambda>sp. (spec_id sp, step_new sp)) sts)) i = Some st \<longleftrightarrow>
    (\<exists>sp \<in> set sts. spec_id sp = i \<and> st = step_new sp)"
proof -
  have "map fst (rev (map (\<lambda>sp. (spec_id sp, step_new sp)) sts)) = rev (map spec_id sts)"
    by (simp add: rev_map o_def)
  then have "distinct (map fst (rev (map (\<lambda>sp. (spec_id sp, step_new sp)) sts)))"
    using assms by (simp only: distinct_rev steps_ok_def)
  then show ?thesis by (auto simp: map_of_eq_Some_iff)
qed

lemma proposal_graph:
  assumes "steps_ok sts"
  shows "plan_graph_ok (plan_evolve s (PlanProposed i ti pr sts pol t))"
proof -
  let ?s = "plan_evolve s (PlanProposed i ti pr sts pol t)"
  have st: "steps ?s j = Some st \<longleftrightarrow> (\<exists>sp \<in> set sts. spec_id sp = j \<and> st = step_new sp)" for j st
    using proposal_steps [OF assms] by simp
  have "plan_blocks ?s = {(b, i). \<exists>sp \<in> set sts. spec_id sp = i \<and> b \<in> spec_blocked_by sp}"
    unfolding plan_blocks_def st by auto
  moreover have "dom (steps ?s) = spec_id ` set sts" 
    by (simp add: dom_map_of_conv_image_fst image_image)
  ultimately show ?thesis using assms by (auto simp: plan_graph_ok_def steps_ok_def)
qed

lemma admits_graph:
  assumes "plan_admits s e" and "plan_graph_ok s"
  shows "plan_graph_ok (plan_evolve s e)"
  using assms
proof (cases rule: plan_admits.cases)
  case (proposed pol sts i ti pr t)
  then show ?thesis using proposal_graph by blast
qed (simp_all add: update_step_graph, simp_all add: plan_graph_ok_def plan_blocks_def)

section \<open>Policies, evidence and settlements\<close>

definition plan_policies_ok :: "plan_state \<Rightarrow> bool" where
  "plan_policies_ok s \<longleftrightarrow> (phase s \<noteq> Init \<longrightarrow> policies s \<noteq> []) \<and> (\<forall>p \<in> set (policies s). valid_policy p)"

text \<open>The ids of the evidence are \<open>evidence-1\<close> to \<open>evidence-n\<close>, for \<open>n\<close> pieces of evidence.\<close>

definition plan_evidence_ok :: "plan_state \<Rightarrow> bool" where
  "plan_evidence_ok s \<longleftrightarrow>
     (\<exists>n. dom (evidence s) = evidence_id ` {1..n}) \<and>
     (\<forall>i e. evidence s i = Some e \<longrightarrow> ev_id e = i)"

text \<open>\<open>settled_on s i st x\<close>: the settlement \<open>x\<close> of step \<open>i\<close> rests on evidence for that step, of its current
  cycle, that the policy of the settlement's epoch accepts; and the claim it settled has lapsed.\<close>

definition settled_on :: "plan_state \<Rightarrow> string \<Rightarrow> step_state \<Rightarrow> step_settlement \<Rightarrow> bool" where
  "settled_on s i st x \<longleftrightarrow>
     (\<exists>cl r k. claim st = Some cl \<and> lease_until_ms cl \<le> set_at_ms x \<and>
        evidence s (set_evidence x) = Some r \<and> ev_step r = i \<and> ev_cycle r = cycle st \<and>
        k < length (policies s) \<and> set_epoch x = word_of_nat k \<and>
        ev_kind r \<in> accepts (policies s ! k) \<and>
        (author r = holder cl \<longrightarrow> claimant_may_settle (policies s ! k)))"

definition plan_settled_ok :: "plan_state \<Rightarrow> bool" where
  "plan_settled_ok s \<longleftrightarrow>
     (\<forall>i st x. steps s i = Some st \<longrightarrow> settlement st = Some x \<longrightarrow> settled_on s i st x)"

lemma evidence_fresh:
  assumes "plan_evidence_ok s"
  shows "evidence s (evidence_id (card (dom (evidence s)) + 1)) = None"
    and "dom (evidence s) = evidence_id ` {1..card (dom (evidence s))}"
proof -
  obtain n where n: "dom (evidence s) = evidence_id ` {1..n}"
    using assms by (auto simp: plan_evidence_ok_def)
  moreover have "inj_on evidence_id {1..n}" by (simp add: inj_on_def)
  ultimately have c: "card (dom (evidence s)) = n" by (simp add: card_image)
  with n show "dom (evidence s) = evidence_id ` {1..card (dom (evidence s))}" by simp
  have "evidence_id (n + 1) \<notin> dom (evidence s)" using n by auto
  with c show "evidence s (evidence_id (card (dom (evidence s)) + 1)) = None" by (simp add: domIff)
qed

lemma admits_evidence:
  assumes "plan_admits s e" and "plan_evidence_ok s"
  shows "plan_evidence_ok (plan_evolve s e)" and "evidence s \<subseteq>\<^sub>m evidence (plan_evolve s e)"
proof -
  have "plan_evidence_ok (plan_evolve s e) \<and> evidence s \<subseteq>\<^sub>m evidence (plan_evolve s e)"
    using assms(1)
  proof (cases rule: plan_admits.cases)
    case (recorded step st k a r t)
    let ?n = "card (dom (evidence s))"
    have "insert (evidence_id (?n + 1)) (evidence_id ` {1..?n}) = evidence_id ` {1..?n + 1}"
      by (simp add: atLeastAtMostSuc_conv)
    then have "dom (evidence (plan_evolve s e)) = evidence_id ` {1..?n + 1}"
      using evidence_fresh(2) [OF assms(2)] recorded(1) by simp
    moreover have "evidence s \<subseteq>\<^sub>m evidence (plan_evolve s e)"
      using evidence_fresh(1) [OF assms(2)] recorded(1) by (auto simp: map_le_def)
    ultimately show ?thesis using assms(2) recorded(1) by (auto simp: plan_evidence_ok_def)
  qed (use assms(2) in \<open>auto simp: plan_evidence_ok_def\<close>)
  then show "plan_evidence_ok (plan_evolve s e)" and "evidence s \<subseteq>\<^sub>m evidence (plan_evolve s e)"
    by simp_all
qed

lemma admits_policies:
  assumes "plan_admits s e" and "plan_policies_ok s"
  shows "plan_policies_ok (plan_evolve s e)"
  using assms by (cases rule: plan_admits.cases) (auto simp: plan_policies_ok_def)

lemma settled_on_mono:
  assumes "settled_on s i st x" and "evidence s \<subseteq>\<^sub>m evidence s'" and "policies s' = policies s @ ps"
  shows "settled_on s' i st x"
proof -
  from assms(1) obtain cl r k where c: "claim st = Some cl" "lease_until_ms cl \<le> set_at_ms x"
    "evidence s (set_evidence x) = Some r" "ev_step r = i" "ev_cycle r = cycle st"
    "k < length (policies s)" "set_epoch x = word_of_nat k"
    "ev_kind r \<in> accepts (policies s ! k)"
    "author r = holder cl \<longrightarrow> claimant_may_settle (policies s ! k)"
    by (auto simp: settled_on_def)
  moreover have "evidence s' (set_evidence x) = Some r"
    using assms(2) c(3) by (force simp: map_le_def)
  ultimately show ?thesis
    unfolding settled_on_def
    by (intro exI [of _ cl] exI [of _ r] exI [of _ k]) (simp add: assms(3) nth_append)
qed

lemma update_step_settled:
  assumes "plan_settled_ok s"
    and "\<And>st x. steps s i = Some st \<Longrightarrow> settlement (f st) = Some x \<Longrightarrow> settled_on s i (f st) x"
  shows "plan_settled_ok (update_step i f s)"
proof -
  have "settled_on (update_step i f s) j st x" if "settled_on s j st x" for j st x
    by (rule settled_on_mono [OF that, where ps = "[]"]) simp_all
  with assms show ?thesis
    by (auto simp: plan_settled_ok_def update_step_steps split: if_splits)
qed

lemma settled_step_on:
  assumes "claim st = Some cl" and "evidence s ev = Some r" and "ev_step r = step"
    and "ev_cycle r = cycle st" and "policies s \<noteq> []"
    and "ev_kind r \<in> accepts (last (policies s))"
    and "author r = holder cl \<Longrightarrow> claimant_may_settle (last (policies s))"
  shows "settled_on s step
    (st\<lparr>claim := map_option (\<lambda>c. c\<lparr>lease_until_ms := min (lease_until_ms c) t\<rparr>) (claim st),
       settlement := x\<rparr>)
    \<lparr>set_evidence = ev, set_epoch = word_of_nat (length (policies s) - 1), set_by = b, set_at_ms = t\<rparr>"
  unfolding settled_on_def
  using assms
  by (intro exI [of _ "cl\<lparr>lease_until_ms := min (lease_until_ms cl) t\<rparr>"] exI [of _ r]
      exI [of _ "length (policies s) - 1"]) (auto simp: last_conv_nth)

lemma admits_settled:
  assumes "plan_admits s e" and "plan_settled_ok s" and "plan_evidence_ok s"
  shows "plan_settled_ok (plan_evolve s e)"
  using assms(1)
proof (cases rule: plan_admits.cases)
  case (proposed pol sts i ti pr t)
  then show ?thesis
    by (auto simp: plan_settled_ok_def proposal_steps)
next
  case (claimed step st t l h)
  then show ?thesis using assms(2) by (auto intro!: update_step_settled)
next
  case (released step st h t)
  then have "settlement st = None" by (auto simp: releasable_def split: option.splits)
  with released show ?thesis using assms(2) by (auto intro!: update_step_settled)
next
  case (recorded step st k a r t)
  have "evidence s \<subseteq>\<^sub>m evidence (plan_evolve s e)" by (rule admits_evidence [OF assms(1,3)])
  moreover have "policies (plan_evolve s e) = policies s @ []" using recorded(1) by simp
  moreover have "steps (plan_evolve s e) = steps s" using recorded(1) by simp
  ultimately show ?thesis
    using assms(2) settled_on_mono unfolding plan_settled_ok_def by metis
next
  case (settled step st cl ev r ep b t)
  then show ?thesis
    using assms(2) settled_step_on [of st cl s ev r step] by (auto intro!: update_step_settled)
next
  case (reopened step st cause b t)
  then show ?thesis using assms(2) by (auto intro!: update_step_settled)
next
  case (revised pol ep b t)
  have "evidence s \<subseteq>\<^sub>m evidence (plan_evolve s e)" by (rule admits_evidence [OF assms(1,3)])
  moreover have "policies (plan_evolve s e) = policies s @ [pol]" using revised(1) by simp
  moreover have "steps (plan_evolve s e) = steps s" using revised(1) by simp
  ultimately show ?thesis
    using assms(2) settled_on_mono unfolding plan_settled_ok_def by metis
next
  case (superseded succ r b t)
  then show ?thesis using assms(2) by (simp add: plan_settled_ok_def settled_on_def)
qed

definition plan_inv :: "plan_state \<Rightarrow> bool" where
  "plan_inv s \<longleftrightarrow> plan_graph_ok s \<and> plan_policies_ok s \<and> plan_evidence_ok s \<and> plan_settled_ok s"

lemma plan_decide_fold:
  assumes "plan_decide s c = Inr es"
  obtains e where "es = [e]" and "plan_admits s e"
    and "lc_fold (plan_lifecycle sd) s es = plan_evolve s e"
  using plan_decide_admits [OF assms] by auto

lemma plan_default_inv: "plan_inv plan_default"
  by (auto simp: plan_inv_def plan_graph_ok_def plan_blocks_def plan_policies_ok_def
      plan_evidence_ok_def plan_settled_ok_def plan_default_def acyclic_def intro!: exI [of _ 0])

lemma plan_decide_inv:
  assumes "plan_inv s" and "plan_decide s c = Inr es"
  shows "plan_inv (lc_fold (plan_lifecycle sd) s es)"
  using assms(2)
proof (rule plan_decide_fold [where sd = sd])
  fix e
  assume "plan_admits s e" and "lc_fold (plan_lifecycle sd) s es = plan_evolve s e"
  with assms(1) show ?thesis
    by (simp add: plan_inv_def admits_graph admits_policies admits_evidence admits_settled)
qed

interpretation plan_law: lifecycle_invariant "plan_lifecycle sd" plan_inv
  by unfold_locales (simp add: plan_default_inv, auto intro: plan_decide_inv)

section \<open>Leases along the log\<close>

definition lease_ends :: "string \<Rightarrow> plan_event set" where
  "lease_ends i = {e. (\<exists>h t. e = StepReleased i h t) \<or> (\<exists>ev ep b t. e = StepSettled i ev ep b t) \<or>
     (\<exists>c b t. e = StepReopened i c b t)}"

lemma lease_ends_simps [simp]:
  "StepReleased j h t \<in> lease_ends i \<longleftrightarrow> j = i" "StepSettled j ev ep b t \<in> lease_ends i \<longleftrightarrow> j = i"
  "StepReopened j c b t \<in> lease_ends i \<longleftrightarrow> j = i" "StepClaimed j h t l \<notin> lease_ends i"
  "EvidenceRecorded r \<notin> lease_ends i" "SettlementPolicyRevised ep pol b t \<notin> lease_ends i"
  "PlanSuperseded succ rs b t \<notin> lease_ends i" "PlanProposed k ti pr sts pol t \<notin> lease_ends i"
  by (auto simp: lease_ends_def)

definition leases_exclusive :: "plan_event list \<Rightarrow> bool" where
  "leases_exclusive = every_at (\<lambda>xs e. \<forall>i h' t' l' h t l. e = StepClaimed i h' t' l' \<longrightarrow>
     stands (StepClaimed i h t l) (lease_ends i) xs \<longrightarrow> l \<le> t')"

lemma leases_exclusive_simps [simp]:
  "leases_exclusive []"
  "leases_exclusive (es @ [e]) \<longleftrightarrow> leases_exclusive es \<and>
     (\<forall>i h' t' l' h t l. e = StepClaimed i h' t' l' \<longrightarrow>
        stands (StepClaimed i h t l) (lease_ends i) es \<longrightarrow> l \<le> t')"
  by (simp_all add: leases_exclusive_def)

definition leases_recorded :: "plan_event list \<Rightarrow> plan_state \<Rightarrow> bool" where
  "leases_recorded es s \<longleftrightarrow> (phase s = Init \<longrightarrow> es = []) \<and>
     (\<forall>i h t l. stands (StepClaimed i h t l) (lease_ends i) es \<longrightarrow>
        (\<exists>st c. steps s i = Some st \<and> claim st = Some c \<and> l \<le> lease_until_ms c))"

definition plan_tinv :: "plan_event list \<Rightarrow> plan_state \<Rightarrow> bool" where
  "plan_tinv es s \<longleftrightarrow> leases_exclusive es \<and> leases_recorded es s"

lemma claim_not_live:
  assumes "leases_recorded es s" and "stands (StepClaimed i h t l) (lease_ends i) es"
    and "steps s i = Some st" and "\<not> claim_live st now"
  shows "l \<le> now"
  using assms by (fastforce simp: leases_recorded_def claim_live_def is_live_def)

lemma admits_leases_recorded:
  assumes "plan_admits s e" and "leases_recorded es s"
  shows "leases_recorded (es @ [e]) (plan_evolve s e)"
  using assms(1)
proof (cases rule: plan_admits.cases)
  case (proposed pol sts i ti pr t)
  with assms(2) have "es = []" by (simp add: leases_recorded_def)
  with proposed show ?thesis by (simp add: leases_recorded_def)
next
  case (claimed step st t l h)
  have "l0 \<le> l" if "stands (StepClaimed step h0 t0 l0) (lease_ends step) es" for h0 t0 l0
    using claim_not_live [OF assms(2) that claimed(3,5)] claimed(7) by simp
  with claimed assms(2) show ?thesis
    by (fastforce simp: leases_recorded_def update_step_steps)
qed (use assms(2) in \<open>fastforce simp: leases_recorded_def update_step_steps\<close>)+

lemma plan_decide_tinv:
  assumes "plan_tinv es s" and "plan_decide s c = Inr fs"
  shows "plan_tinv (es @ fs) (lc_fold (plan_lifecycle sd) s fs)"
  using assms(2)
proof (rule plan_decide_fold [where sd = sd])
  fix e
  assume e: "fs = [e]" "plan_admits s e" "lc_fold (plan_lifecycle sd) s fs = plan_evolve s e"
  have "leases_exclusive (es @ [e])"
    using e(2) assms(1) claim_not_live [of es s]
    by (cases rule: plan_admits.cases) (auto simp: plan_tinv_def)
  with e assms(1) show ?thesis by (simp add: plan_tinv_def admits_leases_recorded)
qed

interpretation plan_trace: lifecycle_trace "plan_lifecycle sd" plan_tinv
  by unfold_locales
     (simp add: plan_tinv_def leases_recorded_def plan_default_def, auto intro: plan_decide_tinv)

section \<open>A step that can move\<close>

lemma unblocked_step:
  assumes "plan_graph_ok s" and "steps s j = Some st" and "settlement st = None"
  shows "\<exists>i st. steps s i = Some st \<and> settlement st = None \<and> unsettled_blockers s st = {}"
proof -
  let ?U = "{i. \<exists>st. steps s i = Some st \<and> settlement st = None}"
  have "plan_blocks s \<subseteq> dom (steps s) \<times> dom (steps s)"
    using assms(1) by (auto simp: plan_graph_ok_def plan_blocks_def)
  then have "finite (plan_blocks s)"
    by (rule finite_subset) (use assms(1) in \<open>simp add: plan_graph_ok_def\<close>)
  then have "wf (plan_blocks s)"
    using assms(1) by (simp add: plan_graph_ok_def finite_acyclic_wf)
  moreover have "j \<in> ?U" using assms(2,3) by blast
  ultimately obtain i where i: "i \<in> ?U" and min: "\<And>b. (b, i) \<in> plan_blocks s \<Longrightarrow> b \<notin> ?U"
    by (rule wfE_min) blast
  then obtain st where st: "steps s i = Some st" "settlement st = None" by blast
  have "\<exists>x. steps s b = Some x \<and> settlement x \<noteq> None" if "b \<in> blocked_by st" for b
  proof -
    have e: "(b, i) \<in> plan_blocks s" using st(1) that by (auto simp: plan_blocks_def)
    then have "b \<in> dom (steps s)" using assms(1) by (auto simp: plan_graph_ok_def)
    with min [OF e] show ?thesis by auto
  qed
  then have "unsettled_blockers s st = {}"
    by (fastforce simp: unsettled_blockers_def)
  with st show ?thesis by blast
qed

lemma drive_plan_inv: "plan_inv (lc_drive (plan_lifecycle sd) plan_default cs)"
  by (rule plan_law.drive_inv) (rule plan_default_inv)

lemma plan_apply_evidence:
  assumes "plan_inv s"
  shows "evidence s \<subseteq>\<^sub>m evidence (lc_apply (plan_lifecycle sd) s c)"
proof (cases "plan_decide s c")
  case (Inr es)
  then show ?thesis
  proof (rule plan_decide_fold [where sd = sd])
    fix e
    assume "plan_admits s e" and "lc_fold (plan_lifecycle sd) s es = plan_evolve s e"
    with Inr assms show ?thesis by (simp add: lc_apply_ok admits_evidence plan_inv_def)
  qed
qed (simp add: lc_apply_def)

lemma plan_drive_evidence:
  "plan_inv s \<Longrightarrow> evidence s \<subseteq>\<^sub>m evidence (lc_drive (plan_lifecycle sd) s cs)"
proof (induction cs arbitrary: s)
  case (Cons c cs)
  then show ?case
    using plan_apply_evidence [of s sd c] plan_law.apply_inv [of s sd c]
    by (auto intro: map_le_trans)
qed simp

section \<open>An example\<close>

definition example_steps :: "step_spec list" where
  "example_steps = [\<lparr>spec_id = ''a'', spec_title = ''A'', spec_blocked_by = {}\<rparr>,
     \<lparr>spec_id = ''b'', spec_title = ''B'', spec_blocked_by = {''a''}\<rparr>]"

definition example_plan :: "plan_command list" where
  "example_plan = [Propose ''p'' ''P'' ''owner'' example_steps independent_attestation 0,
     ClaimStep ''b'' ''early'' 1 9, ClaimStep ''a'' ''h'' 1 4, ClaimStep ''a'' ''g'' 2 9,
     ClaimStep ''a'' ''g'' 4 9, RecordEvidence ''a'' Attestation ''rev'' ''v1'' 5,
     SettleStep ''a'' ''evidence-1'' ''rev'' 6]"

definition example_log :: "plan_event list" where
  "example_log = [PlanProposed ''p'' ''P'' ''owner'' example_steps independent_attestation 0,
     StepClaimed ''a'' ''h'' 1 4, StepClaimed ''a'' ''g'' 4 9,
     EvidenceRecorded \<lparr>ev_id = ''evidence-1'', ev_step = ''a'', ev_kind = Attestation,
       author = ''rev'', ev_reference = ''v1'', ev_cycle = 0, recorded_at_ms = 5\<rparr>,
     StepSettled ''a'' ''evidence-1'' 0 ''rev'' 6]"

lemma example_steps_valid: "valid_steps example_steps = Inr ()"
proof -
  have "{(b, i). \<exists>st \<in> set example_steps. spec_id st = i \<and> b \<in> spec_blocked_by st} =
      {(''a'', ''b'')}" by (auto simp: example_steps_def)
  then have "acyclic {(b, i). \<exists>st \<in> set example_steps. spec_id st = i \<and> b \<in> spec_blocked_by st}"
    by (simp add: acyclic_insert acyclic_def [of "{}"])
  then show ?thesis
    by (simp add: valid_steps_iff steps_ok_def) (simp add: example_steps_def blank.simps)
qed

lemma decimal_1: "decimal (Suc 0) = ''1''"
  by code_simp

lemma example_map:
  "map_of (rev (map (\<lambda>sp. (spec_id sp, step_new sp)) example_steps)) =
     [''a'' \<mapsto> \<lparr>step_title = ''A'', blocked_by = {}, cycle = 0, claim = None, settlement = None,
        reopened = []\<rparr>,
      ''b'' \<mapsto> \<lparr>step_title = ''B'', blocked_by = {''a''}, cycle = 0, claim = None, settlement = None,
        reopened = []\<rparr>]"
  by (simp add: example_steps_def step_new_def)

lemma example_log: "lc_log (plan_lifecycle sd) plan_default example_plan = example_log"
  by (simp add: example_plan_def example_log_def plan_default_def plan_decide_def
      plan_decide_phase_def example_steps_valid blank.simps valid_policy_def independent_attestation_def
      update_step_def claim_live_def is_live_def unsettled_blockers_def example_map settle_step_def
      Let_def epoch_def evidence_id_def decimal_1 word_le_nat_alt word_less_nat_alt)

lemma example_state:
  shows "phase (lc_drive (plan_lifecycle sd) plan_default example_plan) = Active"
    and "steps (lc_drive (plan_lifecycle sd) plan_default example_plan) ''a'' =
      Some \<lparr>step_title = ''A'', blocked_by = {}, cycle = 0,
        claim = Some \<lparr>holder = ''g'', claimed_at_ms = 4, lease_until_ms = 6\<rparr>,
        settlement = Some \<lparr>set_evidence = ''evidence-1'', set_epoch = 0, set_by = ''rev'',
          set_at_ms = 6\<rparr>, reopened = []\<rparr>"
    and "steps (lc_drive (plan_lifecycle sd) plan_default example_plan) ''b'' =
      Some \<lparr>step_title = ''B'', blocked_by = {''a''}, cycle = 0, claim = None,
        settlement = None, reopened = []\<rparr>"
  unfolding lc_fold_log [of _ _ example_plan, symmetric] example_log
  by (simp_all add: example_log_def plan_default_def example_map update_step_def min_def
      word_le_nat_alt)

section \<open>Properties\<close>

text \<open>
  C29. The validation of a proposal's steps is exact: the loop of Kahn's algorithm terminates, and the
  steps are accepted if and only if there is one, each has an id and a title, the ids are distinct,
  every blocker is a step of the plan, and the blocks relation is acyclic.
\<close>

theorem plan_steps_valid_iff:
  "valid_steps sts = Inr () \<longleftrightarrow>
     sts \<noteq> [] \<and> (\<forall>st \<in> set sts. \<not> blank (spec_id st) \<and> \<not> blank (spec_title st)) \<and>
     distinct (map spec_id sts) \<and> (\<forall>st \<in> set sts. spec_blocked_by st \<subseteq> spec_id ` set sts) \<and>
     acyclic {(b, i). \<exists>st \<in> set sts. spec_id st = i \<and> b \<in> spec_blocked_by st}"
  unfolding valid_steps_iff steps_ok_def ..

theorem plan_steps_valid_iff_witness:
  "valid_steps [\<lparr>spec_id = ''a'', spec_title = ''A'', spec_blocked_by = {}\<rparr>,
     \<lparr>spec_id = ''b'', spec_title = ''B'', spec_blocked_by = {''a''}\<rparr>] = Inr ()"
proof -
  let ?sts = "[\<lparr>spec_id = ''a'', spec_title = ''A'', spec_blocked_by = {}\<rparr>,
     \<lparr>spec_id = ''b'', spec_title = ''B'', spec_blocked_by = {''a''}\<rparr>]"
  have "{(b, i). \<exists>st \<in> set ?sts. spec_id st = i \<and> b \<in> spec_blocked_by st} = {(''a'', ''b'')}"
    by auto
  then have "acyclic {(b, i). \<exists>st \<in> set ?sts. spec_id st = i \<and> b \<in> spec_blocked_by st}"
    by (simp add: acyclic_insert acyclic_def [of "{}"])
  then show ?thesis unfolding plan_steps_valid_iff by (simp add: blank.simps)
qed

text \<open>
  C26. A settlement rests on evidence its policy epoch accepts (rule 2): in every state the commands
  reach, a settled step was claimed, and its settlement names evidence recorded against that very
  step in its current cycle, of a kind the policy of the settlement's epoch accepts and, if its author
  held the step, under a policy that lets the claimant settle; the claim is not live after it.
\<close>

theorem plan_settlement_evidence:
  assumes "s = lc_drive (plan_lifecycle sd) plan_default cs"
    and "steps s i = Some st" and "settlement st = Some x"
  shows "\<exists>cl r k. claim st = Some cl \<and> \<not> is_live cl (set_at_ms x) \<and>
    evidence s (set_evidence x) = Some r \<and> ev_step r = i \<and> ev_cycle r = cycle st \<and>
    k < length (policies s) \<and> set_epoch x = word_of_nat k \<and> ev_kind r \<in> accepts (policies s ! k) \<and>
    (author r = holder cl \<longrightarrow> claimant_may_settle (policies s ! k))"
proof -
  have "settled_on s i st x"
    using assms drive_plan_inv [of sd cs] by (simp add: plan_inv_def plan_settled_ok_def)
  then show ?thesis unfolding settled_on_def is_live_def not_less by blast
qed

theorem plan_settlement_evidence_witness:
  "\<exists>r. evidence (lc_drive (plan_lifecycle \<lparr>to_json = (\<lambda>_. []), from_json = (\<lambda>_. None)\<rparr>) plan_default
     example_plan) ''evidence-1'' = Some r \<and> ev_step r = ''a'' \<and> ev_cycle r = 0"
  using plan_settlement_evidence [OF refl example_state(2), simplified] by fastforce

text \<open>
  C27. Leases are exclusive (rule 1): wherever the log holds two claims on the same step with no release,
  settlement or reopening of the step between them, the second is not before the end of the first
  one's lease.
\<close>

theorem plan_leases_exclusive:
  assumes "lc_log (plan_lifecycle sd) plan_default cs =
      xs @ StepClaimed i h t l # ys @ StepClaimed i h' t' l' # zs"
    and "set ys \<inter> lease_ends i = {}"
  shows "l \<le> t'"
proof -
  have "leases_exclusive (lc_log (plan_lifecycle sd) plan_default cs)"
    using plan_trace.log_tinv [of sd cs] by (simp add: plan_tinv_def)
  moreover have "lc_log (plan_lifecycle sd) plan_default cs =
      (xs @ StepClaimed i h t l # ys) @ StepClaimed i h' t' l' # zs" using assms(1) by simp
  moreover have "stands (StepClaimed i h t l) (lease_ends i) (xs @ StepClaimed i h t l # ys)"
    using assms(2) by (auto simp: stands_def)
  ultimately show ?thesis unfolding leases_exclusive_def by (blast dest: every_atD)
qed

theorem plan_leases_exclusive_witness:
  "lc_log (plan_lifecycle \<lparr>to_json = (\<lambda>_. []), from_json = (\<lambda>_. None)\<rparr>) plan_default example_plan =
     example_log \<and> (4 :: u64) \<le> 4"
proof -
  have "lc_log (plan_lifecycle \<lparr>to_json = (\<lambda>_. []), from_json = (\<lambda>_. None)\<rparr>) plan_default example_plan =
      [hd example_log] @ StepClaimed ''a'' ''h'' 1 4 # [] @ StepClaimed ''a'' ''g'' 4 9 #
      drop 3 example_log"
    by (simp add: example_log) (simp add: example_log_def)
  from plan_leases_exclusive [OF this] show ?thesis by (simp add: example_log)
qed

text \<open>
  C28. A plan never deadlocks: in every state the commands reach, if some step of an active plan is
  unsettled then there is a step that at every time is ready or claimed, and that anybody can claim
  at any time its last lease has lapsed.
\<close>

theorem plan_no_deadlock:
  assumes "s = lc_drive (plan_lifecycle sd) plan_default cs" and "phase s = Active"
    and "steps s j = Some st" and "settlement st = None"
  shows "\<exists>i. (\<forall>now. readiness s i now = Some Ready \<or> (\<exists>h l. readiness s i now = Some (Claimed h l))) \<and>
    (\<forall>now h l. readiness s i now = Some Ready \<longrightarrow> now < l \<longrightarrow>
       plan_decide s (ClaimStep i h now l) = Inr [StepClaimed i h now l])"
proof -
  have "plan_graph_ok s" using assms(1) drive_plan_inv by (simp add: plan_inv_def)
  from unblocked_step [OF this assms(3,4)] obtain i st where
    st: "steps s i = Some st" "settlement st = None" "unsettled_blockers s st = {}" by blast
  have "readiness s i now = (case claim st of None \<Rightarrow> Some Ready
      | Some c \<Rightarrow> if is_live c now then Some (Claimed (holder c) (lease_until_ms c)) else Some Ready)" for now
    using st by (simp add: readiness_def Let_def)
  moreover have "plan_decide s (ClaimStep i h now l) = Inr [StepClaimed i h now l]"
    if "\<not> claim_live st now" "now < l" for now h l
    using st that assms(2) by (simp add: plan_decide_def plan_decide_phase_def)
  ultimately show ?thesis
    by (intro exI [of _ i]) (auto simp: claim_live_def split: option.splits if_splits)
qed

theorem plan_no_deadlock_witness:
  "\<exists>i. let s = lc_drive (plan_lifecycle \<lparr>to_json = (\<lambda>_. []), from_json = (\<lambda>_. None)\<rparr>) plan_default
           example_plan
     in readiness s i 7 = Some Ready \<or> (\<exists>h l. readiness s i 7 = Some (Claimed h l))"
  using plan_no_deadlock [OF refl example_state(1,3), simplified] by (fastforce simp: Let_def)

text \<open>
  Evidence is append-only: whatever commands follow, every piece of evidence stays under its id
  unchanged, and the ids are \<open>evidence-1\<close> to \<open>evidence-n\<close> for the \<open>n\<close> pieces there are, so no id is reused.
\<close>

theorem plan_evidence_append_only:
  "evidence (lc_drive (plan_lifecycle sd) plan_default cs) \<subseteq>\<^sub>m
     evidence (lc_drive (plan_lifecycle sd) plan_default (cs @ ds)) \<and>
   dom (evidence (lc_drive (plan_lifecycle sd) plan_default cs)) =
     evidence_id ` {1..card (dom (evidence (lc_drive (plan_lifecycle sd) plan_default cs)))}"
proof -
  have "plan_evidence_ok (lc_drive (plan_lifecycle sd) plan_default cs)"
    using drive_plan_inv by (simp add: plan_inv_def)
  then show ?thesis
    using plan_drive_evidence [OF drive_plan_inv [of sd cs], of sd ds] evidence_fresh(2) by auto
qed

end
