(* ===== verification/Store.thy ===== *)
theory Store
  imports Lifecycle
begin

text \<open>
  The event store of \<open>crates/store/src/lib.rs\<close>: its SQLite tables as lists of rows in insertion
  order, its SQL statements as functions on them, and the append and read operations on the
  per-scope log. A transaction is a function that returns the new tables or an error; an error rolls
  back to the tables it started from. A primary-key or check violation is the \<open>Db\<close> error SQLite
  reports. The content codec (\<open>ContentCodec\<close>) is a trait object and so a parameter, as are the SHA-256
  digest and the build stamp. Positions are \<open>i64\<close> in the source and \<^typ>\<open>int\<close> here; a scope
  whose last position is \<open>i64::MAX\<close> (after \<open>2^63\<close> appends, or from an archive that carries this
  position) refuses every further append, which is not modelled.
\<close>

section \<open>Tables\<close>

record event_row =
  ev_scope :: string
  ev_position :: int
  ev_kind :: string
  ev_payload :: string

record receipt_row =
  rc_scope :: string
  rc_key :: string
  rc_applied_at :: int

record snapshot_row =
  sn_scope :: string
  sn_kind :: string
  sn_lifecycle :: string
  sn_codec_version :: u32
  sn_reducer_build :: string
  sn_position :: int
  sn_anchor :: string
  sn_state :: string

record command_record =
  cr_command_id :: string
  cr_scope_id :: string
  cr_idempotency_key :: string
  cr_status :: string
  cr_snapshot_json :: string

record fact_set_row =
  fs_scope :: string
  fs_key :: string
  fs_count :: int

record fact_ref_row =
  fr_scope :: string
  fr_key :: string
  fr_index :: int
  fr_event_scope :: string
  fr_event_position :: int

record store =
  events :: "event_row list"
  command_receipts :: "receipt_row list"
  scope_snapshots :: "snapshot_row list"
  commands :: "command_record list"
  record_command_fact_sets :: "fact_set_row list"
  record_command_fact_refs :: "fact_ref_row list"

definition empty_store :: store where
  "empty_store =
     \<lparr>events = [], command_receipts = [], scope_snapshots = [], commands = [],
      record_command_fact_sets = [], record_command_fact_refs = []\<rparr>"

text \<open>The errors of an admission. Of \<open>rusqlite::Error\<close> the two shapes the statements can raise on
  well-typed tables are kept.\<close>

datatype db_error = ConstraintViolation | QueryReturnedNoRows

datatype admit_error =
    Rejected rejection
  | Db db_error
  | Json
  | Codec string
  | UnsupportedSchema string

section \<open>The codec seam\<close>

text \<open>\<open>trait ContentCodec\<close>, and what else an open store is built with.\<close>

record content_codec =
  cc_encode :: "string \<Rightarrow> string \<Rightarrow> string \<Rightarrow> string + string"
  cc_decode :: "string \<Rightarrow> string \<Rightarrow> string \<Rightarrow> string option"
  cc_decode_scope :: "string \<Rightarrow> (string \<times> string) list \<Rightarrow> string option list"
  cc_epoch :: "string \<Rightarrow> u64 option"

record store_env =
  codec :: "content_codec option"
  sha256_hex :: "string \<Rightarrow> string"
  reducer_build :: string

text \<open>The trait's default \<open>decode_scope\<close> and \<open>epoch\<close>.\<close>

definition default_decode_scope ::
  "(string \<Rightarrow> string \<Rightarrow> string \<Rightarrow> string option) \<Rightarrow> string \<Rightarrow> (string \<times> string) list \<Rightarrow> string option list"
where
  "default_decode_scope decode scope rows = map (\<lambda>(kind, payload). decode scope kind payload) rows"

text \<open>The free function \<open>decode_scope\<close>: one answer per row or none at all.\<close>

definition decode_scope ::
  "content_codec \<Rightarrow> string \<Rightarrow> (string \<times> string) list \<Rightarrow> string option list" where
  "decode_scope cc scope rows =
     (let decoded = cc_decode_scope cc scope rows in
      if length decoded = length rows then decoded else replicate (length rows) None)"

definition encode_payload ::
  "store_env \<Rightarrow> string \<Rightarrow> string \<Rightarrow> string \<Rightarrow> admit_error + string" where
  "encode_payload env scope kind payload =
     (case codec env of
        Some cc \<Rightarrow> (case cc_encode cc scope kind payload of Inl e \<Rightarrow> Inl (Codec e) | Inr q \<Rightarrow> Inr q)
      | None \<Rightarrow> Inr payload)"

definition unavailable :: admit_error where
  "unavailable = Codec ''authority history contains an unavailable record''"

section \<open>Statements on the event log\<close>

text \<open>\<open>WHERE scope_id = ? ORDER BY position\<close>.\<close>

definition scope_rows :: "store \<Rightarrow> string \<Rightarrow> event_row list" where
  "scope_rows db scope = filter (\<lambda>r. ev_scope r = scope) (events db)"

definition scope_events :: "store \<Rightarrow> string \<Rightarrow> event_row list" where
  "scope_events db scope = sort_key ev_position (scope_rows db scope)"

text \<open>\<open>SELECT MAX(position) FROM events WHERE scope_id = ?\<close> and the next position.\<close>

definition max_of :: "int list \<Rightarrow> int option" where
  "max_of ps = (case ps of [] \<Rightarrow> None | p # qs \<Rightarrow> Some (fold max qs p))"

definition scope_head :: "store \<Rightarrow> string \<Rightarrow> int option" where
  "scope_head db scope = max_of (map ev_position (scope_rows db scope))"

definition next_position :: "store \<Rightarrow> string \<Rightarrow> int" where
  "next_position db scope = (case scope_head db scope of None \<Rightarrow> -1 | Some p \<Rightarrow> p) + 1"

definition insert_event :: "event_row \<Rightarrow> store \<Rightarrow> admit_error + store" where
  "insert_event row db =
     (if \<exists>r \<in> set (events db). ev_scope r = ev_scope row \<and> ev_position r = ev_position row
      then Inl (Db ConstraintViolation)
      else Inr (db\<lparr>events := events db @ [row]\<rparr>))"

definition find_receipt :: "store \<Rightarrow> string \<Rightarrow> string \<Rightarrow> int option" where
  "find_receipt db scope key =
     map_option rc_applied_at
       (find (\<lambda>r. rc_scope r = scope \<and> rc_key r = key) (command_receipts db))"

definition insert_receipt :: "string \<Rightarrow> string \<Rightarrow> int \<Rightarrow> store \<Rightarrow> admit_error + store" where
  "insert_receipt scope key at db =
     (if find_receipt db scope key \<noteq> None then Inl (Db ConstraintViolation)
      else Inr (db\<lparr>command_receipts :=
        command_receipts db @ [\<lparr>rc_scope = scope, rc_key = key, rc_applied_at = at\<rparr>]\<rparr>))"

text \<open>Commit or roll back.\<close>

definition in_tx :: "store \<Rightarrow> admit_error + (store \<times> 'a) \<Rightarrow> store \<times> (admit_error + 'a)" where
  "in_tx db r = (case r of Inl e \<Rightarrow> (db, Inl e) | Inr (db', x) \<Rightarrow> (db', Inr x))"

section \<open>Appending records\<close>

text \<open>The statement pair every append runs: read the next position, insert there.\<close>

definition tx_append :: "string \<Rightarrow> string \<Rightarrow> string \<Rightarrow> store \<Rightarrow> admit_error + (store \<times> int)" where
  "tx_append scope kind stored db =
     (let position = next_position db scope in
      and_then
        (insert_event \<lparr>ev_scope = scope, ev_position = position, ev_kind = kind, ev_payload = stored\<rparr> db)
        (\<lambda>db1. Inr (db1, position)))"

definition append_record ::
  "store_env \<Rightarrow> string \<Rightarrow> string \<Rightarrow> string \<Rightarrow> store \<Rightarrow> store \<times> (admit_error + int)" where
  "append_record env scope kind payload db =
     in_tx db (and_then (encode_payload env scope kind payload)
       (\<lambda>stored. tx_append scope kind stored db))"

definition append_record_with_linked_record ::
  "store_env \<Rightarrow> string \<Rightarrow> string \<Rightarrow> string \<Rightarrow> string \<Rightarrow> string \<Rightarrow> (int \<Rightarrow> admit_error + string)
     \<Rightarrow> store \<Rightarrow> store \<times> (admit_error + int)" where
  "append_record_with_linked_record env scope kind payload companion_scope companion_kind link db =
     (let position = next_position db scope in
      in_tx db (and_then (link position)
        (\<lambda>companion. and_then (encode_payload env scope kind payload)
        (\<lambda>stored. and_then (tx_append scope kind stored db)
        (\<lambda>(db1, _). and_then (encode_payload env companion_scope companion_kind companion)
        (\<lambda>stored2. and_then (tx_append companion_scope companion_kind stored2 db1)
        (\<lambda>(db2, _). Inr (db2, position))))))))"

text \<open>\<open>tx_chain_head\<close>: the decoded payload of the last row of a kind.\<close>

definition tx_chain_head :: "store_env \<Rightarrow> store \<Rightarrow> string \<Rightarrow> string \<Rightarrow> string option" where
  "tx_chain_head env db scope kind =
     (case filter (\<lambda>r. ev_kind r = kind) (rev (scope_events db scope)) of
        [] \<Rightarrow> None
      | r # _ \<Rightarrow> (case codec env of
                   Some cc \<Rightarrow> cc_decode cc scope kind (ev_payload r)
                 | None \<Rightarrow> Some (ev_payload r)))"

definition append_chained_record ::
  "store_env \<Rightarrow> string \<Rightarrow> string \<Rightarrow> (string option \<Rightarrow> string) \<Rightarrow> store
     \<Rightarrow> store \<times> (admit_error + (int \<times> string))" where
  "append_chained_record env scope kind link db =
     (let payload = link (tx_chain_head env db scope kind) in
      in_tx db (and_then (encode_payload env scope kind payload)
        (\<lambda>stored. and_then (tx_append scope kind stored db)
        (\<lambda>(db1, position). Inr (db1, (position, payload))))))"

text \<open>\<open>append_records_atomically\<close>: encode everything first, then append in one transaction.\<close>

fun encode_records ::
  "store_env \<Rightarrow> (string \<times> string \<times> string) list \<Rightarrow> admit_error + (string \<times> string \<times> string) list" where
  "encode_records env [] = Inr []"
| "encode_records env ((scope, kind, payload) # rs) =
     and_then (encode_payload env scope kind payload)
       (\<lambda>stored. and_then (encode_records env rs) (\<lambda>qs. Inr ((scope, kind, stored) # qs)))"

fun tx_append_all ::
  "(string \<times> string \<times> string) list \<Rightarrow> store \<Rightarrow> admit_error + (store \<times> int list)" where
  "tx_append_all [] db = Inr (db, [])"
| "tx_append_all ((scope, kind, stored) # rs) db =
     and_then (tx_append scope kind stored db)
       (\<lambda>(db1, p). and_then (tx_append_all rs db1) (\<lambda>(db2, ps). Inr (db2, p # ps)))"

definition append_records_atomically ::
  "store_env \<Rightarrow> (string \<times> string \<times> string) list \<Rightarrow> store \<Rightarrow> store \<times> (admit_error + int list)" where
  "append_records_atomically env rs db =
     in_tx db (and_then (encode_records env rs) (\<lambda>stored. tx_append_all stored db))"

definition append_record_with_key ::
  "store_env \<Rightarrow> string \<Rightarrow> string \<Rightarrow> string \<Rightarrow> string \<Rightarrow> store
     \<Rightarrow> store \<times> (admit_error + (int \<times> bool))" where
  "append_record_with_key env scope key kind payload db =
     in_tx db (and_then (encode_payload env scope kind payload)
       (\<lambda>stored. case find_receipt db scope key of
          Some position \<Rightarrow> Inr (db, (position, False))
        | None \<Rightarrow> and_then (tx_append scope kind stored db)
            (\<lambda>(db1, position). and_then (insert_receipt scope key position db1)
            (\<lambda>db2. Inr (db2, (position, True))))))"

section \<open>Reading records\<close>

definition kind_payloads :: "store \<Rightarrow> string \<Rightarrow> string \<Rightarrow> string list" where
  "kind_payloads db scope kind = map ev_payload (filter (\<lambda>r. ev_kind r = kind) (scope_events db scope))"

definition decode_kind ::
  "store_env \<Rightarrow> string \<Rightarrow> string \<Rightarrow> string list \<Rightarrow> string option list" where
  "decode_kind env scope kind payloads =
     (case codec env of
        Some cc \<Rightarrow> decode_scope cc scope (map (\<lambda>p. (kind, p)) payloads)
      | None \<Rightarrow> map Some payloads)"

definition records :: "store_env \<Rightarrow> store \<Rightarrow> string \<Rightarrow> string \<Rightarrow> string list" where
  "records env db scope kind =
     List.map_filter id (decode_kind env scope kind (kind_payloads db scope kind))"

text \<open>Collect, or refuse at the first unavailable row.\<close>

fun require_all :: "'a option list \<Rightarrow> admit_error + 'a list" where
  "require_all [] = Inr []"
| "require_all (None # _) = Inl unavailable"
| "require_all (Some p # ps) = and_then (require_all ps) (\<lambda>qs. Inr (p # qs))"

definition retained_records :: "store_env \<Rightarrow> store \<Rightarrow> string \<Rightarrow> string \<Rightarrow> admit_error + string list" where
  "retained_records env db scope kind =
     require_all (decode_kind env scope kind (kind_payloads db scope kind))"

text \<open>\<open>read_events\<close>, with \<open>events\<close> and \<open>retained_events\<close> as its two uses.\<close>

fun pick_events ::
  "bool \<Rightarrow> (event_row \<times> string option) list \<Rightarrow> admit_error + (int \<times> string \<times> string) list" where
  "pick_events require_retained [] = Inr []"
| "pick_events require_retained ((r, Some plain) # rs) =
     and_then (pick_events require_retained rs)
       (\<lambda>out. Inr ((ev_position r, ev_kind r, plain) # out))"
| "pick_events require_retained ((r, None) # rs) =
     (if require_retained then Inl unavailable else pick_events require_retained rs)"

definition read_events ::
  "store_env \<Rightarrow> store \<Rightarrow> string \<Rightarrow> bool \<Rightarrow> admit_error + (int \<times> string \<times> string) list" where
  "read_events env db scope require_retained =
     (let rows = scope_events db scope in
      case codec env of
        None \<Rightarrow> Inr (map (\<lambda>r. (ev_position r, ev_kind r, ev_payload r)) rows)
      | Some cc \<Rightarrow>
          pick_events require_retained
            (zip rows (decode_scope cc scope (map (\<lambda>r. (ev_kind r, ev_payload r)) rows))))"

definition events_of :: "store_env \<Rightarrow> store \<Rightarrow> string \<Rightarrow> admit_error + (int \<times> string \<times> string) list" where
  "events_of env db scope = read_events env db scope False"

definition retained_events :: "store_env \<Rightarrow> store \<Rightarrow> string \<Rightarrow> admit_error + (int \<times> string \<times> string) list" where
  "retained_events env db scope = read_events env db scope True"

text \<open>Discovery of scopes: \<open>SELECT DISTINCT scope_id ... ORDER BY scope_id\<close>.\<close>

definition scope_ids :: "store \<Rightarrow> string list" where
  "scope_ids db = sort (remdups (map ev_scope (events db)))"

definition scope_ids_with_kind :: "store \<Rightarrow> string \<Rightarrow> string option \<Rightarrow> nat \<Rightarrow> admit_error + string list" where
  "scope_ids_with_kind db kind after limit =
     (if 2 ^ 63 \<le> limit then Inl (Rejected (Rejection ''scope discovery page size is out of range''))
      else Inr (take limit (filter (\<lambda>s. case after of None \<Rightarrow> True | Some a \<Rightarrow> a < s)
        (sort (remdups (map ev_scope (filter (\<lambda>r. ev_kind r = kind) (events db))))))))"

definition scope_high_water_marks :: "store \<Rightarrow> (string \<times> int) list" where
  "scope_high_water_marks db =
     List.map_filter (\<lambda>s. map_option (\<lambda>p. (s, p)) (scope_head db s)) (scope_ids db)"

text \<open>\<open>read_stamp\<close> of an open connection (\<open>autocommit\<close> false inside a transaction).\<close>

record read_stamp_value =
  rs_heads :: "int option list"
  rs_codec_epoch :: u64

fun add_epochs :: "content_codec \<Rightarrow> string list \<Rightarrow> u64 \<Rightarrow> u64 option" where
  "add_epochs cc [] n = Some n"
| "add_epochs cc (s # ss) n = (case cc_epoch cc s of None \<Rightarrow> None | Some e \<Rightarrow> add_epochs cc ss (n + e))"

definition read_stamp :: "store_env \<Rightarrow> bool \<Rightarrow> store \<Rightarrow> string list \<Rightarrow> read_stamp_value option" where
  "read_stamp env autocommit db scopes =
     (if \<not> autocommit then None
      else case (case codec env of None \<Rightarrow> Some 0 | Some cc \<Rightarrow> add_epochs cc scopes 0) of
             None \<Rightarrow> None
           | Some n \<Rightarrow> Some \<lparr>rs_heads = map (scope_head db) scopes, rs_codec_epoch = n\<rparr>)"

section \<open>Positions\<close>

lemma find_SomeD: "find P xs = Some x \<Longrightarrow> x \<in> set xs \<and> P x"
  by (auto simp: find_Some_iff)

lemma find_receipt_iff:
  "(find_receipt db scope key = None) =
     ((scope, key) \<notin> set (map (\<lambda>r. (rc_scope r, rc_key r)) (command_receipts db)))"
  by (auto simp: find_receipt_def find_None_iff)

text \<open>
  The type invariant of the log: the rows of every scope carry nonnegative positions that increase in
  the order they were written. Appends number the rows of a scope 0, 1, 2, \<dots>; an imported scope keeps
  the positions of its archive, which may have gaps. A read in position order is a read in insertion
  order, and the insert at the next position never meets the primary key.
\<close>

definition increasing :: "store \<Rightarrow> bool" where
  "increasing db \<longleftrightarrow> (\<forall>scope. sorted_wrt (<) (map ev_position (scope_rows db scope)) \<and>
     (\<forall>r \<in> set (scope_rows db scope). 0 \<le> ev_position r))"

definition append_rows :: "event_row list \<Rightarrow> store \<Rightarrow> store" where
  "append_rows rows db = db\<lparr>events := events db @ rows\<rparr>"

definition next_row :: "store \<Rightarrow> string \<Rightarrow> string \<Rightarrow> string \<Rightarrow> event_row" where
  "next_row db scope kind stored =
     \<lparr>ev_scope = scope, ev_position = next_position db scope, ev_kind = kind, ev_payload = stored\<rparr>"

lemma append_rows_simps [simp]:
  "events (append_rows rows db) = events db @ rows"
  "command_receipts (append_rows rows db) = command_receipts db"
  "scope_snapshots (append_rows rows db) = scope_snapshots db"
  "commands (append_rows rows db) = commands db"
  "record_command_fact_sets (append_rows rows db) = record_command_fact_sets db"
  "record_command_fact_refs (append_rows rows db) = record_command_fact_refs db"
  "append_rows [] db = db"
  "append_rows qs (append_rows rows db) = append_rows (rows @ qs) db"
  by (simp_all add: append_rows_def)

lemma next_row_simps [simp]:
  "ev_scope (next_row db scope kind stored) = scope"
  "ev_position (next_row db scope kind stored) = next_position db scope"
  "ev_kind (next_row db scope kind stored) = kind"
  "ev_payload (next_row db scope kind stored) = stored"
  by (simp_all add: next_row_def)

lemma scope_rows_append [simp]:
  "scope_rows (append_rows rows db) scope = scope_rows db scope @ filter (\<lambda>r. ev_scope r = scope) rows"
  by (simp add: scope_rows_def)

lemma scope_rows_cong: "events db = events db' \<Longrightarrow> scope_rows db scope = scope_rows db' scope"
  by (simp add: scope_rows_def)

lemma max_of_snoc:
  "max_of (ps @ [p]) = Some (case max_of ps of None \<Rightarrow> p | Some q \<Rightarrow> max p q)"
  by (cases ps) (simp_all add: max_of_def)

lemma max_of_Nil [simp]: "max_of [] = None"
  by (simp add: max_of_def)

lemma max_of_None_iff [simp]: "max_of ps = None \<longleftrightarrow> ps = []"
  by (cases ps) (simp_all add: max_of_def)

lemma max_of_SomeD: "max_of ps = Some p \<Longrightarrow> p \<in> set ps \<and> (\<forall>q \<in> set ps. q \<le> p)"
proof (induction ps arbitrary: p rule: rev_induct)
  case (snoc x xs)
  then show ?case by (cases "max_of xs") (auto simp: max_of_snoc max_def)
qed simp

lemma max_of_sorted: "sorted_wrt (<) ps \<Longrightarrow> max_of ps = (if ps = [] then None else Some (last ps))"
proof (induction ps rule: rev_induct)
  case (snoc p ps)
  show ?case
  proof (cases "ps = []")
    case False
    with snoc.prems have "last ps < p" by (simp add: sorted_wrt_append)
    with False snoc show ?thesis by (simp add: max_of_snoc sorted_wrt_append)
  qed (simp add: max_of_def)
qed simp

lemma increasing_head:
  "increasing db \<Longrightarrow> scope_head db scope =
     (if scope_rows db scope = [] then None else Some (ev_position (last (scope_rows db scope))))"
  by (simp add: scope_head_def increasing_def max_of_sorted last_map)

lemma increasing_scope_events [simp]:
  assumes "increasing db"
  shows "scope_events db scope = scope_rows db scope"
proof -
  have "sorted (map ev_position (scope_rows db scope))"
    using assms by (simp add: increasing_def strict_sorted_imp_sorted)
  then show ?thesis by (simp add: scope_events_def sorted_sort_id sort_key_id_if_sorted)
qed

text \<open>The next position is above every position of the scope, whatever the rows.\<close>

lemma next_position_gt: "r \<in> set (scope_rows db scope) \<Longrightarrow> ev_position r < next_position db scope"
proof -
  assume r: "r \<in> set (scope_rows db scope)"
  then obtain p where p: "scope_head db scope = Some p" by (fastforce simp: scope_head_def)
  with max_of_SomeD [of "map ev_position (scope_rows db scope)" p] r show ?thesis
    by (auto simp: next_position_def scope_head_def)
qed

lemma increasing_position_lt:
  "increasing db \<Longrightarrow> r \<in> set (scope_rows db scope) \<Longrightarrow> 0 \<le> ev_position r \<and> ev_position r < next_position db scope"
  by (simp add: increasing_def next_position_gt)

lemma next_position_nonneg: "increasing db \<Longrightarrow> 0 \<le> next_position db scope"
proof (cases "scope_rows db scope = []")
  case False
  assume "increasing db"
  with False increasing_position_lt [of db "hd (scope_rows db scope)" scope] show ?thesis by force
qed (simp add: next_position_def scope_head_def)

lemma increasing_unique:
  assumes "increasing db" "r \<in> set (events db)" "q \<in> set (events db)"
    "ev_scope r = ev_scope q" "ev_position r = ev_position q"
  shows "r = q"
proof -
  have "distinct (map ev_position (scope_rows db (ev_scope q)))"
    using assms(1) by (simp add: increasing_def strict_sorted_iff)
  moreover have "r \<in> set (scope_rows db (ev_scope q))" "q \<in> set (scope_rows db (ev_scope q))"
    using assms by (auto simp: scope_rows_def)
  ultimately show ?thesis using assms(5) by (simp add: distinct_map inj_on_def)
qed

text \<open>Rows that continue a log: in each scope they increase from its next position on.\<close>

definition fits :: "store \<Rightarrow> event_row list \<Rightarrow> bool" where
  "fits db rows \<longleftrightarrow> (\<forall>scope. sorted_wrt (<) (map ev_position (filter (\<lambda>r. ev_scope r = scope) rows))) \<and>
     (\<forall>r \<in> set rows. next_position db (ev_scope r) \<le> ev_position r)"

lemma fits_Nil [simp]: "fits db []"
  by (simp add: fits_def)

lemma fits_next [simp]: "fits db [next_row db scope kind stored]"
  by (simp add: fits_def)

lemma increasing_append:
  assumes "increasing db" "fits db rows"
  shows "increasing (append_rows rows db)"
  unfolding increasing_def
proof (intro allI conjI)
  fix scope
  have new: "next_position db scope \<le> ev_position r" if "r \<in> set (filter (\<lambda>r. ev_scope r = scope) rows)" for r
    using assms(2) that by (auto simp: fits_def)
  then have "ev_position r < ev_position q"
    if "r \<in> set (scope_rows db scope)" "q \<in> set (filter (\<lambda>r. ev_scope r = scope) rows)" for r q
    using next_position_gt [OF that(1)] that(2) by fastforce
  then show "sorted_wrt (<) (map ev_position (scope_rows (append_rows rows db) scope))"
    using assms by (auto simp: increasing_def fits_def sorted_wrt_append)
  show "\<forall>r \<in> set (scope_rows (append_rows rows db) scope). 0 \<le> ev_position r"
    using assms(1) new next_position_nonneg [OF assms(1), of scope] by (fastforce simp: increasing_def)
qed

lemma increasing_append_next:
  "increasing db \<Longrightarrow> increasing (append_rows [next_row db scope kind stored] db)"
  by (rule increasing_append) simp_all

lemma next_position_append:
  assumes "increasing db"
  shows "next_position (append_rows [next_row db scope kind stored] db) a =
     (if a = scope then next_position db scope + 1 else next_position db a)"
proof (cases "a = scope")
  case True
  then have "scope_head (append_rows [next_row db scope kind stored] db) a = Some (next_position db scope)"
    using increasing_head [OF increasing_append_next [OF assms]] by simp
  with True show ?thesis by (simp add: next_position_def)
next
  case False
  then show ?thesis by (simp add: next_position_def scope_head_def)
qed

lemma insert_next:
  assumes "increasing db"
  shows "insert_event (next_row db scope kind stored) db = Inr (append_rows [next_row db scope kind stored] db)"
proof -
  have "\<not> (ev_scope r = scope \<and> ev_position r = next_position db scope)"
    if "r \<in> set (events db)" for r
    using next_position_gt [of r db scope] that by (auto simp: scope_rows_def)
  then show ?thesis by (auto simp: insert_event_def append_rows_def)
qed

lemma tx_append_increasing:
  assumes "increasing db"
  shows "tx_append scope kind stored db =
     Inr (append_rows [next_row db scope kind stored] db, next_position db scope)"
  using insert_next [OF assms] by (simp add: tx_append_def next_row_def Let_def)

text \<open>Everything an append leaves: rows at the end of the log, and the log still increasing.\<close>

definition extends :: "store \<Rightarrow> store \<Rightarrow> bool" where
  "extends db db' \<longleftrightarrow> (\<exists>rows. events db' = events db @ rows)"

lemma extends_refl [simp]: "extends db db"
  by (simp add: extends_def)

lemma extends_trans: "extends a b \<Longrightarrow> extends b c \<Longrightarrow> extends a c"
  by (auto simp: extends_def)

lemma extends_rows [simp]: "extends db (append_rows rows db)"
  by (auto simp: extends_def)

lemma increasing_cong: "events db = events db' \<Longrightarrow> increasing db \<longleftrightarrow> increasing db'"
  by (simp add: increasing_def scope_rows_def)

lemma increasing_empty [simp]: "increasing empty_store"
  by (simp add: increasing_def empty_store_def scope_rows_def)

fun row_list :: "(string \<times> string \<times> string) list \<Rightarrow> store \<Rightarrow> event_row list" where
  "row_list [] db = []"
| "row_list ((scope, kind, stored) # rs) db =
     (let row = next_row db scope kind stored in row # row_list rs (append_rows [row] db))"

lemma next_position_cong: "events db = events db' \<Longrightarrow> next_position db scope = next_position db' scope"
  by (simp add: next_position_def scope_head_def scope_rows_def)

lemma row_list_ge:
  "increasing db \<Longrightarrow> r \<in> set (row_list rs db) \<Longrightarrow> next_position db (ev_scope r) \<le> ev_position r"
proof (induction rs arbitrary: db)
  case (Cons t rs)
  obtain scope kind stored where t: "t = (scope, kind, stored)" by (cases t)
  show ?case
    using Cons.IH [OF increasing_append_next [OF Cons.prems(1), of scope kind stored]] Cons.prems
    by (fastforce simp: t Let_def next_position_append split: if_splits)
qed simp

lemma row_list_fits: "increasing db \<Longrightarrow> fits db (row_list rs db)"
proof (induction rs arbitrary: db)
  case (Cons t rs)
  obtain scope kind stored where t: "t = (scope, kind, stored)" by (cases t)
  let ?db = "append_rows [next_row db scope kind stored] db"
  note inc = increasing_append_next [OF Cons.prems, of scope kind stored]
  have "next_position db scope < ev_position r" if "r \<in> set (row_list rs ?db)" "ev_scope r = scope" for r
    using row_list_ge [OF inc that(1)] that(2) by (simp add: next_position_append Cons.prems)
  with Cons.IH [OF inc] row_list_ge [OF Cons.prems, of _ "t # rs"] show ?case
    by (auto simp: t fits_def Let_def)
qed simp

lemma tx_append_all_increasing:
  "increasing db \<Longrightarrow> tx_append_all rs db = Inr (append_rows (row_list rs db) db, map ev_position (row_list rs db))
     \<and> increasing (append_rows (row_list rs db) db)"
proof (induction rs arbitrary: db)
  case (Cons r rs)
  obtain scope kind stored where r: "r = (scope, kind, stored)" by (cases r)
  show ?case
    using Cons.IH [OF increasing_append_next [OF Cons.prems, of scope kind stored]]
    by (simp add: r tx_append_increasing [OF Cons.prems] Let_def)
qed simp

end
