(* ===== verification/Store_Fold.thy ===== *)
theory Store_Fold
  imports Store
begin

text \<open>
  Folding and admitting a lifecycle: \<open>crates/store/src/snapshot.rs\<close> (checkpoints) and
  \<open>Store::fold\<close>, \<open>Store::admit\<close> and \<open>Store::admit_with_key\<close> of \<open>crates/store/src/lib.rs\<close>. The contract
  of the codecs an admission goes through is the locale \<open>store_laws\<close>; inside it, a fold from a
  checkpoint is the full replay, and an admission refines \<open>decide\<close> and \<open>evolve\<close> on the log.
\<close>

section \<open>Checkpoints\<close>

record 's checkpoint =
  cp_state :: 's
  cp_position :: int

definition snapshot_matches ::
  "store_env \<Rightarrow> ('s, 'c, 'e) lifecycle \<Rightarrow> 's snapshot_codec \<Rightarrow> string \<Rightarrow> snapshot_row \<Rightarrow> bool" where
  "snapshot_matches env L sc scope r \<longleftrightarrow>
     sn_scope r = scope \<and> sn_kind r = lc_kind L \<and> sn_lifecycle r = sc_lifecycle sc \<and>
     sn_codec_version r = sc_version sc \<and> sn_reducer_build r = reducer_build env"

text \<open>A stored text, opened by the codec when there is one.\<close>

definition decode_payload :: "store_env \<Rightarrow> string \<Rightarrow> string \<Rightarrow> string \<Rightarrow> string option" where
  "decode_payload env scope kind raw =
     (case codec env of Some cc \<Rightarrow> cc_decode cc scope kind raw | None \<Rightarrow> Some raw)"

definition snapshot_load ::
  "store_env \<Rightarrow> ('s, 'c, 'e) lifecycle \<Rightarrow> store \<Rightarrow> string \<Rightarrow> 's snapshot_codec \<Rightarrow> 's checkpoint option" where
  "snapshot_load env L db scope sc =
     (case find (snapshot_matches env L sc scope) (scope_snapshots db) of
        None \<Rightarrow> None
      | Some row \<Rightarrow>
          (case find (\<lambda>r. ev_scope r = scope \<and> ev_position r = sn_position row) (events db) of
             None \<Rightarrow> None
           | Some r \<Rightarrow>
               if ev_kind r = lc_kind L \<and> sha256_hex env (ev_payload r) = sn_anchor row then
                 (case decode_payload env scope (lc_kind L) (sn_state row) of
                    None \<Rightarrow> None
                  | Some plain \<Rightarrow>
                      map_option (\<lambda>s. \<lparr>cp_state = s, cp_position = sn_position row\<rparr>) (sc_decode sc plain))
               else None))"

section \<open>Folding\<close>

text \<open>The two loops of \<open>snapshot::fold\<close>: over the lifecycle's own tail without a codec, over every
  retained row with one.\<close>

fun fold_plain :: "('s, 'c, 'e) lifecycle \<Rightarrow> 's \<Rightarrow> string list \<Rightarrow> admit_error + 's" where
  "fold_plain L state [] = Inr state"
| "fold_plain L state (p # ps) =
     (case from_json (lc_serde L) p of
        None \<Rightarrow> Inl Json
      | Some e \<Rightarrow> fold_plain L (lc_evolve L state e) ps)"

fun fold_coded ::
  "content_codec \<Rightarrow> ('s, 'c, 'e) lifecycle \<Rightarrow> string \<Rightarrow> int \<Rightarrow> 's \<Rightarrow> event_row list \<Rightarrow> admit_error + 's" where
  "fold_coded cc L scope after state [] = Inr state"
| "fold_coded cc L scope after state (r # rs) =
     (case cc_decode cc scope (ev_kind r) (ev_payload r) of
        None \<Rightarrow> Inl unavailable
      | Some plain \<Rightarrow>
          if ev_kind r = lc_kind L \<and> after < ev_position r then
            (case from_json (lc_serde L) plain of
               None \<Rightarrow> Inl Json
             | Some e \<Rightarrow> fold_coded cc L scope after (lc_evolve L state e) rs)
          else fold_coded cc L scope after state rs)"

definition fold_rows ::
  "store_env \<Rightarrow> ('s, 'c, 'e) lifecycle \<Rightarrow> string \<Rightarrow> int \<Rightarrow> 's \<Rightarrow> event_row list \<Rightarrow> admit_error + 's" where
  "fold_rows env L scope after state rows =
     (case codec env of
        None \<Rightarrow> fold_plain L state
          (map ev_payload (filter (\<lambda>r. ev_kind r = lc_kind L \<and> after < ev_position r) rows))
      | Some cc \<Rightarrow> fold_coded cc L scope after state rows)"

definition store_fold ::
  "store_env \<Rightarrow> ('s, 'c, 'e) lifecycle \<Rightarrow> store \<Rightarrow> string \<Rightarrow> admit_error + 's" where
  "store_fold env L db scope =
     (let start = (case (case lc_snapshot_codec L of
                           None \<Rightarrow> None
                         | Some sc \<Rightarrow> snapshot_load env L db scope sc) of
                     None \<Rightarrow> (lc_default L, -1)
                   | Some c \<Rightarrow> (cp_state c, cp_position c)) in
      fold_rows env L scope (snd start) (fst start) (scope_events db scope))"

text \<open>The full replay: the fold that starts from the default state.\<close>

definition replay :: "store_env \<Rightarrow> ('s, 'c, 'e) lifecycle \<Rightarrow> store \<Rightarrow> string \<Rightarrow> admit_error + 's" where
  "replay env L db scope = fold_rows env L scope (-1) (lc_default L) (scope_events db scope)"

text \<open>The \<open>DELETE\<close> and \<open>INSERT\<close> on \<open>scope_snapshots\<close>, with the table's checks; the \<open>DELETE\<close> leaves no row
  with the primary key of the insert.\<close>

definition insert_snapshot :: "snapshot_row \<Rightarrow> store \<Rightarrow> admit_error + store" where
  "insert_snapshot row db =
     (let kept = filter (\<lambda>r. \<not> (sn_scope r = sn_scope row \<and> sn_kind r = sn_kind row \<and>
                                 sn_lifecycle r = sn_lifecycle row)) (scope_snapshots db) in
      if 0 \<le> sn_position row \<and> length (sn_anchor row) = 64
      then Inr (db\<lparr>scope_snapshots := kept @ [row]\<rparr>)
      else Inl (Db ConstraintViolation))"

text \<open>The lifecycle's rows since the previous checkpoint (\<open>SELECT COUNT(*), MAX(position)\<close>).\<close>

definition snapshot_tail ::
  "store_env \<Rightarrow> ('s, 'c, 'e) lifecycle \<Rightarrow> 's snapshot_codec \<Rightarrow> string \<Rightarrow> store \<Rightarrow> event_row list" where
  "snapshot_tail env L sc scope db =
     (let previous = (case find (snapshot_matches env L sc scope) (scope_snapshots db) of
                        None \<Rightarrow> -1 | Some r \<Rightarrow> sn_position r) in
      filter (\<lambda>r. ev_kind r = lc_kind L \<and> previous < ev_position r) (scope_rows db scope))"

definition snapshot_checkpoint ::
  "store_env \<Rightarrow> ('s, 'c, 'e) lifecycle \<Rightarrow> string \<Rightarrow> 's \<Rightarrow> store \<Rightarrow> admit_error + store" where
  "snapshot_checkpoint env L scope state db =
     (case lc_snapshot_codec L of
        None \<Rightarrow> Inr db
      | Some sc \<Rightarrow>
          let tail = snapshot_tail env L sc scope db
          in case max_of (map ev_position tail) of
               None \<Rightarrow> Inr db
             | Some head \<Rightarrow>
                 if int (length tail) < uint (sc_every sc) then Inr db
                 else case find (\<lambda>r. ev_position r = head) (scope_rows db scope) of
                        None \<Rightarrow> Inl (Db QueryReturnedNoRows)
                      | Some r \<Rightarrow>
                          (case sc_encode sc state of
                             None \<Rightarrow> Inr db
                           | Some plain \<Rightarrow>
                               (case encode_payload env scope (lc_kind L) plain of
                                  Inl _ \<Rightarrow> Inr db
                                | Inr stored \<Rightarrow>
                                    insert_snapshot
                                      \<lparr>sn_scope = scope, sn_kind = lc_kind L, sn_lifecycle = sc_lifecycle sc,
                                       sn_codec_version = sc_version sc, sn_reducer_build = reducer_build env,
                                       sn_position = head, sn_anchor = sha256_hex env (ev_payload r),
                                       sn_state = stored\<rparr> db)))"

section \<open>Admitting\<close>

fun append_events ::
  "store_env \<Rightarrow> ('s, 'c, 'e) lifecycle \<Rightarrow> string \<Rightarrow> int \<Rightarrow> 'e list \<Rightarrow> 's \<Rightarrow> store \<Rightarrow> admit_error + (store \<times> 's)" where
  "append_events env L scope position [] state db = Inr (db, state)"
| "append_events env L scope position (e # es) state db =
     and_then (encode_payload env scope (lc_kind L) (to_json (lc_serde L) e))
       (\<lambda>payload. and_then
         (insert_event \<lparr>ev_scope = scope, ev_position = position, ev_kind = lc_kind L, ev_payload = payload\<rparr> db)
       (\<lambda>db1. append_events env L scope (position + 1) es (lc_evolve L state e) db1))"

definition admit ::
  "store_env \<Rightarrow> ('s, 'c, 'e) lifecycle \<Rightarrow> string \<Rightarrow> 'c \<Rightarrow> store \<Rightarrow> store \<times> (admit_error + 's)" where
  "admit env L scope command db =
     in_tx db (and_then (store_fold env L db scope)
       (\<lambda>state. case lc_decide L state command of
          Inl r \<Rightarrow> Inl (Rejected r)
        | Inr es \<Rightarrow>
            and_then (append_events env L scope (next_position db scope) es state db)
              (\<lambda>(db1, new_state). and_then (snapshot_checkpoint env L scope new_state db1)
              (\<lambda>db2. Inr (db2, new_state)))))"

definition admit_with_key ::
  "store_env \<Rightarrow> ('s, 'c, 'e) lifecycle \<Rightarrow> string \<Rightarrow> string \<Rightarrow> 'c \<Rightarrow> store \<Rightarrow> store \<times> (admit_error + 's)" where
  "admit_with_key env L scope key command db =
     in_tx db
       (if find_receipt db scope key \<noteq> None
        then and_then (store_fold env L db scope) (\<lambda>state. Inr (db, state))
        else and_then (store_fold env L db scope)
          (\<lambda>state. case lc_decide L state command of
             Inl r \<Rightarrow> Inl (Rejected r)
           | Inr es \<Rightarrow>
               let base = next_position db scope in
               and_then (append_events env L scope base es state db)
                 (\<lambda>(db1, new_state). and_then (insert_receipt scope key base db1)
                 (\<lambda>db2. and_then (snapshot_checkpoint env L scope new_state db2)
                 (\<lambda>db3. Inr (db3, new_state))))))"

section \<open>The rows of a fold\<close>

lemma fold_plain_append [simp]:
  "fold_plain L s (ps @ qs) = and_then (fold_plain L s ps) (\<lambda>t. fold_plain L t qs)"
  by (induction ps arbitrary: s) (auto split: option.splits)

lemma fold_coded_append [simp]:
  "fold_coded cc L scope after s (rs @ qs) =
     and_then (fold_coded cc L scope after s rs) (\<lambda>t. fold_coded cc L scope after t qs)"
  by (induction rs arbitrary: s) (auto split: option.splits)

lemma fold_rows_Nil [simp]: "fold_rows env L scope after s [] = Inr s"
  by (simp add: fold_rows_def split: option.splits)

lemma fold_rows_append [simp]:
  "fold_rows env L scope after s (rs @ qs) =
     and_then (fold_rows env L scope after s rs) (\<lambda>t. fold_rows env L scope after t qs)"
  by (simp add: fold_rows_def split: option.splits)

lemma fold_rows_Cons:
  "fold_rows env L scope after s (r # rs) =
     and_then (fold_rows env L scope after s [r]) (\<lambda>t. fold_rows env L scope after t rs)"
  using fold_rows_append [of env L scope after s "[r]" rs] by simp

lemma fold_rows_single:
  "fold_rows env L scope after s [r] =
     (if ev_kind r = lc_kind L \<and> after < ev_position r then
        (case decode_payload env scope (ev_kind r) (ev_payload r) of
           None \<Rightarrow> Inl unavailable
         | Some plain \<Rightarrow>
             (case from_json (lc_serde L) plain of None \<Rightarrow> Inl Json | Some e \<Rightarrow> Inr (lc_evolve L s e)))
      else (case decode_payload env scope (ev_kind r) (ev_payload r) of
              None \<Rightarrow> Inl unavailable | Some _ \<Rightarrow> Inr s))"
  by (auto simp: fold_rows_def decode_payload_def split: option.splits)

text \<open>Rows a checkpoint already holds are read, not evolved; rows after it are evolved as ever.\<close>

lemma fold_rows_skip:
  "fold_rows env L scope (-1) s rs = Inr t \<Longrightarrow> \<forall>r \<in> set rs. ev_position r \<le> p \<Longrightarrow>
     fold_rows env L scope p u rs = Inr u"
proof (induction rs arbitrary: s)
  case (Cons r rs)
  then show ?case
    by (auto simp: fold_rows_Cons [of _ _ _ _ _ _ rs] fold_rows_single and_then_Inr
      split: if_splits option.splits)
qed simp

lemma fold_rows_after:
  "\<forall>r \<in> set rs. 0 \<le> ev_position r \<and> p < ev_position r \<Longrightarrow>
     fold_rows env L scope p s rs = fold_rows env L scope (-1) s rs"
proof (induction rs arbitrary: s)
  case (Cons r rs)
  then show ?case
    by (auto simp: fold_rows_Cons [of _ _ _ _ _ _ rs] fold_rows_single)
qed simp

text \<open>Rows of other kinds leave the state alone.\<close>

lemma fold_rows_other:
  "fold_rows env L scope after s rs = Inr t \<Longrightarrow> \<forall>r \<in> set rs. ev_kind r \<noteq> lc_kind L \<Longrightarrow> t = s"
proof (induction rs arbitrary: s)
  case (Cons r rs)
  then show ?case
    by (auto simp: fold_rows_Cons [of _ _ _ _ _ _ rs] fold_rows_single and_then_Inr
      split: option.splits)
qed simp

section \<open>The contract of the codecs\<close>

text \<open>
  What an admission relies on: the content codec is reversible (the trait's documented law), serde
  reads back what it wrote, a checkpoint encoding decodes to the state, and a SHA-256 digest has 64
  hexadecimal digits. The codec is one function for the whole life of a store: an erasure, after which
  rows that were sealed under a destroyed key no longer open, is a change of the codec and outside the
  properties that assume this contract. Serialisation is total, as it is for the derived instances of
  the events.
\<close>

locale codec_laws =
  fixes env :: store_env
  assumes codec_reversible:
      "codec env = Some cc \<Longrightarrow> cc_encode cc scope kind p = Inr q \<Longrightarrow> cc_decode cc scope kind q = Some p"
    and codec_decode_scope:
      "codec env = Some cc \<Longrightarrow> cc_decode_scope cc scope rows = default_decode_scope (cc_decode cc) scope rows"
begin

lemma decode_encode:
  "encode_payload env scope kind p = Inr q \<Longrightarrow> decode_payload env scope kind q = Some p"
  using codec_reversible
  by (auto simp: encode_payload_def decode_payload_def split: option.splits sum.splits)

lemma decode_scope_map:
  "codec env = Some cc \<Longrightarrow> decode_scope cc scope rows = map (\<lambda>(k, p). cc_decode cc scope k p) rows"
  using codec_decode_scope by (simp add: decode_scope_def default_decode_scope_def)

lemma decode_kind_map: "decode_kind env scope kind ps = map (decode_payload env scope kind) ps"
  by (auto simp: decode_kind_def decode_payload_def decode_scope_map split: option.splits)

end

text \<open>The state of every live checkpoint of \<open>L\<close> is the replay of the rows up to its position.\<close>

definition checkpoints_sound :: "store_env \<Rightarrow> ('s, 'c, 'e) lifecycle \<Rightarrow> store \<Rightarrow> bool" where
  "checkpoints_sound env L db \<longleftrightarrow>
     (\<forall>sc row s. lc_snapshot_codec L = Some sc \<longrightarrow> row \<in> set (scope_snapshots db) \<longrightarrow>
        snapshot_matches env L sc (sn_scope row) row \<longrightarrow>
        (case decode_payload env (sn_scope row) (lc_kind L) (sn_state row) of
           None \<Rightarrow> None | Some plain \<Rightarrow> sc_decode sc plain) = Some s \<longrightarrow>
        sn_position row < next_position db (sn_scope row) \<and>
        fold_rows env L (sn_scope row) (-1) (lc_default L)
          (filter (\<lambda>r. ev_position r \<le> sn_position row) (scope_rows db (sn_scope row))) = Inr s)"

lemma increasing_split:
  assumes "increasing db"
  shows "scope_rows db scope =
    filter (\<lambda>r. ev_position r \<le> p) (scope_rows db scope) @ filter (\<lambda>r. p < ev_position r) (scope_rows db scope)"
proof -
  have "sorted_wrt (<) (map ev_position rows) \<Longrightarrow>
      rows = filter (\<lambda>r. ev_position r \<le> p) rows @ filter (\<lambda>r. p < ev_position r) rows" for rows :: "event_row list"
  proof (induction rows)
    case (Cons r rows)
    show ?case
    proof (cases "ev_position r \<le> p")
      case False
      with Cons.prems have "filter (\<lambda>r. ev_position r \<le> p) rows = []" "filter (\<lambda>r. p < ev_position r) rows = rows"
        by (auto simp: filter_empty_conv filter_id_conv)
      with False show ?thesis by simp
    qed (use Cons in simp)
  qed simp
  then show ?thesis using assms by (simp add: increasing_def)
qed

lemma snapshot_load_SomeD:
  assumes "snapshot_load env L db scope sc = Some c"
  obtains row where "row \<in> set (scope_snapshots db)" "snapshot_matches env L sc scope row"
    "(case decode_payload env scope (lc_kind L) (sn_state row) of
        None \<Rightarrow> None | Some plain \<Rightarrow> sc_decode sc plain) = Some (cp_state c)"
    "cp_position c = sn_position row"
  using assms by (auto simp: snapshot_load_def dest!: find_SomeD split: option.splits if_splits)

text \<open>A fold that starts from a sound checkpoint is the full replay (\<open>INV-8\<close>).\<close>

lemma store_fold_replay:
  assumes "increasing db" "checkpoints_sound env L db"
  shows "store_fold env L db scope = replay env L db scope"
proof (cases "case lc_snapshot_codec L of None \<Rightarrow> None | Some sc \<Rightarrow> snapshot_load env L db scope sc")
  case None
  then show ?thesis by (simp add: store_fold_def replay_def)
next
  case (Some c)
  then obtain sc where sc: "lc_snapshot_codec L = Some sc" "snapshot_load env L db scope sc = Some c"
    by (auto split: option.splits)
  from sc(2) obtain row where row: "row \<in> set (scope_snapshots db)" "snapshot_matches env L sc scope row"
    "(case decode_payload env scope (lc_kind L) (sn_state row) of
        None \<Rightarrow> None | Some plain \<Rightarrow> sc_decode sc plain) = Some (cp_state c)"
    "cp_position c = sn_position row"
    by (rule snapshot_load_SomeD)
  have scope: "sn_scope row = scope" using row(2) by (simp add: snapshot_matches_def)
  define p where "p = sn_position row"
  let ?rows = "scope_rows db scope"
  let ?old = "filter (\<lambda>r. ev_position r \<le> p) ?rows" and ?new = "filter (\<lambda>r. p < ev_position r) ?rows"
  have sound: "fold_rows env L scope (-1) (lc_default L) ?old = Inr (cp_state c)"
    using assms(2) sc(1) row scope unfolding checkpoints_sound_def p_def by force
  have old: "fold_rows env L scope p u ?old = Inr u" for u
    by (rule fold_rows_skip [OF sound]) simp
  have new: "fold_rows env L scope p u ?new = fold_rows env L scope (-1) u ?new" for u
    by (rule fold_rows_after) (use increasing_position_lt [OF assms(1)] in auto)
  have "fold_rows env L scope p (cp_state c) (?old @ ?new) = fold_rows env L scope (-1) (lc_default L) (?old @ ?new)"
    unfolding fold_rows_append sound old by (simp add: new)
  then have "fold_rows env L scope p (cp_state c) ?rows = fold_rows env L scope (-1) (lc_default L) ?rows"
    using increasing_split [OF assms(1), of scope p] by simp
  then show ?thesis
    using Some row(4) assms(1) by (simp add: store_fold_def replay_def p_def)
qed

section \<open>Admission\<close>

definition event_records :: "('s, 'c, 'e) lifecycle \<Rightarrow> string \<Rightarrow> 'e list \<Rightarrow> (string \<times> string \<times> string) list" where
  "event_records L scope es = map (\<lambda>e. (scope, lc_kind L, to_json (lc_serde L) e)) es"

lemma event_records_simps [simp]:
  "event_records L scope [] = []"
  "event_records L scope (e # es) = (scope, lc_kind L, to_json (lc_serde L) e) # event_records L scope es"
  by (simp_all add: event_records_def)

lemma append_events_increasing:
  "increasing db \<Longrightarrow> append_events env L scope (next_position db scope) es state db =
     and_then (encode_records env (event_records L scope es))
       (\<lambda>stored. Inr (append_rows (row_list stored db) db, lc_fold L state es))"
proof (induction es arbitrary: state db)
  case (Cons e es)
  show ?case
  proof (cases "encode_payload env scope (lc_kind L) (to_json (lc_serde L) e)")
    case (Inr q)
    let ?row = "next_row db scope (lc_kind L) q"
    have "append_events env L scope (next_position db scope + 1) es (lc_evolve L state e)
        (append_rows [?row] db) =
      and_then (encode_records env (event_records L scope es))
       (\<lambda>stored. Inr (append_rows (row_list stored (append_rows [?row] db)) (append_rows [?row] db),
          lc_fold L (lc_evolve L state e) es))"
      using Cons.IH [OF increasing_append_next [OF Cons.prems, of scope "lc_kind L" q], of "lc_evolve L state e"]
      by (simp add: next_position_append [OF Cons.prems])
    then show ?thesis
      using insert_next [OF Cons.prems, of scope "lc_kind L" q]
      by (cases "encode_records env (event_records L scope es)") (simp_all add: Inr next_row_def Let_def)
  qed simp
qed simp

text \<open>Rows written for one scope and kind.\<close>

lemma row_list_own:
  "encode_records env (event_records L scope es) = Inr stored \<Longrightarrow> r \<in> set (row_list stored db) \<Longrightarrow>
     ev_scope r = scope \<and> ev_kind r = lc_kind L"
proof (induction es arbitrary: stored db)
  case (Cons e es)
  from Cons.prems(1) obtain q qs where q: "stored = (scope, lc_kind L, q) # qs"
    "encode_records env (event_records L scope es) = Inr qs"
    by (auto simp: and_then_Inr)
  show ?case
    using Cons.IH [OF q(2), of "append_rows [next_row db scope (lc_kind L) q] db"] Cons.prems(2)
    by (auto simp: q(1) Let_def)
qed simp

lemma row_list_scope:
  "encode_records env (event_records L scope es) = Inr stored \<Longrightarrow>
     filter (\<lambda>r. ev_scope r = s) (row_list stored db) = (if s = scope then row_list stored db else [])"
  using row_list_own by (fastforce simp: filter_id_conv filter_empty_conv)

lemma snapshot_tail_head:
  assumes "increasing db" and head: "max_of (map ev_position (snapshot_tail env L sc scope db)) = Some head"
  shows "\<exists>q r. find (\<lambda>r. ev_position r = head) (scope_rows db scope) = Some q \<and> 0 \<le> head \<and>
    r \<in> set (scope_rows db scope) \<and> ev_position r = head \<and>
    (\<forall>q \<in> set (scope_rows db scope). ev_kind q = lc_kind L \<longrightarrow> ev_position q \<le> head)"
proof -
  let ?tail = "snapshot_tail env L sc scope db"
  from max_of_SomeD [OF head] obtain r where r: "r \<in> set ?tail" "ev_position r = head"
    and max: "\<forall>q \<in> set ?tail. ev_position q \<le> head" by auto
  then have top: "\<forall>q \<in> set (scope_rows db scope). ev_kind q = lc_kind L \<longrightarrow> ev_position q \<le> head"
    by (fastforce simp: snapshot_tail_def Let_def)
  have in_rows: "r \<in> set (scope_rows db scope)" using r(1) by (simp add: snapshot_tail_def Let_def)
  have "\<exists>q. find (\<lambda>r. ev_position r = head) (scope_rows db scope) = Some q"
    using in_rows r(2)
    by (cases "find (\<lambda>r. ev_position r = head) (scope_rows db scope)") (auto simp: find_None_iff)
  with increasing_position_lt [OF assms(1) in_rows] in_rows r(2) top show ?thesis by blast
qed

lemma scope_events_cong: "events db = events db' \<Longrightarrow> scope_events db scope = scope_events db' scope"
  by (simp add: scope_events_def scope_rows_def)

lemma replay_cong: "events db = events db' \<Longrightarrow> replay env L db scope = replay env L db' scope"
  by (simp add: replay_def scope_events_cong [of db db'])

lemma checkpoints_sound_cong:
  "events db = events db' \<Longrightarrow> scope_snapshots db = scope_snapshots db' \<Longrightarrow>
     checkpoints_sound env L db \<longleftrightarrow> checkpoints_sound env L db'"
  by (simp add: checkpoints_sound_def scope_rows_cong [of db db'] next_position_cong [of db db'])

text \<open>Rows appended by anyone leave a sound checkpoint sound.\<close>

lemma checkpoints_sound_extend:
  assumes "checkpoints_sound env L db" "events db' = events db @ rows" "fits db rows"
    and own: "\<forall>r \<in> set (scope_snapshots db'). sn_kind r = lc_kind L \<longrightarrow> r \<in> set (scope_snapshots db)"
  shows "checkpoints_sound env L db'"
proof -
  have rows: "scope_rows db' s = scope_rows db s @ filter (\<lambda>r. ev_scope r = s) rows" for s
    using assms(2) by (simp add: scope_rows_def)
  have later: "next_position db s \<le> next_position db' s" for s
  proof (cases "scope_rows db s = []")
    case False
    then obtain p where "scope_head db s = Some p" by (fastforce simp: scope_head_def)
    moreover from this obtain r where "r \<in> set (scope_rows db s)" "ev_position r = p"
      using max_of_SomeD [of "map ev_position (scope_rows db s)" p] by (auto simp: scope_head_def)
    ultimately show ?thesis using next_position_gt [of r db' s] rows by (simp add: next_position_def)
  next
    case True
    show ?thesis
    proof (cases "filter (\<lambda>r. ev_scope r = s) rows")
      case Nil
      with True rows show ?thesis by (simp add: next_position_def scope_head_def)
    next
      case (Cons r qs)
      then have "r \<in> set rows" "ev_scope r = s" by (auto simp: filter_eq_Cons_iff)
      with assms(3) next_position_gt [of r db' s] rows Cons show ?thesis by (fastforce simp: fits_def)
    qed
  qed
  have same: "filter (\<lambda>r. ev_position r \<le> p) (scope_rows db' s) = filter (\<lambda>r. ev_position r \<le> p) (scope_rows db s)"
    if "p < next_position db s" for p s
    using assms(3) that by (fastforce simp: rows fits_def filter_empty_conv)
  show ?thesis
    unfolding checkpoints_sound_def
  proof (intro allI impI)
    fix sc row s
    assume a: "lc_snapshot_codec L = Some sc" "row \<in> set (scope_snapshots db')" "snapshot_matches env L sc (sn_scope row) row"
      "(case decode_payload env (sn_scope row) (lc_kind L) (sn_state row) of
          None \<Rightarrow> None | Some plain \<Rightarrow> sc_decode sc plain) = Some s"
    then have "row \<in> set (scope_snapshots db)" using own by (simp add: snapshot_matches_def)
    with assms(1) a have "sn_position row < next_position db (sn_scope row)" "fold_rows env L (sn_scope row) (-1) (lc_default L)
        (filter (\<lambda>r. ev_position r \<le> sn_position row) (scope_rows db (sn_scope row))) = Inr s"
      unfolding checkpoints_sound_def by blast+
    with later [of "sn_scope row"] same show "sn_position row < next_position db' (sn_scope row) \<and>
        fold_rows env L (sn_scope row) (-1) (lc_default L)
          (filter (\<lambda>r. ev_position r \<le> sn_position row) (scope_rows db' (sn_scope row))) = Inr s" by simp
  qed
qed

text \<open>An admission of \<open>L\<close> touches the log, its receipt and its own checkpoint, nothing else.\<close>

definition other_tables :: "('s, 'c, 'e) lifecycle \<Rightarrow> store \<Rightarrow> store \<Rightarrow> bool" where
  "other_tables L db db' \<longleftrightarrow>
     commands db' = commands db \<and> record_command_fact_sets db' = record_command_fact_sets db \<and>
     record_command_fact_refs db' = record_command_fact_refs db \<and>
     filter (\<lambda>r. sn_kind r \<noteq> lc_kind L) (scope_snapshots db') =
     filter (\<lambda>r. sn_kind r \<noteq> lc_kind L) (scope_snapshots db)"

locale store_laws = codec_laws env for env +
  fixes L :: "('s, 'c, 'e) lifecycle"
  assumes json_roundtrip: "from_json (lc_serde L) (to_json (lc_serde L) e) = Some e"
    and state_roundtrip:
      "lc_snapshot_codec L = Some sc \<Longrightarrow> sc_encode sc s = Some t \<Longrightarrow> sc_decode sc t = Some s"
    and anchor_length: "lc_snapshot_codec L \<noteq> None \<Longrightarrow> length (sha256_hex env raw) = 64"
begin

lemma fold_new_rows:
  "encode_records env (event_records L scope es) = Inr stored \<Longrightarrow> increasing db \<Longrightarrow>
     fold_rows env L scope (-1) s (row_list stored db) = Inr (lc_fold L s es)"
proof (induction es arbitrary: stored db s)
  case (Cons e es)
  from Cons.prems(1) obtain q qs where q: "stored = (scope, lc_kind L, q) # qs"
    "encode_payload env scope (lc_kind L) (to_json (lc_serde L) e) = Inr q"
    "encode_records env (event_records L scope es) = Inr qs"
    by (auto simp: and_then_Inr)
  have "- 1 < next_position db scope" using next_position_nonneg [OF Cons.prems(2), of scope] by simp
  then show ?case
    using Cons.IH [OF q(3) increasing_append_next [OF Cons.prems(2)]]
    by (simp add: q(1) Let_def fold_rows_Cons [of _ _ _ _ _ _ "row_list _ _"] fold_rows_single
      decode_encode [OF q(2)] json_roundtrip)
qed simp

text \<open>A checkpoint writes nothing but its own row, and only a sound one.\<close>

lemma checkpoint_cases:
  assumes "increasing db"
  obtains (none) "snapshot_checkpoint env L scope s db = Inr db"
  | (written) sc row t where "lc_snapshot_codec L = Some sc" "snapshot_matches env L sc scope row"
      "sc_encode sc s = Some t" "encode_payload env scope (lc_kind L) t = Inr (sn_state row)"
      "snapshot_checkpoint env L scope s db =
         Inr (db\<lparr>scope_snapshots := filter (\<lambda>r. \<not> (sn_scope r = scope \<and> sn_kind r = lc_kind L \<and>
           sn_lifecycle r = sc_lifecycle sc)) (scope_snapshots db) @ [row]\<rparr>)"
      "\<exists>r \<in> set (scope_rows db scope). ev_position r = sn_position row"
      "\<forall>q \<in> set (scope_rows db scope). ev_kind q = lc_kind L \<longrightarrow> ev_position q \<le> sn_position row"
proof (cases "lc_snapshot_codec L")
  case None
  then show ?thesis by (auto simp: snapshot_checkpoint_def intro: that(1))
next
  case (Some sc)
  let ?tail = "snapshot_tail env L sc scope db"
  show ?thesis
  proof (cases "max_of (map ev_position ?tail)")
    case None
    with Some show ?thesis by (auto simp: snapshot_checkpoint_def intro: that(1))
  next
    case head: (Some head)
    from snapshot_tail_head [OF assms head] obtain q r where
      q: "find (\<lambda>r. ev_position r = head) (scope_rows db scope) = Some q"
      and r: "0 \<le> head" "r \<in> set (scope_rows db scope)" "ev_position r = head"
        "\<forall>q \<in> set (scope_rows db scope). ev_kind q = lc_kind L \<longrightarrow> ev_position q \<le> head" by blast
    define row where "row stored = \<lparr>sn_scope = scope, sn_kind = lc_kind L, sn_lifecycle = sc_lifecycle sc,
      sn_codec_version = sc_version sc, sn_reducer_build = reducer_build env,
      sn_position = head, sn_anchor = sha256_hex env (ev_payload q), sn_state = stored\<rparr>" for stored
    have ins: "insert_snapshot (row stored) db =
        Inr (db\<lparr>scope_snapshots := filter (\<lambda>r. \<not> (sn_scope r = scope \<and> sn_kind r = lc_kind L \<and>
           sn_lifecycle r = sc_lifecycle sc)) (scope_snapshots db) @ [row stored]\<rparr>)" for stored
      using anchor_length Some r(1) by (simp add: insert_snapshot_def row_def)
    have E: "snapshot_checkpoint env L scope s db =
      (if int (length ?tail) < uint (sc_every sc) then Inr db
       else case sc_encode sc s of None \<Rightarrow> Inr db
       | Some plain \<Rightarrow> (case encode_payload env scope (lc_kind L) plain of
           Inl _ \<Rightarrow> Inr db | Inr stored \<Rightarrow> insert_snapshot (row stored) db))"
      using head q Some unfolding snapshot_checkpoint_def row_def by simp
    show ?thesis
    proof (cases "\<exists>t stored. sc_encode sc s = Some t \<and> encode_payload env scope (lc_kind L) t = Inr stored
        \<and> \<not> int (length ?tail) < uint (sc_every sc)")
      case True
      then obtain t stored where t: "sc_encode sc s = Some t" "encode_payload env scope (lc_kind L) t = Inr stored"
        "\<not> int (length ?tail) < uint (sc_every sc)" by blast
      show ?thesis
        by (rule that(2) [of sc "row stored" t])
          (use Some t r ins in \<open>auto simp: E row_def snapshot_matches_def\<close>)
    next
      case False
      then have "snapshot_checkpoint env L scope s db = Inr db"
        unfolding E by (auto split: option.splits sum.splits)
      then show ?thesis by (rule that(1))
    qed
  qed
qed

lemma replay_prefix:
  assumes "increasing db" "replay env L db scope = Inr s"
    "\<forall>q \<in> set (scope_rows db scope). ev_kind q = lc_kind L \<longrightarrow> ev_position q \<le> p"
  shows "fold_rows env L scope (-1) (lc_default L) (filter (\<lambda>r. ev_position r \<le> p) (scope_rows db scope)) = Inr s"
proof -
  let ?rows = "scope_rows db scope"
  let ?old = "filter (\<lambda>r. ev_position r \<le> p) ?rows" and ?new = "filter (\<lambda>r. p < ev_position r) ?rows"
  have "fold_rows env L scope (-1) (lc_default L) (?old @ ?new) = Inr s"
    using assms(1,2) increasing_split [OF assms(1), of scope p] by (simp add: replay_def)
  then obtain t where t: "fold_rows env L scope (-1) (lc_default L) ?old = Inr t" "fold_rows env L scope (-1) t ?new = Inr s"
    unfolding fold_rows_append by (auto simp: and_then_Inr)
  have "\<forall>r \<in> set ?new. ev_kind r \<noteq> lc_kind L" using assms(3) by fastforce
  with t fold_rows_other show ?thesis by metis
qed

lemma checkpoint_effect:
  assumes "increasing db" "checkpoints_sound env L db" "replay env L db scope = Inr s"
  shows "\<exists>rows. snapshot_checkpoint env L scope s db = Inr (db\<lparr>scope_snapshots := rows\<rparr>) \<and>
    checkpoints_sound env L (db\<lparr>scope_snapshots := rows\<rparr>) \<and>
    filter (\<lambda>r. sn_kind r \<noteq> lc_kind L) rows = filter (\<lambda>r. sn_kind r \<noteq> lc_kind L) (scope_snapshots db)"
  using assms(1)
proof (cases rule: checkpoint_cases [of db scope s])
  case none
  then show ?thesis using assms(2) by (intro exI [of _ "scope_snapshots db"]) simp
next
  case (written sc row t)
  have row: "sn_scope row = scope" "sn_kind row = lc_kind L" using written(2) by (auto simp: snapshot_matches_def)
  have pos: "sn_position row < next_position db scope" using written(6) next_position_gt by fastforce
  have dec: "decode_payload env scope (lc_kind L) (sn_state row) = Some t" "sc_decode sc t = Some s"
    using decode_encode [OF written(4)] state_roundtrip [OF written(1,3)] by auto
  have fold: "fold_rows env L scope (-1) (lc_default L)
      (filter (\<lambda>r. ev_position r \<le> sn_position row) (scope_rows db scope)) = Inr s"
    using replay_prefix [OF assms(1,3)] written(7) by simp
  let ?rows = "filter (\<lambda>r. \<not> (sn_scope r = scope \<and> sn_kind r = lc_kind L \<and>
    sn_lifecycle r = sc_lifecycle sc)) (scope_snapshots db) @ [row]"
  have same: "scope_rows (db\<lparr>scope_snapshots := ?rows\<rparr>) a = scope_rows db a" for a
    by (rule scope_rows_cong) simp
  have next_same: "next_position (db\<lparr>scope_snapshots := ?rows\<rparr>) a = next_position db a" for a
    by (rule next_position_cong) simp
  have "checkpoints_sound env L (db\<lparr>scope_snapshots := ?rows\<rparr>)"
    using assms(2) fold dec pos row written(1)
    unfolding checkpoints_sound_def same next_same by (auto simp: row)
  then show ?thesis
    using written(5) row(2) by (intro exI [of _ ?rows]) (auto intro!: filter_cong)
qed

lemma admitted_rows:
  assumes "increasing db" "checkpoints_sound env L db" "replay env L db scope = Inr s"
    and stored: "encode_records env (event_records L scope es) = Inr stored"
  shows "increasing (append_rows (row_list stored db) db)"
    and "checkpoints_sound env L (append_rows (row_list stored db) db)"
    and "replay env L (append_rows (row_list stored db) db) scope = Inr (lc_fold L s es)"
proof -
  show increasing: "increasing (append_rows (row_list stored db) db)"
    using tx_append_all_increasing [OF assms(1)] by blast
  show "checkpoints_sound env L (append_rows (row_list stored db) db)"
    by (rule checkpoints_sound_extend [OF assms(2) _ row_list_fits [OF assms(1)]]) simp_all
  show "replay env L (append_rows (row_list stored db) db) scope = Inr (lc_fold L s es)"
    using assms(3) fold_new_rows [OF stored assms(1), of s] row_list_scope [OF stored] assms(1) increasing
    by (simp add: replay_def)
qed

text \<open>An admission on a readable scope: what each branch leaves behind.\<close>

lemma admit_ok:
  assumes "increasing db" "checkpoints_sound env L db" "store_fold env L db scope = Inr s"
    "lc_decide L s c = Inr es" "encode_records env (event_records L scope es) = Inr stored"
  shows "\<exists>db'. admit env L scope c db = (db', Inr (lc_fold L s es)) \<and>
    events db' = events db @ row_list stored db \<and> command_receipts db' = command_receipts db \<and>
    other_tables L db db' \<and> increasing db' \<and> checkpoints_sound env L db' \<and>
    store_fold env L db' scope = Inr (lc_fold L s es)"
proof -
  have "replay env L db scope = Inr s" using store_fold_replay [OF assms(1,2)] assms(3) by simp
  note rows = admitted_rows [OF assms(1,2) this assms(5)]
  from checkpoint_effect [OF rows] obtain sn where sn:
    "snapshot_checkpoint env L scope (lc_fold L s es) (append_rows (row_list stored db) db) =
       Inr ((append_rows (row_list stored db) db)\<lparr>scope_snapshots := sn\<rparr>)"
    "checkpoints_sound env L ((append_rows (row_list stored db) db)\<lparr>scope_snapshots := sn\<rparr>)"
    "filter (\<lambda>r. sn_kind r \<noteq> lc_kind L) sn = filter (\<lambda>r. sn_kind r \<noteq> lc_kind L) (scope_snapshots db)" by auto
  let ?db1 = "append_rows (row_list stored db) db"
  let ?db = "?db1\<lparr>scope_snapshots := sn\<rparr>"
  have view: "increasing ?db" "replay env L ?db scope = Inr (lc_fold L s es)"
    using rows increasing_cong [of ?db ?db1] replay_cong [of ?db ?db1 env L] by auto
  show ?thesis
    using assms(1,3-5) sn view
    by (intro exI [of _ ?db])
      (simp add: admit_def in_tx_def append_events_increasing other_tables_def store_fold_replay)
qed

lemma admit_with_key_ok:
  assumes "increasing db" "checkpoints_sound env L db" "store_fold env L db scope = Inr s"
    "find_receipt db scope key = None"
    "lc_decide L s c = Inr es" "encode_records env (event_records L scope es) = Inr stored"
  shows "\<exists>db'. admit_with_key env L scope key c db = (db', Inr (lc_fold L s es)) \<and>
    events db' = events db @ row_list stored db \<and>
    command_receipts db' = command_receipts db @
      [\<lparr>rc_scope = scope, rc_key = key, rc_applied_at = next_position db scope\<rparr>] \<and>
    other_tables L db db' \<and> increasing db' \<and> checkpoints_sound env L db' \<and>
    store_fold env L db' scope = Inr (lc_fold L s es)"
proof -
  have "replay env L db scope = Inr s" using store_fold_replay [OF assms(1,2)] assms(3) by simp
  note rows = admitted_rows [OF assms(1,2) this assms(6)]
  let ?receipt = "\<lparr>rc_scope = scope, rc_key = key, rc_applied_at = next_position db scope\<rparr>"
  let ?db1 = "append_rows (row_list stored db) db"
  let ?db2 = "?db1\<lparr>command_receipts := command_receipts db @ [?receipt]\<rparr>"
  have receipt: "insert_receipt scope key (next_position db scope) ?db1 = Inr ?db2"
    using assms(4) by (simp add: insert_receipt_def find_receipt_def)
  have rows2: "increasing ?db2" "checkpoints_sound env L ?db2" "replay env L ?db2 scope = Inr (lc_fold L s es)"
    using rows increasing_cong [of ?db2 ?db1] checkpoints_sound_cong [of ?db2 ?db1 env L]
      replay_cong [of ?db2 ?db1 env L] by auto
  from checkpoint_effect [OF rows2] obtain sn where sn:
    "snapshot_checkpoint env L scope (lc_fold L s es) ?db2 = Inr (?db2\<lparr>scope_snapshots := sn\<rparr>)"
    "checkpoints_sound env L (?db2\<lparr>scope_snapshots := sn\<rparr>)"
    "filter (\<lambda>r. sn_kind r \<noteq> lc_kind L) sn = filter (\<lambda>r. sn_kind r \<noteq> lc_kind L) (scope_snapshots db)" by auto
  let ?db = "?db2\<lparr>scope_snapshots := sn\<rparr>"
  have view: "increasing ?db" "replay env L ?db scope = Inr (lc_fold L s es)"
    using rows increasing_cong [of ?db ?db1] replay_cong [of ?db ?db1 env L] by auto
  show ?thesis
    using assms(1,3-6) sn view receipt
    by (intro exI [of _ ?db])
      (simp add: admit_with_key_def in_tx_def append_events_increasing other_tables_def store_fold_replay)
qed

end

end
