(* ===== verification/Store_Admit.thy ===== *)
theory Store_Admit
  imports Store_Fold Handoff
begin

text \<open>
  The store over time. \<open>store_step\<close> interleaves admissions of one lifecycle with everything else the
  store does (appends of records, admissions of other lifecycles, receipts), seen as an extension of
  the log; each operation of \<open>crates/store/src/lib.rs\<close> that is not an admission of the lifecycle is
  shown to be such an extension. The properties hold in every store so reached: positions are increasing,
  a checkpointed fold is the replay, an admission refines the reducer, a key is admitted once, and the
  state folded from the log is one the reducer can reach.
\<close>

section \<open>Steps\<close>

text \<open>Everything else: rows that continue the log and whose scope and kind satisfy \<open>P\<close>, appended at the next
  position or imported with the positions of an archive, and any change of the other tables that keeps
  the receipts and the lifecycle's own checkpoints.\<close>

definition other_step ::
  "('s, 'c, 'e) lifecycle \<Rightarrow> (string \<Rightarrow> string \<Rightarrow> bool) \<Rightarrow> store \<Rightarrow> store \<Rightarrow> bool" where
  "other_step L P db db' \<longleftrightarrow>
     (\<exists>rows. events db' = events db @ rows \<and> fits db rows \<and> (\<forall>r \<in> set rows. P (ev_scope r) (ev_kind r))) \<and>
     (\<exists>rs. command_receipts db' = command_receipts db @ rs) \<and>
     (\<forall>r \<in> set (scope_snapshots db'). sn_kind r = lc_kind L \<longrightarrow> r \<in> set (scope_snapshots db))"

inductive store_step ::
  "store_env \<Rightarrow> ('s, 'c, 'e) lifecycle \<Rightarrow> (string \<Rightarrow> string \<Rightarrow> bool) \<Rightarrow> store \<Rightarrow> store \<Rightarrow> bool"
  for env L P where
  admission: "store_step env L P db (fst (admit env L scope c db))"
| keyed: "store_step env L P db (fst (admit_with_key env L scope key c db))"
| other: "other_step L P db db' \<Longrightarrow> store_step env L P db db'"

abbreviation store_reach ::
  "store_env \<Rightarrow> ('s, 'c, 'e) lifecycle \<Rightarrow> (string \<Rightarrow> string \<Rightarrow> bool) \<Rightarrow> store \<Rightarrow> bool" where
  "store_reach env L P \<equiv> (store_step env L P)\<^sup>*\<^sup>* empty_store"

text \<open>The rows of the lifecycle itself are left to its admissions.\<close>

abbreviation foreign :: "('s, 'c, 'e) lifecycle \<Rightarrow> string \<Rightarrow> string \<Rightarrow> bool" where
  "foreign L scope kind \<equiv> kind \<noteq> lc_kind L"

section \<open>The other operations are such steps\<close>

lemma in_tx_simps [simp]:
  "in_tx db (Inl e) = (db, Inl e)"
  "in_tx db (Inr (db', x)) = (db', Inr x)"
  by (simp_all add: in_tx_def)

lemma row_list_from:
  "r \<in> set (row_list rs db) \<Longrightarrow> \<exists>stored. (ev_scope r, ev_kind r, stored) \<in> set rs"
  by (induction rs db rule: row_list.induct) (auto simp: Let_def)

lemma other_step_rows:
  "increasing db \<Longrightarrow> events db' = events db @ row_list rs db \<Longrightarrow>
     (\<forall>(scope, kind, stored) \<in> set rs. P scope kind) \<Longrightarrow>
     command_receipts db' = command_receipts db @ qs \<Longrightarrow> scope_snapshots db' = scope_snapshots db \<Longrightarrow>
     other_step L P db db'"
  using row_list_fits row_list_from [of _ rs db] by (fastforce simp: other_step_def)

lemma increasing_rows: "increasing db \<Longrightarrow> fits db rows \<Longrightarrow> events db' = events db @ rows \<Longrightarrow> increasing db'"
  using increasing_append [of db rows] increasing_cong [of db' "append_rows rows db"] by simp

lemma other_step_refl: "increasing db \<Longrightarrow> other_step L P db db"
  by (rule other_step_rows [where rs = "[]"]) auto

lemma other_step_append:
  "increasing db \<Longrightarrow> P scope kind \<Longrightarrow> other_step L P db (append_rows [next_row db scope kind stored] db)"
  by (rule other_step_rows [where rs = "[(scope, kind, stored)]" and qs = "[]"]) auto

lemma append_record_step:
  assumes "increasing db" "P scope kind"
  shows "other_step L P db (fst (append_record env scope kind payload db))"
  using assms
  by (cases "encode_payload env scope kind payload")
    (simp_all add: append_record_def tx_append_increasing other_step_refl other_step_append)

lemma append_chained_record_step:
  assumes "increasing db" "P scope kind"
  shows "other_step L P db (fst (append_chained_record env scope kind link db))"
  using assms
  by (cases "encode_payload env scope kind (link (tx_chain_head env db scope kind))")
    (simp_all add: append_chained_record_def tx_append_increasing other_step_refl other_step_append)

lemma append_record_with_key_step:
  assumes "increasing db" "P scope kind"
  shows "other_step L P db (fst (append_record_with_key env scope key kind payload db))"
proof (cases "encode_payload env scope kind payload")
  case (Inr stored)
  show ?thesis
  proof (cases "find_receipt db scope key")
    case None
    then have "find_receipt (append_rows [next_row db scope kind stored] db) scope key = None"
      by (simp add: find_receipt_def)
    with None Inr assms show ?thesis
      by (intro other_step_rows [where rs = "[(scope, kind, stored)]"])
        (auto simp: append_record_with_key_def tx_append_increasing insert_receipt_def)
  qed (simp add: append_record_with_key_def Inr other_step_refl assms)
qed (simp add: append_record_with_key_def other_step_refl assms)

lemma encode_records_from:
  "encode_records env rs = Inr qs \<Longrightarrow> (scope, kind, stored) \<in> set qs \<Longrightarrow> \<exists>p. (scope, kind, p) \<in> set rs"
  by (induction env rs arbitrary: qs rule: encode_records.induct) (fastforce simp: and_then_Inr)+

lemma append_records_atomically_step:
  assumes "increasing db" "\<forall>(scope, kind, payload) \<in> set rs. P scope kind"
  shows "other_step L P db (fst (append_records_atomically env rs db))"
proof (cases "encode_records env rs")
  case (Inr stored)
  have "\<forall>(scope, kind, q) \<in> set stored. P scope kind"
    using encode_records_from [OF Inr] assms(2) by blast
  with tx_append_all_increasing [OF assms(1), of stored] assms(1) show ?thesis
    by (intro other_step_rows [where rs = stored and qs = "[]"])
      (auto simp: append_records_atomically_def Inr)
qed (simp add: append_records_atomically_def other_step_refl assms)

lemma append_record_with_linked_record_step:
  assumes "increasing db" "P scope kind" "P companion_scope companion_kind"
  shows "other_step L P db (fst (append_record_with_linked_record env scope kind payload
    companion_scope companion_kind link db))"
proof (cases "link (next_position db scope)")
  case companion: (Inr companion)
  show ?thesis
  proof (cases "encode_payload env scope kind payload")
    case stored: (Inr stored)
    note increasing1 = increasing_append_next [OF assms(1), of scope kind stored]
    show ?thesis
    proof (cases "encode_payload env companion_scope companion_kind companion")
      case (Inr stored2)
      with companion stored assms tx_append_increasing [OF increasing1] show ?thesis
        by (intro other_step_rows [where rs = "[(scope, kind, stored), (companion_scope, companion_kind, stored2)]"
            and qs = "[]"])
          (auto simp: append_record_with_linked_record_def tx_append_increasing Let_def)
    qed (use companion stored assms in
      \<open>simp add: append_record_with_linked_record_def tx_append_increasing other_step_refl\<close>)
  qed (use companion assms in \<open>simp add: append_record_with_linked_record_def other_step_refl\<close>)
qed (use assms in \<open>simp add: append_record_with_linked_record_def other_step_refl\<close>)

section \<open>Every step keeps the log and the checkpoints sound\<close>

context store_laws
begin

lemma admit_cases:
  assumes "increasing db" "checkpoints_sound env L db"
  obtains (failed) e where "admit env L scope c db = (db, Inl e)"
  | (applied) s es stored db' where "store_fold env L db scope = Inr s" "lc_decide L s c = Inr es"
      "encode_records env (event_records L scope es) = Inr stored"
      "admit env L scope c db = (db', Inr (lc_fold L s es))"
      "events db' = events db @ row_list stored db" "command_receipts db' = command_receipts db"
      "other_tables L db db'" "increasing db'" "checkpoints_sound env L db'"
      "store_fold env L db' scope = Inr (lc_fold L s es)"
proof (cases "store_fold env L db scope")
  case (Inl e)
  then show ?thesis by (intro failed) (simp add: admit_def)
next
  case s: (Inr s)
  show ?thesis
  proof (cases "lc_decide L s c")
    case (Inl r)
    with s show ?thesis by (intro failed) (simp add: admit_def)
  next
    case es: (Inr es)
    show ?thesis
    proof (cases "encode_records env (event_records L scope es)")
      case (Inl e)
      with s es assms show ?thesis
        by (intro failed) (simp add: admit_def append_events_increasing)
    next
      case (Inr stored)
      from admit_ok [OF assms s es Inr] show ?thesis using applied s es Inr by blast
    qed
  qed
qed

lemma admit_with_key_cases:
  assumes "increasing db" "checkpoints_sound env L db"
  obtains (failed) e where "admit_with_key env L scope key c db = (db, Inl e)"
  | (replayed) "find_receipt db scope key \<noteq> None"
      "admit_with_key env L scope key c db = (db, store_fold env L db scope)"
  | (applied) s es stored db' where "store_fold env L db scope = Inr s" "find_receipt db scope key = None"
      "lc_decide L s c = Inr es" "encode_records env (event_records L scope es) = Inr stored"
      "admit_with_key env L scope key c db = (db', Inr (lc_fold L s es))"
      "events db' = events db @ row_list stored db"
      "command_receipts db' = command_receipts db @
        [\<lparr>rc_scope = scope, rc_key = key, rc_applied_at = next_position db scope\<rparr>]"
      "other_tables L db db'" "increasing db'" "checkpoints_sound env L db'"
      "store_fold env L db' scope = Inr (lc_fold L s es)"
proof (cases "store_fold env L db scope")
  case (Inl e)
  then show ?thesis by (intro failed [of e]) (simp add: admit_with_key_def)
next
  case s: (Inr s)
  show ?thesis
  proof (cases "find_receipt db scope key")
    case (Some p)
    with s show ?thesis by (intro replayed) (simp_all add: admit_with_key_def)
  next
    case fresh: None
    show ?thesis
    proof (cases "lc_decide L s c")
      case (Inl r)
      with s fresh show ?thesis by (intro failed) (simp add: admit_with_key_def)
    next
      case es: (Inr es)
      show ?thesis
      proof (cases "encode_records env (event_records L scope es)")
        case (Inl e)
        with s es fresh assms show ?thesis
          by (intro failed) (simp add: admit_with_key_def append_events_increasing Let_def)
      next
        case (Inr stored)
        from admit_with_key_ok [OF assms s fresh es Inr] show ?thesis using applied s fresh es Inr by blast
      qed
    qed
  qed
qed

lemma step_sound:
  assumes "store_step env L P db db'" "increasing db" "checkpoints_sound env L db"
  shows "increasing db' \<and> checkpoints_sound env L db'"
  using assms(1)
proof cases
  case (admission scope c)
  then show ?thesis using assms(2,3) by (cases rule: admit_cases [OF assms(2,3), of scope c]) auto
next
  case (keyed scope key c)
  then show ?thesis using assms(2,3) by (cases rule: admit_with_key_cases [OF assms(2,3), of scope key c]) auto
next
  case other
  then show ?thesis
    using checkpoints_sound_extend [OF assms(3)] increasing_rows [OF assms(2)]
    by (auto simp: other_step_def)
qed

lemma steps_sound:
  assumes "(store_step env L P)\<^sup>*\<^sup>* db db'" "increasing db" "checkpoints_sound env L db"
  shows "increasing db' \<and> checkpoints_sound env L db'"
  using assms by (induction) (auto dest: step_sound)

lemma reach_sound:
  assumes "store_reach env L P db"
  shows "increasing db" "checkpoints_sound env L db"
  using steps_sound [OF assms] by (auto simp: checkpoints_sound_def empty_store_def increasing_def scope_rows_def)

lemma receipts_kept:
  assumes "(store_step env L P)\<^sup>*\<^sup>* db db'" "increasing db" "checkpoints_sound env L db"
  shows "\<exists>rs. command_receipts db' = command_receipts db @ rs"
  using assms
proof (induction rule: rtranclp_induct)
  case (step y z)
  then have sound: "increasing y" "checkpoints_sound env L y" using steps_sound by blast+
  from step(2) have "\<exists>rs. command_receipts z = command_receipts y @ rs"
  proof cases
    case (admission scope c)
    then show ?thesis by (cases rule: admit_cases [OF sound, of scope c]) auto
  next
    case (keyed scope key c)
    then show ?thesis by (cases rule: admit_with_key_cases [OF sound, of scope key c]) auto
  qed (auto simp: other_step_def)
  with step show ?case by auto
qed simp

text \<open>To every other lifecycle, an admission is one more extension of the log.\<close>

lemma encode_event_records:
  "encode_records env (event_records L scope es) = Inr stored \<Longrightarrow>
     \<forall>(a, k, q) \<in> set stored. a = scope \<and> k = lc_kind L"
  using encode_records_from by (fastforce simp: event_records_def)

lemma other_tables_snapshots:
  "other_tables L db db' \<Longrightarrow> lc_kind L \<noteq> lc_kind M \<Longrightarrow> r \<in> set (scope_snapshots db') \<Longrightarrow>
     sn_kind r = lc_kind M \<Longrightarrow> r \<in> set (scope_snapshots db)"
  unfolding other_tables_def by (metis (mono_tags, lifting) mem_Collect_eq set_filter)

lemma admit_other:
  assumes "increasing db" "checkpoints_sound env L db" "lc_kind L \<noteq> lc_kind M" "P scope (lc_kind L)"
  shows "other_step M P db (fst (admit env L scope c db))"
  using assms(1,2)
proof (cases rule: admit_cases [of db scope c])
  case (applied s es stored db')
  then show ?thesis
    using encode_event_records [OF applied(3)] other_tables_snapshots [OF applied(7) assms(3)] assms(4)
    row_list_fits [OF assms(1)] row_list_from [of _ stored db]
    by (fastforce simp: other_step_def)
qed (simp add: other_step_refl assms)

lemma admit_with_key_other:
  assumes "increasing db" "checkpoints_sound env L db" "lc_kind L \<noteq> lc_kind M" "P scope (lc_kind L)"
  shows "other_step M P db (fst (admit_with_key env L scope key c db))"
  using assms(1,2)
proof (cases rule: admit_with_key_cases [of db scope key c])
  case (applied s es stored db')
  then show ?thesis
    using encode_event_records [OF applied(4)] other_tables_snapshots [OF applied(8) assms(3)] assms(4)
    row_list_fits [OF assms(1)] row_list_from [of _ stored db]
    by (fastforce simp: other_step_def)
qed (simp_all add: other_step_refl assms)

end

section \<open>The typed log\<close>

text \<open>The lifecycle's rows of a scope, opened, are the serialised form of \<open>es\<close>.\<close>

definition rows_hold ::
  "store_env \<Rightarrow> ('s, 'c, 'e) lifecycle \<Rightarrow> string \<Rightarrow> event_row list \<Rightarrow> 'e list \<Rightarrow> bool" where
  "rows_hold env L scope rows es \<longleftrightarrow>
     map (\<lambda>r. decode_payload env scope (lc_kind L) (ev_payload r)) (filter (\<lambda>r. ev_kind r = lc_kind L) rows) =
     map (\<lambda>e. Some (to_json (lc_serde L) e)) es"

lemma rows_hold_append:
  "rows_hold env L scope rows es \<Longrightarrow> rows_hold env L scope qs fs \<Longrightarrow> rows_hold env L scope (rows @ qs) (es @ fs)"
  by (simp add: rows_hold_def)

lemma rows_hold_foreign:
  "\<forall>r \<in> set rows. ev_kind r \<noteq> lc_kind L \<Longrightarrow> rows_hold env L scope rows []"
  by (simp add: rows_hold_def filter_empty_conv)

context store_laws
begin

lemma rows_hold_new:
  "encode_records env (event_records L scope es) = Inr stored \<Longrightarrow> rows_hold env L scope (row_list stored db) es"
proof (induction es arbitrary: stored db)
  case (Cons e es)
  from Cons.prems obtain q qs where q: "stored = (scope, lc_kind L, q) # qs"
    "encode_payload env scope (lc_kind L) (to_json (lc_serde L) e) = Inr q"
    "encode_records env (event_records L scope es) = Inr qs"
    by (auto simp: and_then_Inr)
  show ?case
    using Cons.IH [OF q(3)] decode_encode [OF q(2)] by (simp add: q(1) rows_hold_def Let_def)
qed (simp add: rows_hold_def)

lemma fold_rows_hold:
  "rows_hold env L scope rows es \<Longrightarrow> \<forall>r \<in> set rows. 0 \<le> ev_position r \<Longrightarrow>
     fold_rows env L scope (-1) s rows = Inr (lc_fold L s es) \<or>
     codec env \<noteq> None \<and> fold_rows env L scope (-1) s rows = Inl unavailable"
proof (induction rows arbitrary: s es)
  case (Cons r rows)
  show ?case
  proof (cases "ev_kind r = lc_kind L")
    case True
    with Cons.prems(1) obtain e fs where e: "es = e # fs"
      "decode_payload env scope (lc_kind L) (ev_payload r) = Some (to_json (lc_serde L) e)"
      "rows_hold env L scope rows fs"
      by (cases es) (auto simp: rows_hold_def)
    have "0 \<le> ev_position r" using Cons.prems(2) by simp
    with Cons.IH [OF e(3), of "lc_evolve L s e"] Cons.prems(2) True e(1,2) show ?thesis
      by (simp add: fold_rows_Cons [of _ _ _ _ _ _ rows] fold_rows_single json_roundtrip)
  next
    case False
    then have "rows_hold env L scope rows es" using Cons.prems(1) by (simp add: rows_hold_def)
    from Cons.IH [OF this] Cons.prems(2) False show ?thesis
      by (auto simp: fold_rows_Cons [of _ _ _ _ _ _ rows] fold_rows_single decode_payload_def
        split: option.splits)
  qed
qed (simp add: rows_hold_def)

lemma drive_step:
  assumes "rows_hold env L scope rows (lc_log L (lc_default L) cs)" "\<forall>r \<in> set rows. 0 \<le> ev_position r"
    "fold_rows env L scope (-1) (lc_default L) rows = Inr s"
  shows "s = lc_drive L (lc_default L) cs"
  using fold_rows_hold [OF assms(1,2), of "lc_default L"] assms(3) by (auto simp: lc_fold_log)

text \<open>One more admission is one more command of the sequence.\<close>

lemma admitted_log:
  assumes "increasing db" "checkpoints_sound env L db"
    "rows_hold env L scope (scope_rows db scope) (lc_log L (lc_default L) cs)"
    "store_fold env L db scope = Inr s" "lc_decide L s c = Inr es"
    "encode_records env (event_records L scope es) = Inr stored" "events db' = events db @ row_list stored db"
  shows "rows_hold env L scope (scope_rows db' scope) (lc_log L (lc_default L) (cs @ [c]))"
proof -
  have "s = lc_drive L (lc_default L) cs"
    using drive_step [OF assms(3)] assms(4) store_fold_replay [OF assms(1,2)] increasing_position_lt [OF assms(1)]
    by (simp add: replay_def assms(1))
  moreover have "scope_rows db' scope = scope_rows db scope @ row_list stored db"
    using assms(7) row_list_scope [OF assms(6)] by (simp add: scope_rows_def)
  ultimately show ?thesis
    using rows_hold_append [OF assms(3) rows_hold_new [OF assms(6)]] assms(5) by simp
qed

lemma other_scope_rows:
  assumes "encode_records env (event_records L scope es) = Inr stored" "events db' = events db @ row_list stored db"
    "a \<noteq> scope"
  shows "scope_rows db' a = scope_rows db a"
  using assms(2,3) row_list_scope [OF assms(1)] by (simp add: scope_rows_def)

lemma step_log:
  assumes "store_step env L (foreign L) db db'" "increasing db" "checkpoints_sound env L db"
    and log: "\<forall>scope. \<exists>cs. rows_hold env L scope (scope_rows db scope) (lc_log L (lc_default L) cs)"
  shows "\<exists>cs. rows_hold env L a (scope_rows db' a) (lc_log L (lc_default L) cs)"
  using assms(1)
proof cases
  case (admission scope c)
  from assms(2,3) show ?thesis
  proof (cases rule: admit_cases [of db scope c])
    case (applied s es stored db')
    from log obtain cs where "rows_hold env L a (scope_rows db a) (lc_log L (lc_default L) cs)" by blast
    with admission(1) applied(4) admitted_log [OF assms(2,3) _ applied(1-3,5)] other_scope_rows [OF applied(3,5)]
    show ?thesis by (cases "a = scope") (metis fst_conv)+
  qed (use admission log in simp)
next
  case (keyed scope key c)
  from assms(2,3) show ?thesis
  proof (cases rule: admit_with_key_cases [of db scope key c])
    case (applied s es stored db')
    from log obtain cs where "rows_hold env L a (scope_rows db a) (lc_log L (lc_default L) cs)" by blast
    with keyed(1) applied(5) admitted_log [OF assms(2,3) _ applied(1,3,4,6)] other_scope_rows [OF applied(4,6)]
    show ?thesis by (cases "a = scope") (metis fst_conv)+
  qed (use keyed log in simp_all)
next
  case other
  then obtain rows where rows: "events db' = events db @ rows" "\<forall>r \<in> set rows. ev_kind r \<noteq> lc_kind L"
    by (auto simp: other_step_def)
  then have "rows_hold env L a (filter (\<lambda>r. ev_scope r = a) rows) []"
    by (intro rows_hold_foreign) simp
  moreover have "scope_rows db' a = scope_rows db a @ filter (\<lambda>r. ev_scope r = a) rows"
    using rows(1) by (simp add: scope_rows_def)
  ultimately show ?thesis using log rows_hold_append by (metis append_Nil2)
qed

lemma reach_log:
  assumes "store_reach env L (foreign L) db"
  shows "\<exists>cs. rows_hold env L scope (scope_rows db scope) (lc_log L (lc_default L) cs)"
  using assms
proof (induction arbitrary: scope rule: rtranclp_induct)
  case base
  show ?case by (rule exI [of _ "[]"]) (simp add: rows_hold_def empty_store_def scope_rows_def)
next
  case (step y z)
  then show ?case using step_log [OF step(2) reach_sound [OF step(1)]] by blast
qed

lemma other_scopes_unchanged:
  assumes "increasing db" "increasing db'" "checkpoints_sound env L db" "checkpoints_sound env L db'"
    "encode_records env (event_records L scope es) = Inr stored" "events db' = events db @ row_list stored db"
    "a \<noteq> scope"
  shows "store_fold env L db' a = store_fold env L db a"
  using other_scope_rows [OF assms(5-7)] assms(1,2)
  by (simp add: store_fold_replay [OF assms(1,3)] store_fold_replay [OF assms(2,4)] replay_def)

lemma admit_refines:
  assumes "increasing db" "checkpoints_sound env L db" "store_fold env L db scope = Inr s"
  shows "case lc_decide L s c of
      Inl r \<Rightarrow> admit env L scope c db = (db, Inl (Rejected r))
    | Inr es \<Rightarrow>
        (case encode_records env (event_records L scope es) of
           Inl e \<Rightarrow> admit env L scope c db = (db, Inl e)
         | Inr stored \<Rightarrow>
             (\<exists>db'. admit env L scope c db = (db', Inr (lc_fold L s es)) \<and>
                (\<forall>a. store_fold env L db' a = (if a = scope then Inr (lc_fold L s es) else store_fold env L db a)) \<and>
                events db' = events db @ row_list stored db \<and> command_receipts db' = command_receipts db))"
proof (cases "lc_decide L s c")
  case (Inl r)
  then show ?thesis using assms(3) by (simp add: admit_def)
next
  case es: (Inr es)
  show ?thesis
  proof (cases "encode_records env (event_records L scope es)")
    case (Inl e)
    then show ?thesis using assms es by (simp add: admit_def append_events_increasing)
  next
    case (Inr stored)
    from admit_ok [OF assms es Inr] obtain db' where db': "admit env L scope c db = (db', Inr (lc_fold L s es))"
      "events db' = events db @ row_list stored db" "command_receipts db' = command_receipts db"
      "increasing db'" "checkpoints_sound env L db'" "store_fold env L db' scope = Inr (lc_fold L s es)" by blast
    with es Inr other_scopes_unchanged [OF assms(1) db'(4) assms(2) db'(5) Inr db'(2)] show ?thesis by auto
  qed
qed

text \<open>A receipt seals its key: later admissions under it only read.\<close>

lemma sealed_key:
  assumes "increasing db" "checkpoints_sound env L db" "admit_with_key env L scope key c db = (db', Inr s)"
    "(store_step env L P)\<^sup>*\<^sup>* db' db''"
  shows "admit_with_key env L scope key c' db'' = (db'', store_fold env L db'' scope)"
proof -
  have keyed: "find_receipt db' scope key \<noteq> None \<and> increasing db' \<and> checkpoints_sound env L db'"
    using assms(1,2)
    by (cases rule: admit_with_key_cases [of db scope key c])
      (use assms in \<open>auto simp: find_receipt_iff\<close>)
  then obtain rs where "command_receipts db'' = command_receipts db' @ rs"
    using receipts_kept [OF assms(4)] by blast
  with keyed have "find_receipt db'' scope key \<noteq> None"
    by (auto simp: find_receipt_iff)
  then show ?thesis
    by (cases "store_fold env L db'' scope") (simp_all add: admit_with_key_def)
qed

lemma reach_state:
  assumes "store_reach env L (foreign L) db"
  shows "\<exists>cs. rows_hold env L scope (scope_rows db scope) (lc_log L (lc_default L) cs) \<and>
    (store_fold env L db scope = Inr (lc_drive L (lc_default L) cs) \<or>
     codec env \<noteq> None \<and> store_fold env L db scope = Inl unavailable)"
proof -
  note sound = reach_sound [OF assms]
  obtain cs where cs: "rows_hold env L scope (scope_rows db scope) (lc_log L (lc_default L) cs)"
    using reach_log [OF assms] by blast
  from fold_rows_hold [OF this, of "lc_default L"] increasing_position_lt [OF sound(1)] sound(1)
    store_fold_replay [OF sound, of scope]
  have "store_fold env L db scope = Inr (lc_drive L (lc_default L) cs) \<or>
     codec env \<noteq> None \<and> store_fold env L db scope = Inl unavailable"
    by (auto simp: replay_def lc_fold_log)
  with cs show ?thesis by blast
qed

end

section \<open>The contract holds\<close>

text \<open>
  A store without a content codec (\<open>Store::open\<close>). The handoff lifecycle, whose events are JSON
  strings, meets the contract over it, as it stands and with a checkpoint after every event.
\<close>

definition plain_env :: "(string \<Rightarrow> string) \<Rightarrow> string \<Rightarrow> store_env" where
  "plain_env sha build = \<lparr>codec = None, sha256_hex = sha, reducer_build = build\<rparr>"

definition digest64 :: "string \<Rightarrow> string" where
  "digest64 raw = take 64 (raw @ replicate 64 (CHR ''0''))"

definition handoff_state_encode :: "handoff_state \<Rightarrow> string option" where
  "handoff_state_encode s =
     Some ((case phase s of Draft \<Rightarrow> CHR ''d'' | Offered \<Rightarrow> CHR ''o'' | LogSynced \<Rightarrow> CHR ''l''
            | Committed \<Rightarrow> CHR ''c'' | Aborted \<Rightarrow> CHR ''a'') #
       map (\<lambda>b. if b then CHR ''1'' else CHR ''0'')
         [home s = Target, target_has_log s, target_has_content s, sealed s])"

fun handoff_state_decode :: "string \<Rightarrow> handoff_state option" where
  "handoff_state_decode [p, h, a, b, c] =
     Some \<lparr>phase = (if p = CHR ''d'' then Draft else if p = CHR ''o'' then Offered
              else if p = CHR ''l'' then LogSynced else if p = CHR ''c'' then Committed else Aborted),
           home = (if h = CHR ''1'' then Target else Origin), target_has_log = (a = CHR ''1''),
           target_has_content = (b = CHR ''1''), sealed = (c = CHR ''1'')\<rparr>"
| "handoff_state_decode _ = None"

definition checkpointed_handoff :: "(handoff_state, handoff_command, handoff_event) lifecycle" where
  "checkpointed_handoff = (handoff_lifecycle handoff_serde)\<lparr>lc_snapshot_codec :=
     Some (snapshot_codec_every (snapshot_codec_serde ''handoff'' 1 handoff_state_encode handoff_state_decode) 1)\<rparr>"

lemma handoff_state_roundtrip: "handoff_state_encode s = Some t \<Longrightarrow> handoff_state_decode t = Some s"
  by (cases "phase s"; cases "home s") (auto simp: handoff_state_encode_def)

interpretation plain_codec: codec_laws "plain_env sha build"
  by unfold_locales (simp_all add: plain_env_def)

interpretation handoff_store: store_laws "plain_env sha build" "handoff_lifecycle handoff_serde"
  by unfold_locales (simp_all add: handoff_serde_roundtrip)

interpretation checkpointed_store: store_laws "plain_env digest64 build" checkpointed_handoff
  by unfold_locales
    (auto simp: checkpointed_handoff_def handoff_serde_roundtrip snapshot_codec_every_def
      snapshot_codec_serde_def handoff_state_roundtrip plain_env_def digest64_def)

lemma admit_reach: "store_reach env L P db \<Longrightarrow> store_reach env L P (fst (admit env L scope c db))"
  by (rule rtranclp.rtrancl_into_rtrancl) (auto intro: store_step.intros)

text \<open>A store that holds a checkpoint, a later event of the handoff and a foreign record.\<close>

definition sample_env :: store_env where
  "sample_env = plain_env digest64 ''1''"

definition sample_store :: store where
  "sample_store = (let
     a = fst (admit sample_env checkpointed_handoff ''p'' OfferHandoff empty_store);
     b = fst (append_record sample_env ''p'' ''note'' ''x'' a)
     in fst (admit sample_env checkpointed_handoff ''p'' SyncLog b))"

lemma sample_laws: "store_laws sample_env checkpointed_handoff"
  unfolding sample_env_def by (rule checkpointed_store.store_laws_axioms)

lemma sample_reach: "store_reach sample_env checkpointed_handoff (foreign checkpointed_handoff) sample_store"
proof -
  let ?a = "fst (admit sample_env checkpointed_handoff ''p'' OfferHandoff empty_store)"
  have a: "store_reach sample_env checkpointed_handoff (foreign checkpointed_handoff) ?a"
    by (rule admit_reach) simp
  have "other_step checkpointed_handoff (foreign checkpointed_handoff) ?a
      (fst (append_record sample_env ''p'' ''note'' ''x'' ?a))"
    by (rule append_record_step [OF store_laws.reach_sound(1) [OF sample_laws a]])
      (simp add: checkpointed_handoff_def)
  then show ?thesis
    unfolding sample_store_def Let_def
    by (intro admit_reach rtranclp.rtrancl_into_rtrancl [OF a] store_step.other)
qed

lemma sample_facts:
  "length (scope_snapshots sample_store) = 1"
  "map ev_kind (events sample_store) = [''handoff'', ''note'', ''handoff'']"
  by code_simp+

section \<open>Properties\<close>

text \<open>
  C2. Checkpoints are invisible (\<open>SCALE-1\<close>, \<open>INV-8\<close>): in every store reached by admissions of the
  lifecycle and by anything else the store does, folding from the newest valid checkpoint is the full
  replay from the default state, on every scope and in every outcome, errors included.
\<close>

theorem store_fold_is_replay:
  assumes "store_laws env L" "store_reach env L P db"
  shows "store_fold env L db scope = replay env L db scope"
  by (rule store_fold_replay [OF store_laws.reach_sound [OF assms]])

theorem store_fold_is_replay_witness:
  "scope_snapshots sample_store \<noteq> [] \<and>
   store_fold sample_env checkpointed_handoff sample_store ''p'' =
     replay sample_env checkpointed_handoff sample_store ''p''"
  using store_fold_is_replay [OF sample_laws sample_reach] sample_facts(1) by auto

text \<open>
  C1. An admission refines the reducer: on a readable scope it is rejected with the tables untouched
  exactly when \<open>decide\<close> rejects; it fails with the tables untouched when the codec refuses an event;
  otherwise it returns the evolved state, every later fold of the scope returns that state, the folds
  of all other scopes are what they were, and only the rows of its events were appended.
\<close>

theorem admit_refines_reducer:
  assumes "store_laws env L" "store_reach env L P db" "store_fold env L db scope = Inr s"
  shows "case lc_decide L s c of
      Inl r \<Rightarrow> admit env L scope c db = (db, Inl (Rejected r))
    | Inr es \<Rightarrow>
        (case encode_records env (event_records L scope es) of
           Inl e \<Rightarrow> admit env L scope c db = (db, Inl e)
         | Inr stored \<Rightarrow>
             (\<exists>db'. admit env L scope c db = (db', Inr (lc_fold L s es)) \<and>
                (\<forall>a. store_fold env L db' a = (if a = scope then Inr (lc_fold L s es) else store_fold env L db a)) \<and>
                events db' = events db @ row_list stored db \<and> command_receipts db' = command_receipts db))"
  by (rule store_laws.admit_refines [OF assms(1) store_laws.reach_sound [OF assms(1,2)] assms(3)])

theorem admit_refines_reducer_witness:
  "\<exists>s db'. admit sample_env checkpointed_handoff ''p'' CommitHandoff sample_store = (db', Inr s) \<and> home s = Target \<and>
     store_fold sample_env checkpointed_handoff db' ''p'' = Inr s \<and>
     store_fold sample_env checkpointed_handoff db' ''q'' =
       store_fold sample_env checkpointed_handoff sample_store ''q''"
proof -
  let ?s = "\<lparr>phase = LogSynced, home = Origin, target_has_log = True, target_has_content = True, sealed = False\<rparr>"
  have fold: "store_fold sample_env checkpointed_handoff sample_store ''p'' = Inr ?s" by code_simp
  show ?thesis
    using admit_refines_reducer [OF sample_laws sample_reach fold, of CommitHandoff]
    by (auto simp: checkpointed_handoff_def encode_payload_def sample_env_def plain_env_def)
qed

text \<open>
  C3. At most once (\<open>INV-19\<close>): after a command was admitted under a key, every later admission under
  that key in that scope, of any command and after any further steps of the store, changes no table
  and returns the current state.
\<close>

theorem admit_key_at_most_once:
  assumes "store_laws env L" "store_reach env L P db"
    "admit_with_key env L scope key c db = (db', Inr s)" "(store_step env L P)\<^sup>*\<^sup>* db' db''"
  shows "admit_with_key env L scope key c' db'' = (db'', store_fold env L db'' scope)"
  by (rule store_laws.sealed_key [OF assms(1) store_laws.reach_sound [OF assms(1,2)] assms(3,4)])

theorem admit_key_at_most_once_witness:
  "let db = fst (admit_with_key sample_env checkpointed_handoff ''p'' ''k'' CommitHandoff sample_store)
   in length (events db) = 4 \<and>
      admit_with_key sample_env checkpointed_handoff ''p'' ''k'' AbortHandoff db =
        (db, store_fold sample_env checkpointed_handoff db ''p'')"
proof -
  let ?r = "admit_with_key sample_env checkpointed_handoff ''p'' ''k'' CommitHandoff sample_store"
  let ?s = "\<lparr>phase = Committed, home = Target, target_has_log = True, target_has_content = True, sealed = True\<rparr>"
  have "snd ?r = Inr ?s" by code_simp
  then have "?r = (fst ?r, Inr ?s)" by (metis prod.collapse)
  moreover have "length (events (fst ?r)) = 4" by code_simp
  ultimately show ?thesis
    using admit_key_at_most_once [OF sample_laws sample_reach, of "''p''" "''k''" CommitHandoff "fst ?r" ?s "fst ?r"]
    by (simp add: Let_def)
qed

text \<open>
  C7. State is the fold of admitted commands: when only admissions write the lifecycle's kind, the
  lifecycle's rows in a scope are the serialised log of a sequence of commands, and the fold is the
  state that sequence drives the reducer to; only a codec that cannot open a row makes it unavailable.
\<close>

theorem stored_state_is_driven:
  assumes "store_laws env L" "store_reach env L (foreign L) db"
  shows "\<exists>cs. rows_hold env L scope (scope_rows db scope) (lc_log L (lc_default L) cs) \<and>
    (store_fold env L db scope = Inr (lc_drive L (lc_default L) cs) \<or>
     codec env \<noteq> None \<and> store_fold env L db scope = Inl unavailable)"
  by (rule store_laws.reach_state [OF assms])

theorem stored_state_is_driven_witness:
  "\<exists>cs. rows_hold sample_env checkpointed_handoff ''p'' (scope_rows sample_store ''p'')
       (lc_log checkpointed_handoff handoff_default cs) \<and>
     store_fold sample_env checkpointed_handoff sample_store ''p'' =
       Inr (lc_drive checkpointed_handoff handoff_default cs)"
  using stored_state_is_driven [OF sample_laws sample_reach, of "''p''"]
  by (auto simp: sample_env_def plain_env_def checkpointed_handoff_def)

end
