(* ===== verification/Store_Commands.thy ===== *)
theory Store_Commands
  imports Store_Admit
begin

text \<open>
  The operational command table of \<open>crates/store/src/lib.rs\<close> (\<open>receive_command\<close>, \<open>claim_command\<close>,
  \<open>set_command_status\<close>, \<open>reconcile_commands\<close>, \<open>admit_materialized\<close>) and the dispatch read basis of
  \<open>crates/store/src/command_dispatch.rs\<close>. A command row is claimed once; a claim under a basis proves
  that the observed scopes have not moved. Wall-clock time and the answers of the process guards are
  the observations an \<open>instant\<close> carries.
\<close>

section \<open>The table\<close>

definition command_statuses :: "string list" where
  "command_statuses = [''received'', ''processing'', ''applied'', ''rejected'', ''expired'']"

definition command_conflicts :: "command_record \<Rightarrow> command_record \<Rightarrow> bool" where
  "command_conflicts r q \<longleftrightarrow>
     cr_command_id r = cr_command_id q \<or>
     cr_scope_id r = cr_scope_id q \<and> cr_idempotency_key r = cr_idempotency_key q"

text \<open>\<open>INSERT OR IGNORE INTO commands\<close> and \<open>INSERT INTO commands\<close>.\<close>

definition insert_or_ignore_command :: "command_record \<Rightarrow> store \<Rightarrow> store" where
  "insert_or_ignore_command row db =
     (if \<exists>r \<in> set (commands db). command_conflicts r row then db
      else db\<lparr>commands := commands db @ [row]\<rparr>)"

definition insert_command :: "command_record \<Rightarrow> store \<Rightarrow> admit_error + store" where
  "insert_command row db =
     (if \<exists>r \<in> set (commands db). command_conflicts r row then Inl (Db ConstraintViolation)
      else Inr (db\<lparr>commands := commands db @ [row]\<rparr>))"

definition command_by_key :: "store \<Rightarrow> string \<Rightarrow> string \<Rightarrow> command_record option" where
  "command_by_key db scope key =
     find (\<lambda>r. cr_scope_id r = scope \<and> cr_idempotency_key r = key) (commands db)"

definition command :: "store \<Rightarrow> string \<Rightarrow> command_record option" where
  "command db command_id = find (\<lambda>r. cr_command_id r = command_id) (commands db)"

text \<open>\<open>UPDATE commands SET status = ? WHERE \<dots>\<close>.\<close>

definition update_status :: "(command_record \<Rightarrow> bool) \<Rightarrow> string \<Rightarrow> store \<Rightarrow> store" where
  "update_status P status db =
     db\<lparr>commands := map (\<lambda>r. if P r then r\<lparr>cr_status := status\<rparr> else r) (commands db)\<rparr>"

definition received_row :: "string \<Rightarrow> string \<Rightarrow> string \<Rightarrow> string \<Rightarrow> command_record" where
  "received_row command_id scope key snapshot =
     \<lparr>cr_command_id = command_id, cr_scope_id = scope, cr_idempotency_key = key,
      cr_status = ''received'', cr_snapshot_json = snapshot\<rparr>"

definition receive_command ::
  "string \<Rightarrow> string \<Rightarrow> string \<Rightarrow> string \<Rightarrow> store \<Rightarrow> store \<times> (admit_error + command_record)" where
  "receive_command command_id scope key snapshot db =
     (let db1 = insert_or_ignore_command (received_row command_id scope key snapshot) db in
      (db1, case command_by_key db1 scope key of
              None \<Rightarrow> Inl (Db QueryReturnedNoRows) | Some r \<Rightarrow> Inr r))"

definition set_command_status :: "string \<Rightarrow> string \<Rightarrow> store \<Rightarrow> store \<times> (admit_error + bool)" where
  "set_command_status command_id status db =
     (if command db command_id = None then (db, Inr False)
      else if status \<notin> set command_statuses then (db, Inl (Db ConstraintViolation))
      else (update_status (\<lambda>r. cr_command_id r = command_id) status db, Inr True))"

definition unfinished :: "command_record \<Rightarrow> bool" where
  "unfinished r \<longleftrightarrow> cr_status r = ''received'' \<or> cr_status r = ''processing''"

definition receipted :: "store \<Rightarrow> command_record \<Rightarrow> bool" where
  "receipted db r \<longleftrightarrow> find_receipt db (cr_scope_id r) (cr_idempotency_key r) \<noteq> None"

definition set_unreceipted_command_failure ::
  "string \<Rightarrow> string \<Rightarrow> store \<Rightarrow> store \<times> (admit_error + bool)" where
  "set_unreceipted_command_failure command_id status db =
     (if status \<noteq> ''rejected'' \<and> status \<noteq> ''expired''
      then (db, Inl (Rejected (Rejection ''command failure requires rejected or expired status'')))
      else let P = (\<lambda>r. cr_command_id r = command_id \<and> unfinished r \<and> \<not> receipted db r) in
        (update_status P status db, Inr (\<exists>r \<in> set (commands db). P r)))"

definition pending_command_matches :: "store \<Rightarrow> string \<Rightarrow> string \<Rightarrow> string \<Rightarrow> string \<Rightarrow> bool" where
  "pending_command_matches db command_id scope key snapshot \<longleftrightarrow>
     (\<exists>r \<in> set (commands db). cr_command_id r = command_id \<and> cr_scope_id r = scope \<and>
        cr_idempotency_key r = key \<and> cr_snapshot_json r = snapshot \<and> cr_status r = ''processing'' \<and>
        \<not> receipted db r)"

section \<open>The dispatch read basis\<close>

record store_path =
  sp_path :: string
  sp_home_product :: "string option"

record dispatch_basis =
  db_path :: store_path
  db_heads :: "(string \<times> int option) list"
  db_deadline :: "nat option"
  db_process_guards :: "nat list"

text \<open>An instant: the clock, and which of the process guards (closures, named by number) answer true.\<close>

record instant =
  it_now :: nat
  it_guard :: "nat \<Rightarrow> bool"

definition check_validity :: "nat option \<Rightarrow> nat list \<Rightarrow> instant \<Rightarrow> admit_error + unit" where
  "check_validity deadline guards i =
     (if (case deadline of None \<Rightarrow> False | Some e \<Rightarrow> e \<le> it_now i)
      then Inl (Rejected (Rejection ''dispatch authorization expired while waiting''))
      else if \<exists>g \<in> set guards. \<not> it_guard i g
      then Inl (Rejected (Rejection ''dispatch authentication is no longer active''))
      else Inr ())"

fun check_heads :: "store \<Rightarrow> (string \<times> int option) list \<Rightarrow> admit_error + unit" where
  "check_heads db [] = Inr ()"
| "check_heads db ((scope, expected) # hs) =
     (if scope_head db scope \<noteq> expected
      then Inl (Rejected (Rejection ''dispatch authorization changed during preparation''))
      else check_heads db hs)"

definition check_dispatch_basis ::
  "store_path \<Rightarrow> instant \<Rightarrow> dispatch_basis \<Rightarrow> store \<Rightarrow> admit_error + unit" where
  "check_dispatch_basis path i basis db =
     and_then (check_validity (db_deadline basis) (db_process_guards basis) i)
       (\<lambda>_. if db_path basis \<noteq> path
            then Inl (Rejected (Rejection ''dispatch authorization came from another store''))
            else check_heads db (db_heads basis))"

text \<open>\<open>read_for_dispatch\<close>: the heads are a \<open>BTreeMap\<close>, so one entry per scope in order.\<close>

definition read_for_dispatch ::
  "store_path \<Rightarrow> string list \<Rightarrow> (store \<Rightarrow> admit_error + 'a) \<Rightarrow> store \<Rightarrow> admit_error + ('a \<times> dispatch_basis)" where
  "read_for_dispatch path scopes read db =
     (if scopes = [] \<or> (\<exists>s \<in> set scopes. blank s)
      then Inl (Rejected (Rejection ''dispatch authorization requires explicit event scopes''))
      else and_then (read db)
        (\<lambda>x. Inr (x, \<lparr>db_path = path,
           db_heads = map (\<lambda>s. (s, scope_head db s)) (sort (remdups scopes)), db_deadline = None,
           db_process_guards = []\<rparr>)))"

definition with_deadline :: "dispatch_basis \<Rightarrow> nat \<Rightarrow> dispatch_basis" where
  "with_deadline basis deadline =
     basis\<lparr>db_deadline := Some (case db_deadline basis of None \<Rightarrow> deadline | Some e \<Rightarrow> min e deadline)\<rparr>"

definition with_process_guard :: "dispatch_basis \<Rightarrow> nat \<Rightarrow> dispatch_basis" where
  "with_process_guard basis g = basis\<lparr>db_process_guards := db_process_guards basis @ [g]\<rparr>"

text \<open>\<open>combine\<close>: overlapping scopes must agree; the earlier deadline holds.\<close>

definition combine :: "dispatch_basis \<Rightarrow> dispatch_basis \<Rightarrow> admit_error + dispatch_basis" where
  "combine a b =
     (if db_path a \<noteq> db_path b \<or>
         (\<exists>(s, h) \<in> set (db_heads b). case map_of (db_heads a) s of None \<Rightarrow> False | Some g \<Rightarrow> g \<noteq> h)
      then Inl (Rejected (Rejection ''resource observations have incompatible dispatch bases''))
      else let c = a\<lparr>db_heads := db_heads a @ filter (\<lambda>(s, h). map_of (db_heads a) s = None) (db_heads b),
                     db_process_guards := db_process_guards a @ db_process_guards b\<rparr> in
        Inr (case db_deadline b of None \<Rightarrow> c | Some e \<Rightarrow> with_deadline c e))"

section \<open>Claiming\<close>

text \<open>\<open>claim_command_with_basis\<close>, checked at its start and again before the commit.\<close>

definition check_basis ::
  "store_path \<Rightarrow> instant \<Rightarrow> dispatch_basis option \<Rightarrow> store \<Rightarrow> admit_error + unit" where
  "check_basis path i basis db =
     (case basis of None \<Rightarrow> Inr () | Some b \<Rightarrow> check_dispatch_basis path i b db)"

definition claim_command_with_basis ::
  "store_path \<Rightarrow> instant \<Rightarrow> instant \<Rightarrow> string \<Rightarrow> string \<Rightarrow> string \<Rightarrow> string \<Rightarrow> dispatch_basis option
     \<Rightarrow> (string \<times> string) list \<Rightarrow> store \<Rightarrow> store \<times> (admit_error + (command_record \<times> bool))" where
  "claim_command_with_basis path i j command_id scope key snapshot basis excluded db =
     in_tx db (and_then (check_basis path i basis db)
       (\<lambda>_. if \<exists>(s, k) \<in> set excluded. command_by_key db s k \<noteq> None
            then Inl (Rejected (Rejection ''legacy command receipt requires explicit resolution''))
            else let db1 = insert_or_ignore_command (received_row command_id scope key snapshot) db in
              case command_by_key db1 scope key of
                None \<Rightarrow> Inl (Db QueryReturnedNoRows)
              | Some r \<Rightarrow>
                  let claimed = (cr_snapshot_json r = snapshot \<and> cr_status r = ''received'');
                      db2 = (if claimed then update_status
                               (\<lambda>q. cr_command_id q = cr_command_id r \<and> cr_status q = ''received'')
                               ''processing'' db1 else db1);
                      r2 = (if claimed then r\<lparr>cr_status := ''processing''\<rparr> else r)
                  in and_then (check_basis path j basis db2) (\<lambda>_. Inr (db2, (r2, claimed)))))"

definition claim_command ::
  "string \<Rightarrow> string \<Rightarrow> string \<Rightarrow> string \<Rightarrow> store \<Rightarrow> store \<times> (admit_error + (command_record \<times> bool))" where
  "claim_command command_id scope key snapshot =
     claim_command_with_basis \<lparr>sp_path = [], sp_home_product = None\<rparr>
       \<lparr>it_now = 0, it_guard = (\<lambda>_. True)\<rparr> \<lparr>it_now = 0, it_guard = (\<lambda>_. True)\<rparr>
       command_id scope key snapshot None []"

text \<open>\<open>reconcile_commands\<close>: settle every unfinished row by its receipt, and count.\<close>

definition settle_row :: "store \<Rightarrow> command_record \<Rightarrow> command_record" where
  "settle_row db r =
     (if unfinished r then r\<lparr>cr_status := (if receipted db r then ''applied'' else ''expired'')\<rparr> else r)"

definition reconcile_commands :: "store \<Rightarrow> store \<times> (nat \<times> nat)" where
  "reconcile_commands db =
     (db\<lparr>commands := map (settle_row db) (commands db)\<rparr>,
      (length (filter (\<lambda>r. unfinished r \<and> receipted db r) (commands db)),
       length (filter (\<lambda>r. unfinished r \<and> \<not> receipted db r) (commands db))))"

section \<open>The materialized command shell\<close>

definition materialized_command_id :: "string \<Rightarrow> string \<Rightarrow> string" where
  "materialized_command_id scope key = ''command:'' @ decimal (length scope) @ '':'' @ scope @ key"

record 's materialized_admission =
  ma_state :: 's
  ma_replayed :: bool

definition claim_refusal :: "string \<Rightarrow> admit_error" where
  "claim_refusal status = Rejected (Rejection
     (if status = ''rejected'' then ''command already rejected; submit with a new key''
      else if status = ''expired'' then ''idempotency key expired; submit with a new key''
      else if status = ''processing'' then ''command is already processing''
      else if status = ''applied'' then ''applied command is missing its durable receipt''
      else ''command could not be claimed''))"

text \<open>
  \<open>admit_materialized\<close> is not one transaction: the claim commits first, then the admission, then the
  status. \<open>snap\<close> is the serialised \<open>{kind, command}\<close> object.
\<close>

definition admit_materialized ::
  "store_env \<Rightarrow> ('s, 'c, 'e) lifecycle \<Rightarrow> ('c \<Rightarrow> string) \<Rightarrow> string \<Rightarrow> string \<Rightarrow> 'c \<Rightarrow> store
     \<Rightarrow> store \<times> (admit_error + 's materialized_admission)" where
  "admit_materialized env L snap scope key c db =
     (let command_id = materialized_command_id scope key in
      case claim_command command_id scope key (snap c) db of
        (db1, Inl e) \<Rightarrow> (db1, Inl e)
      | (db1, Inr (receipt, claimed)) \<Rightarrow>
          if cr_snapshot_json receipt \<noteq> snap c
          then (db1, Inl (Rejected (Rejection ''idempotency key reused with different command'')))
          else if find_receipt db1 scope key \<noteq> None then
            (case store_fold env L db1 scope of
               Inl e \<Rightarrow> (db1, Inl e)
             | Inr state \<Rightarrow>
                 (case set_command_status command_id ''applied'' db1 of
                    (db2, Inl e) \<Rightarrow> (db2, Inl e)
                  | (db2, Inr _) \<Rightarrow> (db2, Inr \<lparr>ma_state = state, ma_replayed = True\<rparr>)))
          else if \<not> claimed then (db1, Inl (claim_refusal (cr_status receipt)))
          else
            (case admit_with_key env L scope key c db1 of
               (db2, Inr state) \<Rightarrow>
                 (case set_command_status command_id ''applied'' db2 of
                    (db3, Inl e) \<Rightarrow> (db3, Inl e)
                  | (db3, Inr _) \<Rightarrow> (db3, Inr \<lparr>ma_state = state, ma_replayed = False\<rparr>))
             | (db2, Inl (Rejected r)) \<Rightarrow>
                 (case set_command_status command_id ''rejected'' db2 of
                    (db3, Inl e) \<Rightarrow> (db3, Inl e)
                  | (db3, Inr _) \<Rightarrow> (db3, Inl (Rejected r)))
             | (db2, Inl e) \<Rightarrow> (fst (set_command_status command_id ''expired'' db2), Inl e)))"

section \<open>The basis\<close>

lemma check_heads_iff: "check_heads db hs = Inr () \<longleftrightarrow> (\<forall>(s, h) \<in> set hs. scope_head db s = h)"
  by (induction hs) auto

text \<open>On increasing logs that extend one another, an unmoved head is an unmoved scope.\<close>

lemma head_unmoved:
  assumes "increasing db" "increasing db'" "events db' = events db @ rows" "scope_head db' s = scope_head db s"
  shows "scope_events db' s = scope_events db s"
proof -
  let ?new = "filter (\<lambda>r. ev_scope r = s) rows"
  have ext: "scope_rows db' s = scope_rows db s @ ?new" using assms(3) by (simp add: scope_rows_def)
  have "?new = []"
  proof (rule ccontr)
    assume new: "?new \<noteq> []"
    then have "scope_head db' s = Some (ev_position (last ?new))"
      using increasing_head [OF assms(2)] ext by simp
    with assms(4) have "scope_head db s = Some (ev_position (last ?new))" by simp
    then obtain r where "r \<in> set (scope_rows db s)" "ev_position r = ev_position (last ?new)"
      using max_of_SomeD by (fastforce simp: scope_head_def)
    moreover have "sorted_wrt (<) (map ev_position (scope_rows db s @ ?new))"
      using assms(2) unfolding increasing_def ext [symmetric] by blast
    then have "ev_position r < ev_position q" if "r \<in> set (scope_rows db s)" "q \<in> set ?new" for r q
      using that by (simp add: sorted_wrt_append)
    ultimately show False using new last_in_set by fastforce
  qed
  with ext assms(1,2) show ?thesis by simp
qed

context store_laws
begin

lemma step_extends:
  assumes "store_step env L P db db'" "increasing db" "checkpoints_sound env L db"
  shows "extends db db'"
  using assms(1)
proof cases
  case (admission scope c)
  then show ?thesis by (cases rule: admit_cases [OF assms(2,3), of scope c]) (auto simp: extends_def)
next
  case (keyed scope key c)
  then show ?thesis by (cases rule: admit_with_key_cases [OF assms(2,3), of scope key c]) (auto simp: extends_def)
qed (auto simp: other_step_def extends_def)

lemma steps_extend:
  assumes "(store_step env L P)\<^sup>*\<^sup>* db db'" "increasing db" "checkpoints_sound env L db"
  shows "extends db db'"
  using assms
proof (induction rule: rtranclp_induct)
  case (step y z)
  then show ?case using steps_sound [OF step(1)] step_extends [OF step(2)] extends_trans by blast
qed simp

end

section \<open>Command rows only move forward\<close>

text \<open>
  Row by row: a command keeps its identity, its first snapshot and its place, and a row that left
  \<open>received\<close> never returns to it. \<open>commands_forward\<close> is that relation between two tables.
\<close>

definition row_forward :: "command_record \<Rightarrow> command_record \<Rightarrow> bool" where
  "row_forward r q \<longleftrightarrow>
     cr_command_id q = cr_command_id r \<and> cr_scope_id q = cr_scope_id r \<and>
     cr_idempotency_key q = cr_idempotency_key r \<and> cr_snapshot_json q = cr_snapshot_json r \<and>
     (cr_status r \<noteq> ''received'' \<longrightarrow> cr_status q \<noteq> ''received'')"

definition commands_forward :: "store \<Rightarrow> store \<Rightarrow> bool" where
  "commands_forward db db' \<longleftrightarrow>
     (\<exists>qs rs. commands db' = qs @ rs \<and> list_all2 row_forward (commands db) qs)"

lemma row_forward_refl [simp]: "row_forward r r"
  by (simp add: row_forward_def)

lemma commands_forward_refl [simp]: "commands_forward db db"
  unfolding commands_forward_def by (intro exI [of _ "commands db"] exI [of _ "[]"]) (simp add: list.rel_refl)

lemma commands_forward_append: "commands db' = commands db @ rs \<Longrightarrow> commands_forward db db'"
  unfolding commands_forward_def by (intro exI [of _ "commands db"] exI [of _ rs]) (simp add: list.rel_refl)

lemma commands_forward_trans:
  assumes "commands_forward a b" "commands_forward b c"
  shows "commands_forward a c"
proof -
  from assms(1) obtain qs rs where b: "commands b = qs @ rs" "list_all2 row_forward (commands a) qs"
    by (auto simp: commands_forward_def)
  from assms(2) b(1) obtain q2 r2 t where c: "commands c = (q2 @ r2) @ t"
    "list_all2 row_forward qs q2" "list_all2 row_forward rs r2"
    by (auto simp: commands_forward_def list_all2_append1)
  have "list_all2 row_forward (commands a) q2"
    by (rule list_all2_trans [OF _ b(2) c(2)]) (auto simp: row_forward_def)
  with c(1) show ?thesis by (auto simp: commands_forward_def)
qed

lemma commands_forward_map:
  "(\<And>r. r \<in> set (commands db) \<Longrightarrow> row_forward r (f r)) \<Longrightarrow> commands db' = map f (commands db) \<Longrightarrow>
     commands_forward db db'"
  unfolding commands_forward_def
  by (intro exI [of _ "map f (commands db)"] exI [of _ "[]"]) (auto simp: list_all2_map2 intro: list.rel_refl_strong)

lemma update_status_forward:
  "status \<noteq> ''received'' \<Longrightarrow> commands_forward db (update_status P status db)"
  by (rule commands_forward_map [where f = "\<lambda>r. if P r then r\<lparr>cr_status := status\<rparr> else r"])
    (auto simp: row_forward_def update_status_def)

lemma insert_or_ignore_forward: "commands_forward db (insert_or_ignore_command row db)"
  by (auto simp: insert_or_ignore_command_def intro: commands_forward_append)

lemma find_forward:
  assumes "list_all2 row_forward rs qs"
  shows "rel_option row_forward
    (find (\<lambda>r. cr_scope_id r = scope \<and> cr_idempotency_key r = key) rs)
    (find (\<lambda>r. cr_scope_id r = scope \<and> cr_idempotency_key r = key) qs)"
  using assms by induction (auto simp: row_forward_def)

lemma find_append: "find P (xs @ ys) = (case find P xs of None \<Rightarrow> find P ys | Some x \<Rightarrow> Some x)"
  by (induction xs) auto

text \<open>What a lookup by key returned once, it returns for ever, moved forward.\<close>

lemma command_by_key_forward:
  assumes "commands_forward db db'" "command_by_key db scope key = Some r"
  obtains q where "command_by_key db' scope key = Some q" "row_forward r q"
proof -
  from assms(1) obtain qs rs where qs: "commands db' = qs @ rs" "list_all2 row_forward (commands db) qs"
    by (auto simp: commands_forward_def)
  from find_forward [OF qs(2), of scope key] assms(2) obtain q where
    "find (\<lambda>r. cr_scope_id r = scope \<and> cr_idempotency_key r = key) qs = Some q" "row_forward r q"
    by (auto simp: command_by_key_def option_rel_Some1)
  with qs(1) that show ?thesis by (simp add: command_by_key_def find_append)
qed

lemma command_by_key_update:
  "command_by_key (update_status P status db) scope key =
     map_option (\<lambda>r. if P r then r\<lparr>cr_status := status\<rparr> else r) (command_by_key db scope key)"
proof -
  have "find Q (map f xs) = map_option f (find Q xs)" if "\<And>r. Q (f r) = Q r"
    for Q and f :: "command_record \<Rightarrow> command_record" and xs
    using that by (induction xs) auto
  then show ?thesis by (simp add: command_by_key_def update_status_def)
qed

lemma update_status_commands:
  "commands (update_status P status db) = map (\<lambda>r. if P r then r\<lparr>cr_status := status\<rparr> else r) (commands db)"
  by (simp add: update_status_def)

lemma update_status_tables [simp]:
  "events (update_status P status db) = events db"
  "command_receipts (update_status P status db) = command_receipts db"
  "scope_snapshots (update_status P status db) = scope_snapshots db"
  "record_command_fact_sets (update_status P status db) = record_command_fact_sets db"
  "record_command_fact_refs (update_status P status db) = record_command_fact_refs db"
  by (simp_all add: update_status_def)

lemma set_command_status_forward:
  "status \<noteq> ''received'' \<Longrightarrow> commands_forward db (fst (set_command_status command_id status db))"
  by (auto simp: set_command_status_def intro: update_status_forward)

lemma claim_forward:
  "commands_forward db (fst (claim_command_with_basis path i j command_id scope key snapshot basis excluded db))"
proof -
  let ?db1 = "insert_or_ignore_command (received_row command_id scope key snapshot) db"
  have "commands_forward db (update_status P ''processing'' ?db1)" for P
    by (rule commands_forward_trans [OF insert_or_ignore_forward update_status_forward]) simp
  then show ?thesis
    using insert_or_ignore_forward [of db]
    by (auto simp: claim_command_with_basis_def in_tx_def and_then_def Let_def split: sum.splits option.splits)
qed

text \<open>A claim: who gets it, and what the table holds afterwards.\<close>

lemma claim_result:
  assumes "claim_command_with_basis path i j command_id scope key snapshot basis excluded db = (db', Inr (r, claimed))"
  shows "command_by_key db' scope key = Some r \<and> (cr_snapshot_json r = snapshot \<longrightarrow> cr_status r \<noteq> ''received'') \<and>
    (claimed \<longrightarrow> cr_snapshot_json r = snapshot \<and> cr_status r = ''processing'') \<and>
    events db' = events db \<and> command_receipts db' = command_receipts db \<and> scope_snapshots db' = scope_snapshots db"
proof -
  let ?db1 = "insert_or_ignore_command (received_row command_id scope key snapshot) db"
  have same: "events ?db1 = events db" "command_receipts ?db1 = command_receipts db" "scope_snapshots ?db1 = scope_snapshots db"
    by (simp_all add: insert_or_ignore_command_def)
  show ?thesis
    using assms same
    by (auto simp: claim_command_with_basis_def in_tx_def and_then_def Let_def command_by_key_update
      split: sum.splits option.splits if_splits)
qed

lemma claim_again:
  assumes "command_by_key db scope key = Some r" "cr_status r \<noteq> ''received'' \<or> cr_snapshot_json r \<noteq> snapshot"
  shows "claim_command command_id scope key snapshot db = (db, Inr (r, False))"
proof -
  have r: "r \<in> set (commands db)" "cr_scope_id r = scope" "cr_idempotency_key r = key"
    using assms(1) by (auto simp: command_by_key_def dest: find_SomeD)
  then have "insert_or_ignore_command (received_row command_id scope key snapshot) db = db"
    by (auto simp: insert_or_ignore_command_def command_conflicts_def received_row_def)
  with assms show ?thesis
    by (auto simp: claim_command_def claim_command_with_basis_def check_basis_def Let_def)
qed

section \<open>Steps of the table\<close>

text \<open>Every operation on the table, except writing the status \<open>received\<close> back by hand, which no
  caller does; operations that leave the table alone are the last case.\<close>

inductive command_step :: "store \<Rightarrow> store \<Rightarrow> bool" where
  receive: "command_step db (fst (receive_command command_id scope key snapshot db))"
| claim: "command_step db (fst (claim_command_with_basis path i j command_id scope key snapshot basis excluded db))"
| status: "status \<noteq> ''received'' \<Longrightarrow> command_step db (fst (set_command_status command_id status db))"
| failure: "command_step db (fst (set_unreceipted_command_failure command_id status db))"
| reconcile: "command_step db (fst (reconcile_commands db))"
| elsewhere: "commands db' = commands db @ rs \<Longrightarrow> command_step db db'"

lemma reconcile_forward: "commands_forward db (fst (reconcile_commands db))"
  by (rule commands_forward_map [where f = "settle_row db"])
    (auto simp: reconcile_commands_def settle_row_def row_forward_def)

lemma command_step_forward: "command_step db db' \<Longrightarrow> commands_forward db db'"
proof (induction rule: command_step.induct)
  case (receive db command_id scope key snapshot)
  show ?case by (simp add: receive_command_def Let_def insert_or_ignore_forward)
next
  case (failure db command_id status)
  show ?case
    using update_status_forward [of status db]
    by (auto simp: set_unreceipted_command_failure_def Let_def)
next
  case (elsewhere db' db rs)
  then show ?case by (rule commands_forward_append)
qed (auto intro: claim_forward set_command_status_forward reconcile_forward)

lemma command_steps_forward: "command_step\<^sup>*\<^sup>* db db' \<Longrightarrow> commands_forward db db'"
  by (induction rule: rtranclp_induct) (auto intro: commands_forward_trans command_step_forward)

section \<open>The shell\<close>

lemma command_by_key_reconcile:
  "command_by_key (fst (reconcile_commands db)) scope key = map_option (settle_row db) (command_by_key db scope key)"
proof -
  have "cr_scope_id (settle_row db r) = cr_scope_id r" "cr_idempotency_key (settle_row db r) = cr_idempotency_key r" for r
    by (simp_all add: settle_row_def)
  then have "find Q (map (settle_row db) xs) = map_option (settle_row db) (find Q xs)"
    if "Q = (\<lambda>r. cr_scope_id r = scope \<and> cr_idempotency_key r = key)" for Q xs
    using that by (induction xs) auto
  then show ?thesis by (simp add: command_by_key_def reconcile_commands_def)
qed

lemma store_fold_cong:
  "events db = events db' \<Longrightarrow> scope_snapshots db = scope_snapshots db' \<Longrightarrow>
     store_fold env L db scope = store_fold env L db' scope"
  by (simp add: store_fold_def snapshot_load_def scope_events_cong [of db db'] cong: option.case_cong)

text \<open>The final status write, and that writing it again changes nothing.\<close>

definition mark_applied :: "string \<Rightarrow> store \<Rightarrow> store" where
  "mark_applied command_id db = update_status (\<lambda>r. cr_command_id r = command_id) ''applied'' db"

lemma set_applied: "set_command_status command_id ''applied'' db = (mark_applied command_id db, Inr (command db command_id \<noteq> None))"
proof (cases "command db command_id")
  case None
  then have "map (\<lambda>r. if cr_command_id r = command_id then r\<lparr>cr_status := ''applied''\<rparr> else r) (commands db) = commands db"
    by (intro map_idI) (auto simp: command_def find_None_iff)
  with None show ?thesis by (simp add: set_command_status_def mark_applied_def update_status_def)
qed (simp add: set_command_status_def command_statuses_def mark_applied_def)

lemma mark_applied_id:
  assumes "\<forall>r \<in> set (commands db). cr_command_id r = command_id \<longrightarrow> cr_status r = ''applied''"
  shows "mark_applied command_id db = db"
proof -
  have "map (\<lambda>r. if cr_command_id r = command_id then r\<lparr>cr_status := ''applied''\<rparr> else r) (commands db) = commands db"
    using assms by (intro map_idI) auto
  then show ?thesis by (simp add: mark_applied_def update_status_def)
qed

lemma mark_applied_rows:
  assumes "r \<in> set (commands (mark_applied command_id db))" "cr_command_id r = command_id"
  shows "cr_status r = ''applied''"
proof -
  from assms(1) obtain q where "r = (if cr_command_id q = command_id then q\<lparr>cr_status := ''applied''\<rparr> else q)"
    unfolding mark_applied_def update_status_commands set_map by blast
  with assms(2) show ?thesis by (cases "cr_command_id q = command_id") simp_all
qed

lemma find_receipt_cong: "command_receipts db = command_receipts db' \<Longrightarrow> find_receipt db scope key = find_receipt db' scope key"
  by (simp add: find_receipt_def)

text \<open>The retry of a receipted command: nothing to do but read.\<close>

lemma materialized_replay:
  assumes "command_by_key db scope key = Some r" "cr_snapshot_json r = snap c" "cr_status r \<noteq> ''received''"
    "find_receipt db scope key \<noteq> None" "store_fold env L db scope = Inr s"
    "\<forall>q \<in> set (commands db). cr_command_id q = materialized_command_id scope key \<longrightarrow> cr_status q = ''applied''"
  shows "admit_materialized env L snap scope key c db = (db, Inr \<lparr>ma_state = s, ma_replayed = True\<rparr>)"
  using assms claim_again [OF assms(1), of "snap c" "materialized_command_id scope key"]
    mark_applied_id [OF assms(6)]
  by (auto simp: admit_materialized_def Let_def set_applied)

lemma materialized_conflict:
  assumes "command_by_key db scope key = Some r" "cr_snapshot_json r \<noteq> snap c"
  shows "admit_materialized env L snap scope key c db =
    (db, Inl (Rejected (Rejection ''idempotency key reused with different command'')))"
  using assms claim_again [OF assms(1), of "snap c" "materialized_command_id scope key"]
  by (simp add: admit_materialized_def Let_def)

lemma materialized_expired:
  assumes "command_by_key db scope key = Some r" "cr_snapshot_json r = snap c" "cr_status r \<noteq> ''received''"
    "find_receipt db scope key = None"
  shows "admit_materialized env L snap scope key c db = (db, Inl (claim_refusal (cr_status r)))"
  using assms claim_again [OF assms(1), of "snap c" "materialized_command_id scope key"]
  by (simp add: admit_materialized_def Let_def)

text \<open>What an accepted command leaves behind.\<close>

lemma materialized_settled:
  assumes "command_by_key db scope key = Some r" "cr_snapshot_json r = snap c" "cr_status r \<noteq> ''received''"
    "find_receipt db scope key \<noteq> None" "store_fold env L db scope = Inr s"
    "db' = mark_applied (materialized_command_id scope key) db"
  shows "admit_materialized env L snap scope key c db' = (db', Inr \<lparr>ma_state = s, ma_replayed = True\<rparr>) \<and>
    (snap c' \<noteq> snap c \<longrightarrow> admit_materialized env L snap scope key c' db' =
      (db', Inl (Rejected (Rejection ''idempotency key reused with different command''))))"
proof -
  have q: "\<exists>q. command_by_key db' scope key = Some q \<and> cr_snapshot_json q = snap c \<and> cr_status q \<noteq> ''received''"
    using assms(1-3) by (auto simp: assms(6) mark_applied_def command_by_key_update)
  have "find_receipt db' scope key \<noteq> None" "store_fold env L db' scope = Inr s"
    using assms(4,5) store_fold_cong [of db' db env L scope] find_receipt_cong [of db' db scope key]
    by (simp_all add: assms(6) mark_applied_def)
  with q materialized_replay [of db' scope key _ snap c env L s] materialized_conflict [of db' scope key _ snap c' env L]
    mark_applied_rows [of _ "materialized_command_id scope key" db] assms(6)
  show ?thesis by metis
qed

context store_laws
begin

lemma materialized_retry:
  assumes "increasing db" "checkpoints_sound env L db" "admit_materialized env L snap scope key c db = (db', Inr m)"
  shows "admit_materialized env L snap scope key c db' = (db', Inr \<lparr>ma_state = ma_state m, ma_replayed = True\<rparr>) \<and>
    (snap c' \<noteq> snap c \<longrightarrow> admit_materialized env L snap scope key c' db' =
      (db', Inl (Rejected (Rejection ''idempotency key reused with different command''))))"
proof -
  let ?id = "materialized_command_id scope key"
  obtain db1 r claimed where claim: "claim_command ?id scope key (snap c) db = (db1, Inr (r, claimed))"
    using assms(3) by (auto simp: admit_materialized_def Let_def split: prod.splits sum.splits)
  note row = claim_result [OF claim [unfolded claim_command_def]]
  have sound1: "increasing db1" "checkpoints_sound env L db1"
    using assms(1,2) row increasing_cong [of db1 db] checkpoints_sound_cong [of db1 db env L] by auto
  have snap: "cr_snapshot_json r = snap c"
    using assms(3) claim by (auto simp: admit_materialized_def Let_def split: if_splits)
  show ?thesis
  proof (cases "find_receipt db1 scope key")
    case (Some p)
    with assms(3) claim snap obtain s where "store_fold env L db1 scope = Inr s" "db' = mark_applied ?id db1" "ma_state m = s"
      by (auto simp: admit_materialized_def Let_def set_applied split: sum.splits)
    with Some snap row show ?thesis by (intro materialized_settled [of db1 _ _ r]) auto
  next
    case None
    with assms(3) claim snap obtain db2 s where s: "admit_with_key env L scope key c db1 = (db2, Inr s)"
      "db' = mark_applied ?id db2" "ma_state m = s"
      by (auto simp: admit_materialized_def Let_def set_applied split: if_splits prod.splits sum.splits admit_error.splits)
    from sound1 have "commands db2 = commands db1 \<and> find_receipt db2 scope key \<noteq> None \<and> store_fold env L db2 scope = Inr s"
      by (cases rule: admit_with_key_cases [of db1 scope key c])
        (use None s(1) in \<open>auto simp: find_receipt_iff other_tables_def\<close>)
    with s snap row show ?thesis
      by (intro materialized_settled [of db2 _ _ r]) (auto simp: command_by_key_def)
  qed
qed

text \<open>A crash between the three commits of the shell, repaired by \<open>reconcile_commands\<close> at start-up.\<close>

lemma crash_after_claim:
  assumes "claim_command (materialized_command_id scope key) scope key (snap c) db = (db1, Inr (r, True))"
    "find_receipt db scope key = None" "db2 = fst (reconcile_commands db1)"
  shows "admit_materialized env L snap scope key c db2 = (db2, Inl (claim_refusal ''expired''))"
proof -
  note row = claim_result [OF assms(1) [unfolded claim_command_def]]
  have at: "cr_scope_id r = scope" "cr_idempotency_key r = key"
    using row by (auto simp: command_by_key_def dest: find_SomeD)
  have none: "find_receipt db1 scope key = None" "find_receipt db2 scope key = None"
    using assms(2,3) row by (auto simp: find_receipt_def reconcile_commands_def)
  have "command_by_key db2 scope key = Some (r\<lparr>cr_status := ''expired''\<rparr>)"
    using row at none by (simp add: assms(3) command_by_key_reconcile settle_row_def unfinished_def receipted_def)
  from materialized_expired [OF this, of snap c env L] row none(2) show ?thesis by simp
qed

lemma crash_after_admission:
  assumes "increasing db" "checkpoints_sound env L db"
    "claim_command (materialized_command_id scope key) scope key (snap c) db = (db1, Inr (r, True))"
    "find_receipt db scope key = None"
    "admit_with_key env L scope key c db1 = (db2, Inr s)" "db3 = fst (reconcile_commands db2)"
  shows "\<exists>db4. admit_materialized env L snap scope key c db3 = (db4, Inr \<lparr>ma_state = s, ma_replayed = True\<rparr>) \<and>
    events db4 = events db2 \<and> (\<exists>q. command_by_key db3 scope key = Some q \<and> cr_status q = ''applied'')"
proof -
  note row = claim_result [OF assms(3) [unfolded claim_command_def]]
  have at: "cr_scope_id r = scope" "cr_idempotency_key r = key"
    using row by (auto simp: command_by_key_def dest: find_SomeD)
  have fresh: "find_receipt db1 scope key = None" using assms(4) row find_receipt_cong [of db1 db] by simp
  have "increasing db1" "checkpoints_sound env L db1"
    using assms(1,2) row increasing_cong [of db1 db] checkpoints_sound_cong [of db1 db env L] by auto
  then have "commands db2 = commands db1 \<and> find_receipt db2 scope key \<noteq> None \<and> store_fold env L db2 scope = Inr s"
    by (cases rule: admit_with_key_cases [of db1 scope key c])
      (use fresh assms(5) in \<open>auto simp: find_receipt_iff other_tables_def\<close>)
  then have db2: "commands db2 = commands db1" "find_receipt db2 scope key \<noteq> None" "store_fold env L db2 scope = Inr s"
    by auto
  let ?q = "r\<lparr>cr_status := ''applied''\<rparr>"
  have q: "command_by_key db3 scope key = Some ?q"
    using row at db2(1,2) command_by_key_reconcile [of db2 scope key]
    by (simp add: assms(6) command_by_key_def settle_row_def unfinished_def receipted_def)
  have db3: "find_receipt db3 scope key \<noteq> None" "store_fold env L db3 scope = Inr s" "events db3 = events db2"
    using db2 store_fold_cong [of db3 db2 env L scope] find_receipt_cong [of db3 db2]
    by (simp_all add: assms(6) reconcile_commands_def)
  have "admit_materialized env L snap scope key c db3 =
      (mark_applied (materialized_command_id scope key) db3, Inr \<lparr>ma_state = s, ma_replayed = True\<rparr>)"
    using claim_again [OF q, of "snap c" "materialized_command_id scope key"] row db3
    by (simp add: admit_materialized_def Let_def set_applied)
  with q db3(3) show ?thesis by (simp add: mark_applied_def)
qed

end

text \<open>
  A dispatch basis is current standing: when the check of a basis captured earlier succeeds, in any
  later store, it was captured from this very store path, it has not expired, all its process guards
  still answer, and not one event was appended to any scope it observed, so every read of those scopes
  answers what it answered at capture.
\<close>

theorem dispatch_basis_current:
  assumes "store_laws env L" "store_reach env L P db" "(store_step env L P)\<^sup>*\<^sup>* db db'"
    and "read_for_dispatch path scopes read db = Inr (x, basis)"
    and "check_dispatch_basis path' i (with_process_guard (with_deadline basis deadline) g) db' = Inr ()"
  shows "path' = path \<and> it_now i < deadline \<and> it_guard i g \<and>
    (\<forall>s \<in> set scopes. scope_events db' s = scope_events db s)"
proof -
  note sound = store_laws.reach_sound [OF assms(1,2)]
  have increasing': "increasing db'" using store_laws.steps_sound [OF assms(1,3) sound] by blast
  obtain rows where rows: "events db' = events db @ rows"
    using store_laws.steps_extend [OF assms(1,3) sound] by (auto simp: extends_def)
  have basis: "basis = \<lparr>db_path = path, db_heads = map (\<lambda>s. (s, scope_head db s)) (sort (remdups scopes)),
      db_deadline = None, db_process_guards = []\<rparr>"
    using assms(4) by (auto simp: read_for_dispatch_def and_then_Inr split: if_splits)
  then have "path' = path" "it_now i < deadline" "it_guard i g" "\<forall>s \<in> set scopes. scope_head db' s = scope_head db s"
    using assms(5)
    by (auto simp: check_dispatch_basis_def with_process_guard_def with_deadline_def check_validity_def
      and_then_Inr check_heads_iff split: if_splits)
  with head_unmoved [OF sound(1) increasing' rows] show ?thesis by blast
qed

theorem dispatch_basis_current_witness:
  "let db' = fst (admit sample_env checkpointed_handoff ''q'' OfferHandoff sample_store)
   in events db' \<noteq> events sample_store \<and> scope_events db' ''p'' = scope_events sample_store ''p''"
proof -
  let ?path = "\<lparr>sp_path = ''a.db'', sp_home_product = None\<rparr>"
  let ?basis = "\<lparr>db_path = ?path, db_heads = [(''p'', Some 2)], db_deadline = None, db_process_guards = []\<rparr>"
  let ?i = "\<lparr>it_now = 7, it_guard = (\<lambda>g. g = 1)\<rparr>"
  let ?db = "fst (admit sample_env checkpointed_handoff ''q'' OfferHandoff sample_store)"
  have step: "(store_step sample_env checkpointed_handoff (foreign checkpointed_handoff))\<^sup>*\<^sup>* sample_store ?db"
    by (rule r_into_rtranclp) (rule store_step.admission)
  have read: "read_for_dispatch ?path [''p''] (\<lambda>_. Inr ()) sample_store = Inr ((), ?basis)" by code_simp
  have check: "check_dispatch_basis ?path ?i (with_process_guard (with_deadline ?basis 100) 1) ?db = Inr ()"
    by code_simp
  have "length (events ?db) = 4" "length (events sample_store) = 3" by code_simp+
  then have moved: "events ?db \<noteq> events sample_store" by auto
  have "scope_events ?db ''p'' = scope_events sample_store ''p''"
    using dispatch_basis_current [OF sample_laws sample_reach step read check] by simp
  with moved show ?thesis unfolding Let_def by (rule conjI)
qed



text \<open>
  The command shell is exactly-once: once a materialized command was accepted, submitting it again
  under its key changes no table and returns the same state marked as a replay, and submitting any
  command with another snapshot under that key is refused and changes no table.
\<close>

theorem materialized_exactly_once:
  assumes "store_laws env L" "store_reach env L P db"
    "admit_materialized env L snap scope key c db = (db', Inr m)"
  shows "admit_materialized env L snap scope key c db' = (db', Inr \<lparr>ma_state = ma_state m, ma_replayed = True\<rparr>) \<and>
    (snap c' \<noteq> snap c \<longrightarrow> admit_materialized env L snap scope key c' db' =
      (db', Inl (Rejected (Rejection ''idempotency key reused with different command''))))"
  by (rule store_laws.materialized_retry [OF assms(1) store_laws.reach_sound [OF assms(1,2)] assms(3)])

definition command_name :: "handoff_command \<Rightarrow> string" where
  "command_name c = (case c of OfferHandoff \<Rightarrow> ''offer'' | SyncLog \<Rightarrow> ''sync''
     | CommitHandoff \<Rightarrow> ''commit'' | AbortHandoff \<Rightarrow> ''abort'')"

definition committed_store :: store where
  "committed_store = fst (admit_materialized sample_env checkpointed_handoff command_name ''p'' ''k''
     CommitHandoff sample_store)"

theorem materialized_exactly_once_witness:
  "length (events committed_store) = 4 \<and>
   admit_materialized sample_env checkpointed_handoff command_name ''p'' ''k'' AbortHandoff committed_store =
     (committed_store, Inl (Rejected (Rejection ''idempotency key reused with different command'')))"
proof -
  let ?r = "admit_materialized sample_env checkpointed_handoff command_name ''p'' ''k'' CommitHandoff sample_store"
  let ?m = "\<lparr>ma_state = \<lparr>phase = Committed, home = Target, target_has_log = True,
    target_has_content = True, sealed = True\<rparr>, ma_replayed = False\<rparr>"
  have "snd ?r = Inr ?m" by code_simp
  then have r: "?r = (committed_store, Inr ?m)" unfolding committed_store_def by (metis prod.collapse)
  have "length (events committed_store) = 4" by code_simp
  moreover have "command_name AbortHandoff \<noteq> command_name CommitHandoff" by (simp add: command_name_def)
  ultimately show ?thesis
    using materialized_exactly_once [OF sample_laws sample_reach r, of AbortHandoff] by blast
qed

text \<open>
  C35. A crash inside the shell is resolved by start-up recovery: a command whose admission had committed
  is marked applied and its retry returns the admitted state without appending; a command that was
  claimed and not admitted is expired, its retry is refused, and the refusal changes no table.
\<close>

theorem materialized_crash_recovery:
  assumes "store_laws env L" "store_reach env L P db"
    "claim_command (materialized_command_id scope key) scope key (snap c) db = (db1, Inr (r, True))"
    "find_receipt db scope key = None"
  shows "(let db2 = fst (reconcile_commands db1) in
      admit_materialized env L snap scope key c db2 = (db2, Inl (claim_refusal ''expired''))) \<and>
    (\<forall>db2 s. admit_with_key env L scope key c db1 = (db2, Inr s) \<longrightarrow>
      (let db3 = fst (reconcile_commands db2) in
       \<exists>db4. admit_materialized env L snap scope key c db3 = (db4, Inr \<lparr>ma_state = s, ma_replayed = True\<rparr>) \<and>
         events db4 = events db2 \<and> (\<exists>q. command_by_key db3 scope key = Some q \<and> cr_status q = ''applied'')))"
  unfolding Let_def
  using store_laws.crash_after_claim [where snap = snap and c = c, OF assms(1,3,4)]
    store_laws.crash_after_admission [where snap = snap and c = c,
      OF assms(1) store_laws.reach_sound [OF assms(1,2)] assms(3,4)] by blast

theorem materialized_crash_recovery_witness:
  "let db1 = fst (claim_command (materialized_command_id ''p'' ''k'') ''p'' ''k'' (command_name CommitHandoff) sample_store);
       db2 = fst (reconcile_commands db1)
   in admit_materialized sample_env checkpointed_handoff command_name ''p'' ''k'' CommitHandoff db2 =
        (db2, Inl (claim_refusal ''expired''))"
proof -
  let ?claim = "claim_command (materialized_command_id ''p'' ''k'') ''p'' ''k'' (command_name CommitHandoff) sample_store"
  have "\<exists>r. snd ?claim = Inr (r, True)"
    by (rule exI [of _ "\<lparr>cr_command_id = ''command:1:pk'', cr_scope_id = ''p'', cr_idempotency_key = ''k'',
      cr_status = ''processing'', cr_snapshot_json = ''commit''\<rparr>"]) code_simp
  then obtain r where "?claim = (fst ?claim, Inr (r, True))" by (metis prod.collapse)
  moreover have "find_receipt sample_store ''p'' ''k'' = None" by code_simp
  ultimately show ?thesis
    using materialized_crash_recovery [OF sample_laws sample_reach, where snap = command_name] unfolding Let_def by blast
qed

end
