(* ===== verification/Store_Facts.thy ===== *)
theory Store_Facts
  imports Store_Commands
begin

text \<open>
  Record commands: \<open>admit_record_facts\<close> and its variants, \<open>committed_record_snapshot\<close> and
  \<open>committed_record_facts\<close> of \<open>crates/store/src/lib.rs\<close>, with \<open>encode_facts\<close> and \<open>validate_snapshot\<close> of
  \<open>crates/store/src/record_admission.rs\<close>. A caller-keyed command appends facts in any scopes, an
  optional hash-chain link and its receipt in one transaction, and a later read of the command returns
  exactly the facts it appended.
\<close>

section \<open>Facts and their provenance\<close>

text \<open>\<open>CommandRecordFact\<close>: scope, kind and payload.\<close>

type_synonym command_record_fact = "string \<times> string \<times> string"

record chained_record_fact =
  ch_scope_id :: string
  ch_kind :: string
  ch_link :: "string option \<Rightarrow> string"

record record_command_claim =
  rk_key :: string
  rk_snapshot :: string

record materialized_record_admission =
  mr_positions :: "int list"
  mr_replayed :: bool
  mr_chained_payload :: "string option"

abbreviation refused :: "string \<Rightarrow> admit_error + 'a" where
  "refused why \<equiv> Inl (Rejected (Rejection why))"

definition record_command_id :: "string \<Rightarrow> string \<Rightarrow> string" where
  "record_command_id scope key = ''record-command:'' @ decimal (length scope) @ '':'' @ scope @ key"

definition encode_facts ::
  "store_env \<Rightarrow> command_record_fact list \<Rightarrow> admit_error + command_record_fact list" where
  "encode_facts env facts = encode_records env facts"

text \<open>The two provenance tables, with their keys and checks.\<close>

definition insert_fact_ref :: "fact_ref_row \<Rightarrow> store \<Rightarrow> admit_error + store" where
  "insert_fact_ref row db =
     (if fr_index row < 0 \<or>
         (\<exists>r \<in> set (record_command_fact_refs db).
            fr_scope r = fr_scope row \<and> fr_key r = fr_key row \<and> fr_index r = fr_index row \<or>
            fr_event_scope r = fr_event_scope row \<and> fr_event_position r = fr_event_position row)
      then Inl (Db ConstraintViolation)
      else Inr (db\<lparr>record_command_fact_refs := record_command_fact_refs db @ [row]\<rparr>))"

definition insert_fact_set :: "fact_set_row \<Rightarrow> store \<Rightarrow> admit_error + store" where
  "insert_fact_set row db =
     (if fs_count row < 0 \<or>
         (\<exists>r \<in> set (record_command_fact_sets db). fs_scope r = fs_scope row \<and> fs_key r = fs_key row)
      then Inl (Db ConstraintViolation)
      else Inr (db\<lparr>record_command_fact_sets := record_command_fact_sets db @ [row]\<rparr>))"

section \<open>Admission\<close>

text \<open>The loop over the encoded facts: append, then record which event it became.\<close>

fun tx_append_facts ::
  "string \<Rightarrow> string \<Rightarrow> int \<Rightarrow> command_record_fact list \<Rightarrow> store \<Rightarrow> admit_error + (store \<times> int list)" where
  "tx_append_facts scope key index [] db = Inr (db, [])"
| "tx_append_facts scope key index ((fact_scope, kind, stored) # facts) db =
     and_then (tx_append fact_scope kind stored db)
       (\<lambda>(db1, position). and_then
         (insert_fact_ref \<lparr>fr_scope = scope, fr_key = key, fr_index = index,
            fr_event_scope = fact_scope, fr_event_position = position\<rparr> db1)
       (\<lambda>db2. and_then (tx_append_facts scope key (index + 1) facts db2)
       (\<lambda>(db3, positions). Inr (db3, position # positions))))"

text \<open>The chained fact, linked to the head this transaction sees.\<close>

definition tx_append_chained ::
  "store_env \<Rightarrow> string \<Rightarrow> string \<Rightarrow> int \<Rightarrow> chained_record_fact option \<Rightarrow> store
     \<Rightarrow> admit_error + (store \<times> int list \<times> string option)" where
  "tx_append_chained env scope key index chained db =
     (case chained of
        None \<Rightarrow> Inr (db, [], None)
      | Some ch \<Rightarrow>
          let payload = ch_link ch (tx_chain_head env db (ch_scope_id ch) (ch_kind ch)) in
          and_then (encode_payload env (ch_scope_id ch) (ch_kind ch) payload)
            (\<lambda>encoded. and_then
              (tx_append_facts scope key index [(ch_scope_id ch, ch_kind ch, encoded)] db)
            (\<lambda>(db1, positions). Inr (db1, positions, Some payload))))"

text \<open>The additional claims: checked against the table, then written with the receipt.\<close>

fun check_claims ::
  "(string \<Rightarrow> string) \<Rightarrow> string \<Rightarrow> bool \<Rightarrow> record_command_claim list \<Rightarrow> store \<Rightarrow> admit_error + unit" where
  "check_claims claim_json scope replayed [] db = Inr ()"
| "check_claims claim_json scope replayed (c # cs) db =
     (case command_by_key db scope (rk_key c) of
        Some r \<Rightarrow>
          if cr_snapshot_json r \<noteq> claim_json (rk_snapshot c) \<or> \<not> replayed
          then refused ''additional command identity is already claimed''
          else if find_receipt db scope (rk_key c) = None
          then refused ''additional command claim has no receipt''
          else check_claims claim_json scope replayed cs db
      | None \<Rightarrow>
          if replayed then refused ''original receipt does not own additional command claim''
          else check_claims claim_json scope replayed cs db)"

fun insert_claims ::
  "(string \<Rightarrow> string) \<Rightarrow> string \<Rightarrow> int \<Rightarrow> record_command_claim list \<Rightarrow> store \<Rightarrow> admit_error + store" where
  "insert_claims claim_json scope applied_at [] db = Inr db"
| "insert_claims claim_json scope applied_at (c # cs) db =
     and_then (insert_command \<lparr>cr_command_id = record_command_id scope (rk_key c), cr_scope_id = scope,
                 cr_idempotency_key = rk_key c, cr_status = ''applied'',
                 cr_snapshot_json = claim_json (rk_snapshot c)\<rparr> db)
       (\<lambda>db1. and_then (insert_receipt scope (rk_key c) applied_at db1)
       (\<lambda>db2. insert_claims claim_json scope applied_at cs db2))"

definition claims_valid :: "string \<Rightarrow> record_command_claim list \<Rightarrow> bool" where
  "claims_valid key claims \<longleftrightarrow>
     length claims \<le> 16 \<and> (\<forall>c \<in> set claims. rk_key c \<noteq> [] \<and> rk_key c \<noteq> key) \<and> distinct (map rk_key claims)"

definition record_scope_head :: "store \<Rightarrow> string \<Rightarrow> int" where
  "record_scope_head db scope = (case scope_head db scope of None \<Rightarrow> -1 | Some p \<Rightarrow> p)"

text \<open>
  \<open>admit_record_facts_internal\<close>. \<open>claim_json\<close> serialises the claim tuple of this request. The facts
  are encoded before the transaction; from there every error rolls everything back.
\<close>

definition record_command_effects ::
  "store_env \<Rightarrow> (string \<Rightarrow> string) \<Rightarrow> string \<Rightarrow> string \<Rightarrow> command_record_fact list \<Rightarrow> chained_record_fact option
     \<Rightarrow> record_command_claim list \<Rightarrow> string \<Rightarrow> store \<Rightarrow> admit_error + (store \<times> materialized_record_admission)" where
  "record_command_effects env claim_json scope key stored chained claims command_id db =
     and_then (tx_append_facts scope key 0 stored
         (update_status (\<lambda>r. cr_command_id r = command_id \<and> cr_status r = ''received'') ''processing'' db))
       (\<lambda>(db1, ps). and_then (tx_append_chained env scope key (int (length ps)) chained db1)
       (\<lambda>(db2, qs, chained_payload).
          let positions = ps @ qs; applied_at = (case positions of [] \<Rightarrow> 0 | p # _ \<Rightarrow> p) in
          and_then (insert_fact_set \<lparr>fs_scope = scope, fs_key = key, fs_count = int (length positions)\<rparr> db2)
       (\<lambda>db3. and_then (insert_receipt scope key applied_at db3)
       (\<lambda>db4. and_then (insert_claims claim_json scope applied_at claims
                 (update_status (\<lambda>r. cr_command_id r = command_id) ''applied'' db4))
       (\<lambda>db5. Inr (db5, \<lparr>mr_positions = positions, mr_replayed = False,
                mr_chained_payload = chained_payload\<rparr>))))))"

definition admit_record_facts_internal ::
  "store_env \<Rightarrow> (string \<Rightarrow> string) \<Rightarrow> string \<Rightarrow> string \<Rightarrow> string \<Rightarrow> command_record_fact list
     \<Rightarrow> chained_record_fact option \<Rightarrow> record_command_claim list \<Rightarrow> (string \<times> int) option \<Rightarrow> store
     \<Rightarrow> store \<times> (admit_error + materialized_record_admission)" where
  "admit_record_facts_internal env claim_json scope key snapshot facts chained claims expected_head db =
     in_tx db
       (if \<not> claims_valid key claims then refused ''invalid additional command claims''
        else and_then (encode_facts env facts) (\<lambda>stored.
          let db1 = insert_or_ignore_command (received_row (record_command_id scope key) scope key snapshot) db in
          case command_by_key db1 scope key of
            None \<Rightarrow> Inl (Db QueryReturnedNoRows)
          | Some r \<Rightarrow>
              if cr_snapshot_json r \<noteq> snapshot then refused ''idempotency key reused with different command''
              else let replayed = (find_receipt db1 scope key \<noteq> None) in
                and_then (check_claims claim_json scope replayed claims db1) (\<lambda>_.
                if replayed then
                  Inr (update_status (\<lambda>q. cr_command_id q = cr_command_id r) ''applied'' db1,
                       \<lparr>mr_positions = [], mr_replayed = True, mr_chained_payload = None\<rparr>)
                else if cr_status r \<noteq> ''received'' then Inl (claim_refusal (cr_status r))
                else if (case expected_head of None \<Rightarrow> False | Some (s, p) \<Rightarrow> record_scope_head db1 s \<noteq> p)
                then refused ''scope head changed before record admission''
                else record_command_effects env claim_json scope key stored chained claims (cr_command_id r) db1)))"

text \<open>\<open>admit_record_facts\<close>, \<open>admit_record_facts_chained\<close> and the \<open>at_scope_head\<close> variants.\<close>

definition admit_record_facts_chained ::
  "store_env \<Rightarrow> (string \<Rightarrow> string) \<Rightarrow> string \<Rightarrow> string \<Rightarrow> string \<Rightarrow> command_record_fact list
     \<Rightarrow> chained_record_fact option \<Rightarrow> store \<Rightarrow> store \<times> (admit_error + materialized_record_admission)" where
  "admit_record_facts_chained env claim_json scope key snapshot facts chained =
     admit_record_facts_internal env claim_json scope key snapshot facts chained [] None"

definition admit_record_facts_at_scope_head ::
  "store_env \<Rightarrow> (string \<Rightarrow> string) \<Rightarrow> string \<Rightarrow> string \<Rightarrow> string \<Rightarrow> command_record_fact list
     \<Rightarrow> string \<Rightarrow> int \<Rightarrow> store \<Rightarrow> store \<times> (admit_error + materialized_record_admission)" where
  "admit_record_facts_at_scope_head env claim_json scope key snapshot facts expected_scope expected_position =
     admit_record_facts_internal env claim_json scope key snapshot facts None []
       (Some (expected_scope, expected_position))"

section \<open>Reading a committed command\<close>

definition validate_snapshot ::
  "string \<Rightarrow> string \<Rightarrow> string option \<Rightarrow> string option \<Rightarrow> admit_error + string" where
  "validate_snapshot scope key cid snapshot =
     (if cid \<noteq> Some (record_command_id scope key)
      then refused ''record receipt has no matching original command''
      else case snapshot of
             None \<Rightarrow> refused ''record receipt has no matching original command''
           | Some s \<Rightarrow> Inr s)"

definition committed_record_snapshot :: "store \<Rightarrow> string \<Rightarrow> string \<Rightarrow> admit_error + string option" where
  "committed_record_snapshot db scope key =
     (if find_receipt db scope key = None then Inr None
      else let r = command_by_key db scope key in
        and_then (validate_snapshot scope key (map_option cr_command_id r) (map_option cr_snapshot_json r))
          (\<lambda>s. Inr (Some s)))"

definition inconsistent :: admit_error where
  "inconsistent = Rejected (Rejection ''committed command fact provenance is missing or inconsistent'')"

fun collect_facts ::
  "store_env \<Rightarrow> store \<Rightarrow> int \<Rightarrow> fact_ref_row list \<Rightarrow> admit_error + command_record_fact list" where
  "collect_facts env db index [] = Inr []"
| "collect_facts env db index (f # fs) =
     (if fr_index f \<noteq> index then Inl inconsistent
      else case find (\<lambda>r. ev_scope r = fr_event_scope f \<and> ev_position r = fr_event_position f) (events db) of
             None \<Rightarrow> Inl inconsistent
           | Some r \<Rightarrow>
               (case decode_payload env (fr_event_scope f) (ev_kind r) (ev_payload r) of
                  None \<Rightarrow> Inl (Codec ''committed command contains an unavailable fact'')
                | Some plain \<Rightarrow>
                    and_then (collect_facts env db (index + 1) fs)
                      (\<lambda>facts. Inr ((fr_event_scope f, ev_kind r, plain) # facts))))"

definition committed_record_facts ::
  "store_env \<Rightarrow> store \<Rightarrow> string \<Rightarrow> string \<Rightarrow> admit_error + command_record_fact list option" where
  "committed_record_facts env db scope key =
     and_then (committed_record_snapshot db scope key) (\<lambda>snapshot.
       case snapshot of
         None \<Rightarrow> Inr None
       | Some _ \<Rightarrow>
           (case find (\<lambda>r. fs_scope r = scope \<and> fs_key r = key) (record_command_fact_sets db) of
              None \<Rightarrow> Inl inconsistent
            | Some set_row \<Rightarrow>
                and_then (collect_facts env db 0
                    (sort_key fr_index (filter (\<lambda>r. fr_scope r = scope \<and> fr_key r = key)
                       (record_command_fact_refs db))))
                  (\<lambda>facts. if int (length facts) \<noteq> fs_count set_row then Inl inconsistent
                          else Inr (Some facts))))"

section \<open>What an admission writes\<close>

fun fact_refs :: "string \<Rightarrow> string \<Rightarrow> int \<Rightarrow> event_row list \<Rightarrow> fact_ref_row list" where
  "fact_refs scope key index [] = []"
| "fact_refs scope key index (r # rs) =
     \<lparr>fr_scope = scope, fr_key = key, fr_index = index, fr_event_scope = ev_scope r,
      fr_event_position = ev_position r\<rparr> # fact_refs scope key (index + 1) rs"

lemma fact_refs_append:
  "fact_refs scope key index (rs @ qs) = fact_refs scope key index rs @ fact_refs scope key (index + int (length rs)) qs"
  by (induction rs arbitrary: index) (simp_all add: algebra_simps)

lemma length_fact_refs [simp]: "length (fact_refs scope key index rs) = length rs"
  by (induction rs arbitrary: index) simp_all

lemma fact_refs_own: "f \<in> set (fact_refs scope key index rs) \<Longrightarrow> fr_scope f = scope \<and> fr_key f = key"
  by (induction rs arbitrary: index) auto

lemma fact_refs_nth: "i < length rs \<Longrightarrow> fr_index (fact_refs scope key index rs ! i) = index + int i"
  by (induction rs arbitrary: index i) (auto simp: nth_Cons split: nat.splits)

lemma fact_refs_sorted: "sorted (map fr_index (fact_refs scope key index rs))"
  by (simp add: sorted_iff_nth_mono fact_refs_nth)

text \<open>Rows depend on the log alone.\<close>

lemma row_list_cong: "events db = events db' \<Longrightarrow> row_list rs db = row_list rs db'"
proof (induction rs arbitrary: db db')
  case (Cons r rs)
  obtain scope kind stored where r: "r = (scope, kind, stored)" by (cases r)
  have "next_row db scope kind stored = next_row db' scope kind stored"
    by (simp add: next_row_def next_position_cong [OF Cons.prems])
  moreover have "events (append_rows [row] db) = events (append_rows [row] db')" for row
    using Cons.prems by simp
  ultimately show ?case using Cons.IH by (simp add: r Let_def)
qed simp

lemma row_list_append: "row_list (rs @ qs) db = row_list rs db @ row_list qs (append_rows (row_list rs db) db)"
  by (induction rs db rule: row_list.induct) (simp_all add: Let_def)

text \<open>The state a successful loop leaves: the rows, one reference each, nothing else.\<close>

definition with_facts :: "string \<Rightarrow> string \<Rightarrow> int \<Rightarrow> event_row list \<Rightarrow> store \<Rightarrow> store" where
  "with_facts scope key index rows db =
     (append_rows rows db)\<lparr>record_command_fact_refs :=
        record_command_fact_refs db @ fact_refs scope key index rows\<rparr>"

lemma with_facts_simps [simp]:
  "events (with_facts scope key index rows db) = events db @ rows"
  "command_receipts (with_facts scope key index rows db) = command_receipts db"
  "scope_snapshots (with_facts scope key index rows db) = scope_snapshots db"
  "commands (with_facts scope key index rows db) = commands db"
  "record_command_fact_sets (with_facts scope key index rows db) = record_command_fact_sets db"
  "record_command_fact_refs (with_facts scope key index rows db) =
     record_command_fact_refs db @ fact_refs scope key index rows"
  by (simp_all add: with_facts_def)

lemma with_facts_append:
  "with_facts scope key (index + int (length rows)) qs (with_facts scope key index rows db) =
     with_facts scope key index (rows @ qs) db"
  by (simp add: with_facts_def append_rows_def fact_refs_append)

lemma tx_append_facts_effect:
  "increasing db \<Longrightarrow> tx_append_facts scope key index facts db = Inr (db', ps) \<Longrightarrow>
     db' = with_facts scope key index (row_list facts db) db \<and> ps = map ev_position (row_list facts db)"
proof (induction facts arbitrary: db index db' ps)
  case Nil
  then show ?case by (simp add: with_facts_def append_rows_def)
next
  case (Cons f facts)
  obtain fs kind stored where f: "f = (fs, kind, stored)" by (cases f)
  let ?row = "next_row db fs kind stored"
  let ?db2 = "with_facts scope key index [?row] db"
  from Cons.prems obtain qs where qs: "tx_append_facts scope key (index + 1) facts ?db2 = Inr (db', qs)"
    "ps = ev_position ?row # qs"
    by (auto simp: f tx_append_increasing [OF Cons.prems(1)] and_then_Inr insert_fact_ref_def with_facts_def
      append_rows_def split: if_splits)
  have "increasing ?db2" using increasing_append_next [OF Cons.prems(1)] increasing_cong [of ?db2 "append_rows [?row] db"] by simp
  from Cons.IH [OF this qs(1)] have "db' = with_facts scope key (index + 1) (row_list facts ?db2) ?db2"
    "qs = map ev_position (row_list facts ?db2)" by auto
  moreover have "row_list facts ?db2 = row_list facts (append_rows [?row] db)" by (rule row_list_cong) simp
  ultimately show ?case
    using with_facts_append [of scope key index "[?row]"] qs(2) by (simp add: f Let_def)
qed

section \<open>Reading back\<close>

context codec_laws
begin

lemma row_list_decode:
  "encode_records env facts = Inr stored \<Longrightarrow>
     map (\<lambda>r. (ev_scope r, ev_kind r, decode_payload env (ev_scope r) (ev_kind r) (ev_payload r))) (row_list stored db) =
     map (\<lambda>(s, k, p). (s, k, Some p)) facts"
proof (induction facts arbitrary: stored db)
  case (Cons f facts)
  obtain s k p where f: "f = (s, k, p)" by (cases f)
  from Cons.prems obtain q qs where q: "stored = (s, k, q) # qs" "encode_payload env s k p = Inr q"
    "encode_records env facts = Inr qs"
    by (auto simp: f and_then_Inr)
  show ?case using Cons.IH [OF q(3)] decode_encode [OF q(2)] by (simp add: f q(1) Let_def)
qed simp

lemma collect_rows:
  "increasing db \<Longrightarrow> set rows \<subseteq> set (events db) \<Longrightarrow>
     map (\<lambda>r. (ev_scope r, ev_kind r, decode_payload env (ev_scope r) (ev_kind r) (ev_payload r))) rows =
     map (\<lambda>(s, k, p). (s, k, Some p)) facts \<Longrightarrow>
     collect_facts env db index (fact_refs scope key index rows) = Inr facts"
proof (induction rows arbitrary: index facts)
  case (Cons r rows)
  from Cons.prems(3) obtain p fs where facts: "facts = (ev_scope r, ev_kind r, p) # fs"
    "decode_payload env (ev_scope r) (ev_kind r) (ev_payload r) = Some p"
    "map (\<lambda>r. (ev_scope r, ev_kind r, decode_payload env (ev_scope r) (ev_kind r) (ev_payload r))) rows =
     map (\<lambda>(s, k, p). (s, k, Some p)) fs"
    by (cases facts) auto
  have "find (\<lambda>q. ev_scope q = ev_scope r \<and> ev_position q = ev_position r) (events db) = Some r"
  proof (cases "find (\<lambda>q. ev_scope q = ev_scope r \<and> ev_position q = ev_position r) (events db)")
    case None
    then show ?thesis using Cons.prems(2) by (auto simp: find_None_iff)
  next
    case (Some q)
    then show ?thesis
      using find_SomeD [OF Some] increasing_unique [OF Cons.prems(1), of q r] Cons.prems(2) by auto
  qed
  with facts Cons.IH [OF Cons.prems(1) _ facts(3)] Cons.prems(2) show ?case by simp
qed simp

end

section \<open>One transaction\<close>

lemma insert_receipt_effect:
  "insert_receipt scope key at db = Inr db' \<Longrightarrow> db' = db\<lparr>command_receipts :=
     command_receipts db @ [\<lparr>rc_scope = scope, rc_key = key, rc_applied_at = at\<rparr>]\<rparr>"
  by (auto simp: insert_receipt_def split: if_splits)

lemma insert_command_effect:
  "insert_command row db = Inr db' \<Longrightarrow> db' = db\<lparr>commands := commands db @ [row]\<rparr>"
  by (auto simp: insert_command_def split: if_splits)

lemma insert_claims_effect:
  "insert_claims cj scope at claims db = Inr db' \<Longrightarrow>
     events db' = events db \<and> scope_snapshots db' = scope_snapshots db \<and>
     record_command_fact_sets db' = record_command_fact_sets db \<and>
     record_command_fact_refs db' = record_command_fact_refs db \<and>
     (\<exists>rs. command_receipts db' = command_receipts db @ rs) \<and> (\<exists>rs. commands db' = commands db @ rs)"
proof (induction claims arbitrary: db)
  case (Cons c claims)
  let ?row = "\<lparr>cr_command_id = record_command_id scope (rk_key c), cr_scope_id = scope,
    cr_idempotency_key = rk_key c, cr_status = ''applied'', cr_snapshot_json = cj (rk_snapshot c)\<rparr>"
  from Cons.prems obtain db1 db2 where db: "insert_command ?row db = Inr db1"
    "insert_receipt scope (rk_key c) at db1 = Inr db2" "insert_claims cj scope at claims db2 = Inr db'"
    by (auto simp: and_then_Inr)
  show ?case
    using Cons.IH [OF db(3)] by (auto simp: insert_command_effect [OF db(1)] insert_receipt_effect [OF db(2)])
qed simp

lemma insert_fact_set_effect:
  "insert_fact_set row db = Inr db' \<Longrightarrow>
     db' = db\<lparr>record_command_fact_sets := record_command_fact_sets db @ [row]\<rparr> \<and>
     (\<forall>r \<in> set (record_command_fact_sets db). \<not> (fs_scope r = fs_scope row \<and> fs_key r = fs_key row))"
  by (auto simp: insert_fact_set_def split: if_splits)

definition chain_fact :: "chained_record_fact option \<Rightarrow> string option \<Rightarrow> command_record_fact list" where
  "chain_fact chained payload =
     (case chained of None \<Rightarrow> [] | Some ch \<Rightarrow> (case payload of None \<Rightarrow> [] | Some p \<Rightarrow> [(ch_scope_id ch, ch_kind ch, p)]))"

text \<open>What the effects of one command are: the rows of all its facts, one reference each, one set row
  with their number, and a receipt.\<close>

definition facts_written ::
  "store_env \<Rightarrow> string \<Rightarrow> string \<Rightarrow> command_record_fact list \<Rightarrow> store \<Rightarrow> store \<Rightarrow> materialized_record_admission \<Rightarrow> bool" where
  "facts_written env scope key facts db db' m \<longleftrightarrow>
     (\<exists>rows.
        map (\<lambda>r. (ev_scope r, ev_kind r, decode_payload env (ev_scope r) (ev_kind r) (ev_payload r))) rows =
          map (\<lambda>(s, k, p). (s, k, Some p)) facts \<and>
        mr_positions m = map ev_position rows \<and> events db' = events db @ rows \<and>
        record_command_fact_refs db' = record_command_fact_refs db @ fact_refs scope key 0 rows \<and>
        record_command_fact_sets db' = record_command_fact_sets db @
          [\<lparr>fs_scope = scope, fs_key = key, fs_count = int (length rows)\<rparr>] \<and>
        (\<forall>r \<in> set (record_command_fact_sets db). \<not> (fs_scope r = scope \<and> fs_key r = key))) \<and>
     increasing db' \<and> find_receipt db' scope key \<noteq> None \<and> commands_forward db db' \<and>
     scope_snapshots db' = scope_snapshots db \<and> (\<exists>rs. command_receipts db' = command_receipts db @ rs)"

text \<open>The chain link was computed from the head the transaction saw after its own facts.\<close>

definition linked_payload ::
  "store_env \<Rightarrow> chained_record_fact option \<Rightarrow> command_record_fact list \<Rightarrow> store \<Rightarrow> materialized_record_admission \<Rightarrow> bool" where
  "linked_payload env chained stored db m \<longleftrightarrow>
     mr_chained_payload m = map_option (\<lambda>ch. ch_link ch
       (tx_chain_head env (append_rows (row_list stored db) db) (ch_scope_id ch) (ch_kind ch))) chained"

lemma tx_chain_head_cong: "events db = events db' \<Longrightarrow> tx_chain_head env db scope kind = tx_chain_head env db' scope kind"
  by (simp add: tx_chain_head_def scope_events_cong [of db db'])

context codec_laws
begin

lemma chained_rows:
  assumes "increasing db" "tx_append_chained env scope key index chained db = Inr (db', qs, payload)"
  shows "\<exists>stored. encode_records env (chain_fact chained payload) = Inr stored \<and>
    db' = with_facts scope key index (row_list stored db) db \<and> qs = map ev_position (row_list stored db) \<and>
    payload = map_option (\<lambda>ch. ch_link ch (tx_chain_head env db (ch_scope_id ch) (ch_kind ch))) chained"
proof (cases chained)
  case None
  with assms show ?thesis by (simp add: tx_append_chained_def chain_fact_def with_facts_def append_rows_def)
next
  case (Some ch)
  let ?payload = "ch_link ch (tx_chain_head env db (ch_scope_id ch) (ch_kind ch))"
  from assms(2) Some obtain encoded where e: "encode_payload env (ch_scope_id ch) (ch_kind ch) ?payload = Inr encoded"
    "tx_append_facts scope key index [(ch_scope_id ch, ch_kind ch, encoded)] db = Inr (db', qs)"
    "payload = Some ?payload"
    unfolding tx_append_chained_def Let_def by (auto simp del: tx_append_facts.simps simp: and_then_Inr)
  show ?thesis
    using tx_append_facts_effect [OF assms(1) e(2)] e(1,3) Some by (simp add: chain_fact_def)
qed

lemma effects_steps:
  assumes "increasing db" "encode_facts env facts = Inr stored"
    "record_command_effects env cj scope key stored chained claims cid db = Inr (db', m)"
  obtains rows at db4 where
    "map (\<lambda>r. (ev_scope r, ev_kind r, decode_payload env (ev_scope r) (ev_kind r) (ev_payload r))) rows =
       map (\<lambda>(s, k, p). (s, k, Some p)) (facts @ chain_fact chained (mr_chained_payload m))"
    "mr_positions m = map ev_position rows" "\<not> mr_replayed m" "increasing (append_rows rows db)"
    "linked_payload env chained stored db m"
    "db4 = (with_facts scope key 0 rows
        (update_status (\<lambda>r. cr_command_id r = cid \<and> cr_status r = ''received'') ''processing'' db))\<lparr>
          record_command_fact_sets := record_command_fact_sets db @
            [\<lparr>fs_scope = scope, fs_key = key, fs_count = int (length rows)\<rparr>],
          command_receipts := command_receipts db @ [\<lparr>rc_scope = scope, rc_key = key, rc_applied_at = at\<rparr>]\<rparr>"
    "\<forall>r \<in> set (record_command_fact_sets db). \<not> (fs_scope r = scope \<and> fs_key r = key)"
    "insert_claims cj scope at claims (update_status (\<lambda>r. cr_command_id r = cid) ''applied'' db4) = Inr db'"
proof -
  let ?db0 = "update_status (\<lambda>r. cr_command_id r = cid \<and> cr_status r = ''received'') ''processing'' db"
  from assms(3) obtain db1 ps db2 qs payload db3 db4 where
    1: "tx_append_facts scope key 0 stored ?db0 = Inr (db1, ps)" and
    2: "tx_append_chained env scope key (int (length ps)) chained db1 = Inr (db2, qs, payload)" and
    3: "insert_fact_set \<lparr>fs_scope = scope, fs_key = key, fs_count = int (length (ps @ qs))\<rparr> db2 = Inr db3" and
    4: "insert_receipt scope key (case ps @ qs of [] \<Rightarrow> 0 | p # _ \<Rightarrow> p) db3 = Inr db4" and
    5: "insert_claims cj scope (case ps @ qs of [] \<Rightarrow> 0 | p # _ \<Rightarrow> p) claims
          (update_status (\<lambda>r. cr_command_id r = cid) ''applied'' db4) = Inr db'" and
    m: "m = \<lparr>mr_positions = ps @ qs, mr_replayed = False, mr_chained_payload = payload\<rparr>"
    unfolding record_command_effects_def Let_def by (auto simp: and_then_Inr)
  have increasing0: "increasing ?db0" using assms(1) increasing_cong [of ?db0 db] by simp
  note w1 = tx_append_facts_effect [OF increasing0 1]
  let ?R1 = "row_list stored ?db0"
  have increasing1: "increasing db1"
    using tx_append_all_increasing [OF increasing0, of stored] w1 increasing_cong [of db1 "append_rows ?R1 ?db0"] by simp
  from chained_rows [OF increasing1 2] obtain stored2 where
    c: "encode_records env (chain_fact chained payload) = Inr stored2"
    and w2: "db2 = with_facts scope key (int (length ps)) (row_list stored2 db1) db1"
      "qs = map ev_position (row_list stored2 db1)"
      "payload = map_option (\<lambda>ch. ch_link ch (tx_chain_head env db1 (ch_scope_id ch) (ch_kind ch))) chained" by blast
  let ?R = "?R1 @ row_list stored2 db1"
  have db2: "db2 = with_facts scope key 0 ?R ?db0"
    using w1 w2 with_facts_append [of scope key 0 ?R1] by simp
  have "events db1 = events (append_rows (row_list stored db) db)"
    using w1 row_list_cong [of ?db0 db] by simp
  from tx_chain_head_cong [OF this] have "linked_payload env chained stored db m"
    by (simp add: linked_payload_def w2(3) m)
  moreover have "increasing (append_rows ?R db)"
    using tx_append_all_increasing [OF increasing1, of stored2] w1
      increasing_cong [of "append_rows ?R db" "append_rows (row_list stored2 db1) db1"] by simp
  ultimately show ?thesis
    using row_list_decode [OF assms(2) [unfolded encode_facts_def]] row_list_decode [OF c]
      insert_fact_set_effect [OF 3] insert_receipt_effect [OF 4] db2 w1 w2(2)
    by (intro that [where rows = ?R, OF _ _ _ _ _ _ _ 5]) (simp_all add: m)
qed

lemma effects_written:
  assumes "increasing db" "encode_facts env facts = Inr stored"
    "record_command_effects env cj scope key stored chained claims cid db = Inr (db', m)"
  shows "facts_written env scope key (facts @ chain_fact chained (mr_chained_payload m)) db db' m \<and>
    \<not> mr_replayed m \<and> linked_payload env chained stored db m"
proof (rule effects_steps [OF assms])
  fix rows at db4
  let ?P = "\<lambda>r. cr_command_id r = cid \<and> cr_status r = ''received''"
  let ?db5 = "update_status (\<lambda>r. cr_command_id r = cid) ''applied'' db4"
  assume rows: "map (\<lambda>r. (ev_scope r, ev_kind r, decode_payload env (ev_scope r) (ev_kind r) (ev_payload r))) rows =
      map (\<lambda>(s, k, p). (s, k, Some p)) (facts @ chain_fact chained (mr_chained_payload m))"
    "mr_positions m = map ev_position rows" "\<not> mr_replayed m" and increasing: "increasing (append_rows rows db)"
    and linked: "linked_payload env chained stored db m" and db4: "db4 = (with_facts scope key 0 rows (update_status ?P ''processing'' db))\<lparr>
      record_command_fact_sets := record_command_fact_sets db @
        [\<lparr>fs_scope = scope, fs_key = key, fs_count = int (length rows)\<rparr>],
      command_receipts := command_receipts db @ [\<lparr>rc_scope = scope, rc_key = key, rc_applied_at = at\<rparr>]\<rparr>"
    and fresh: "\<forall>r \<in> set (record_command_fact_sets db). \<not> (fs_scope r = scope \<and> fs_key r = key)"
    and "insert_claims cj scope at claims ?db5 = Inr db'"
  note w5 = insert_claims_effect [OF this(8)]
  have "commands_forward db db4"
    using update_status_forward [of "''processing''" db ?P] by (simp add: db4 commands_forward_def)
  moreover have "commands_forward db4 ?db5" by (rule update_status_forward) simp
  moreover have "commands_forward ?db5 db'" using w5 commands_forward_append by blast
  ultimately have "commands_forward db db'" by (blast intro: commands_forward_trans)
  moreover have "increasing db'" using increasing increasing_cong [of db' "append_rows rows db"] w5 db4 by simp
  moreover have "find_receipt db' scope key \<noteq> None" using w5 db4 by (auto simp: find_receipt_iff)
  ultimately show ?thesis
    unfolding facts_written_def using rows fresh w5 db4 linked by (auto intro!: exI [of _ rows])
qed

lemma insert_or_ignore_tables [simp]:
  "events (insert_or_ignore_command row db) = events db"
  "command_receipts (insert_or_ignore_command row db) = command_receipts db"
  "scope_snapshots (insert_or_ignore_command row db) = scope_snapshots db"
  "record_command_fact_sets (insert_or_ignore_command row db) = record_command_fact_sets db"
  "record_command_fact_refs (insert_or_ignore_command row db) = record_command_fact_refs db"
  by (simp_all add: insert_or_ignore_command_def)

text \<open>A successful admission, opened: either a replay or the effects.\<close>

lemma record_facts_open:
  assumes "admit_record_facts_internal env cj scope key snapshot facts chained claims head db = (db', Inr m)"
    and "db1 = insert_or_ignore_command (received_row (record_command_id scope key) scope key snapshot) db"
  obtains stored r where "encode_facts env facts = Inr stored" "command_by_key db1 scope key = Some r"
    "cr_snapshot_json r = snapshot"
    "find_receipt db scope key \<noteq> None \<longrightarrow>
       db' = update_status (\<lambda>q. cr_command_id q = cr_command_id r) ''applied'' db1 \<and> mr_replayed m"
    "find_receipt db scope key = None \<longrightarrow>
       record_command_effects env cj scope key stored chained claims (cr_command_id r) db1 = Inr (db', m)"
proof -
  obtain stored r where ok: "encode_facts env facts = Inr stored" "command_by_key db1 scope key = Some r"
    "cr_snapshot_json r = snapshot"
    using assms
    by (auto simp: admit_record_facts_internal_def in_tx_def and_then_def Let_def split: sum.splits option.splits if_splits)
  have receipt: "find_receipt db1 scope key = find_receipt db scope key"
    by (rule find_receipt_cong) (simp add: assms(2))
  have "find_receipt db scope key \<noteq> None \<longrightarrow>
      db' = update_status (\<lambda>q. cr_command_id q = cr_command_id r) ''applied'' db1 \<and> mr_replayed m"
    using assms ok receipt
    by (auto simp: admit_record_facts_internal_def in_tx_def and_then_def Let_def split: sum.splits if_splits)
  moreover have "find_receipt db scope key = None \<longrightarrow>
      record_command_effects env cj scope key stored chained claims (cr_command_id r) db1 = Inr (db', m)"
    using assms ok receipt
    by (auto simp: admit_record_facts_internal_def in_tx_def and_then_def [of "check_claims _ _ _ _ _"] Let_def
      split: sum.splits if_splits)
  ultimately show ?thesis by (rule that [OF ok])
qed

lemma record_facts_cases:
  assumes "increasing db"
  obtains (failed) e where "admit_record_facts_internal env cj scope key snapshot facts chained claims head db = (db, Inl e)"
  | (replayed) db' m where
      "admit_record_facts_internal env cj scope key snapshot facts chained claims head db = (db', Inr m)"
      "mr_replayed m" "events db' = events db" "commands_forward db db'" "find_receipt db scope key \<noteq> None"
      "command_receipts db' = command_receipts db" "record_command_fact_sets db' = record_command_fact_sets db"
      "record_command_fact_refs db' = record_command_fact_refs db"
  | (written) db' m where
      "admit_record_facts_internal env cj scope key snapshot facts chained claims head db = (db', Inr m)"
      "\<not> mr_replayed m" "find_receipt db scope key = None"
      "facts_written env scope key (facts @ chain_fact chained (mr_chained_payload m)) db db' m"
      "\<exists>stored. encode_facts env facts = Inr stored \<and> linked_payload env chained stored db m"
      "\<exists>r. command_by_key db' scope key = Some r \<and> cr_snapshot_json r = snapshot \<and>
         ((\<forall>q. command_by_key db scope key = Some q \<longrightarrow> cr_command_id q = record_command_id scope key) \<longrightarrow>
            cr_command_id r = record_command_id scope key)"
proof (cases "admit_record_facts_internal env cj scope key snapshot facts chained claims head db")
  case (Pair db' result)
  show ?thesis
  proof (cases result)
    case (Inl e)
    with Pair show ?thesis
      by (intro failed [of e]) (auto simp: admit_record_facts_internal_def in_tx_def split: sum.splits)
  next
    case (Inr m)
    let ?db1 = "insert_or_ignore_command (received_row (record_command_id scope key) scope key snapshot) db"
    note all = Pair [unfolded Inr]
    from all obtain stored r where ok: "encode_facts env facts = Inr stored" "command_by_key ?db1 scope key = Some r"
      "cr_snapshot_json r = snapshot"
      and replay: "find_receipt db scope key \<noteq> None \<longrightarrow>
        db' = update_status (\<lambda>q. cr_command_id q = cr_command_id r) ''applied'' ?db1 \<and> mr_replayed m"
      and effects: "find_receipt db scope key = None \<longrightarrow>
        record_command_effects env cj scope key stored chained claims (cr_command_id r) ?db1 = Inr (db', m)"
      by (rule record_facts_open [OF _ refl])
    show ?thesis
    proof (cases "find_receipt db scope key")
      case (Some p)
      have "commands_forward db (update_status P ''applied'' ?db1)" for P
        by (rule commands_forward_trans [OF insert_or_ignore_forward update_status_forward]) simp
      then show ?thesis
        using replayed [OF all] Some replay by simp
    next
      case None
      from effects_written [OF _ ok(1) effects [rule_format, OF None]] assms increasing_cong [of ?db1 db]
      have w: "facts_written env scope key (facts @ chain_fact chained (mr_chained_payload m)) ?db1 db' m" "\<not> mr_replayed m"
        and l: "linked_payload env chained stored ?db1 m" by auto
      have "linked_payload env chained stored db m"
        using l row_list_cong [of ?db1 db stored]
          tx_chain_head_cong [of "append_rows (row_list stored ?db1) ?db1" "append_rows (row_list stored db) db"]
        by (simp add: linked_payload_def)
      moreover have "facts_written env scope key (facts @ chain_fact chained (mr_chained_payload m)) db db' m"
        using w(1) insert_or_ignore_forward [of db] commands_forward_trans [of db ?db1 db'] by (simp add: facts_written_def)
      moreover obtain q where "command_by_key db' scope key = Some q" "row_forward r q"
        using w(1) ok(2) command_by_key_forward unfolding facts_written_def by blast
      moreover have "(\<forall>q. command_by_key db scope key = Some q \<longrightarrow> cr_command_id q = record_command_id scope key) \<longrightarrow>
          cr_command_id r = record_command_id scope key"
        using ok(2)
        by (auto simp: insert_or_ignore_command_def command_by_key_def find_append received_row_def
          split: if_splits option.splits)
      ultimately show ?thesis
        using written [OF all w(2) None] ok(1,3) by (auto simp: row_forward_def)
    qed
  qed
qed

end

section \<open>The store over time\<close>

text \<open>Record commands, and everything else the store does: rows that continue the log, more receipts,
  command rows that move forward, and provenance of other commands, which an import brings along.\<close>

inductive record_step :: "store_env \<Rightarrow> store \<Rightarrow> store \<Rightarrow> bool" for env where
  facts: "record_step env db (fst (admit_record_facts_internal env cj scope key snapshot facts chained claims head db))"
| other: "events db' = events db @ rows \<Longrightarrow> fits db rows \<Longrightarrow>
    command_receipts db' = command_receipts db @ receipts \<Longrightarrow> commands_forward db db' \<Longrightarrow>
    record_command_fact_sets db' = record_command_fact_sets db @ sets \<Longrightarrow>
    record_command_fact_refs db' = record_command_fact_refs db @ refs \<Longrightarrow>
    \<forall>t \<in> set sets. \<forall>r \<in> set (record_command_fact_sets db). \<not> (fs_scope r = fs_scope t \<and> fs_key r = fs_key t) \<Longrightarrow>
    \<forall>f \<in> set refs. \<exists>t \<in> set sets. fs_scope t = fr_scope f \<and> fs_key t = fr_key f \<Longrightarrow> record_step env db db'"

definition facts_owned :: "store \<Rightarrow> bool" where
  "facts_owned db \<longleftrightarrow>
     (\<forall>f \<in> set (record_command_fact_refs db).
        \<exists>r \<in> set (record_command_fact_sets db). fs_scope r = fr_scope f \<and> fs_key r = fr_key f)"

text \<open>A committed command, row by row.\<close>

definition holds_facts :: "store_env \<Rightarrow> string \<Rightarrow> string \<Rightarrow> command_record_fact list \<Rightarrow> store \<Rightarrow> bool" where
  "holds_facts env scope key facts db \<longleftrightarrow>
     find_receipt db scope key \<noteq> None \<and>
     (\<exists>r. command_by_key db scope key = Some r \<and> cr_command_id r = record_command_id scope key) \<and>
     (\<exists>rows. set rows \<subseteq> set (events db) \<and>
        map (\<lambda>r. (ev_scope r, ev_kind r, decode_payload env (ev_scope r) (ev_kind r) (ev_payload r))) rows =
          map (\<lambda>(s, k, p). (s, k, Some p)) facts \<and>
        filter (\<lambda>f. fr_scope f = scope \<and> fr_key f = key) (record_command_fact_refs db) = fact_refs scope key 0 rows \<and>
        find (\<lambda>r. fs_scope r = scope \<and> fs_key r = key) (record_command_fact_sets db) =
          Some \<lparr>fs_scope = scope, fs_key = key, fs_count = int (length rows)\<rparr>)"

lemma holds_facts_extend:
  assumes "holds_facts env scope key facts db" "events db' = events db @ rows"
    "command_receipts db' = command_receipts db @ receipts" "commands_forward db db'"
    "record_command_fact_sets db' = record_command_fact_sets db @ sets"
    "record_command_fact_refs db' = record_command_fact_refs db @ refs"
    "\<forall>f \<in> set refs. \<not> (fr_scope f = scope \<and> fr_key f = key)"
  shows "holds_facts env scope key facts db'"
proof -
  obtain r where r: "command_by_key db scope key = Some r" "cr_command_id r = record_command_id scope key"
    using assms(1) by (auto simp: holds_facts_def)
  obtain q where q: "command_by_key db' scope key = Some q" "row_forward r q"
    by (rule command_by_key_forward [OF assms(4) r(1)])
  then have id: "cr_command_id q = record_command_id scope key" using r(2) by (simp add: row_forward_def)
  have receipt: "find_receipt db' scope key \<noteq> None"
    using assms(1,3) by (auto simp: holds_facts_def find_receipt_iff)
  have refs: "filter (\<lambda>f. fr_scope f = scope \<and> fr_key f = key) refs = []"
    using assms(7) by (auto simp: filter_empty_conv)
  from assms(1) obtain old where old: "set old \<subseteq> set (events db)"
    "map (\<lambda>r. (ev_scope r, ev_kind r, decode_payload env (ev_scope r) (ev_kind r) (ev_payload r))) old =
      map (\<lambda>(s, k, p). (s, k, Some p)) facts"
    "filter (\<lambda>f. fr_scope f = scope \<and> fr_key f = key) (record_command_fact_refs db) = fact_refs scope key 0 old"
    "find (\<lambda>r. fs_scope r = scope \<and> fs_key r = key) (record_command_fact_sets db) =
      Some \<lparr>fs_scope = scope, fs_key = key, fs_count = int (length old)\<rparr>"
    by (auto simp: holds_facts_def)
  show ?thesis
    unfolding holds_facts_def using old q(1) id receipt refs
    by (intro conjI exI [of _ q] exI [of _ old]) (auto simp: assms(2,5,6) find_append)
qed

context codec_laws
begin

lemma holds_facts_read:
  assumes "holds_facts env scope key facts db" "increasing db"
  shows "committed_record_facts env db scope key = Inr (Some facts)"
proof -
  from assms(1) obtain rows where rows: "set rows \<subseteq> set (events db)"
    "map (\<lambda>r. (ev_scope r, ev_kind r, decode_payload env (ev_scope r) (ev_kind r) (ev_payload r))) rows =
      map (\<lambda>(s, k, p). (s, k, Some p)) facts"
    "filter (\<lambda>f. fr_scope f = scope \<and> fr_key f = key) (record_command_fact_refs db) = fact_refs scope key 0 rows"
    "find (\<lambda>r. fs_scope r = scope \<and> fs_key r = key) (record_command_fact_sets db) =
      Some \<lparr>fs_scope = scope, fs_key = key, fs_count = int (length rows)\<rparr>"
    by (auto simp: holds_facts_def)
  have "length facts = length rows" using arg_cong [OF rows(2), of length] by simp
  moreover obtain t where "committed_record_snapshot db scope key = Inr (Some t)"
    using assms(1) by (auto simp: committed_record_snapshot_def validate_snapshot_def Let_def holds_facts_def)
  ultimately show ?thesis
    using collect_rows [OF assms(2) rows(1,2), of 0 scope key]
    by (simp add: committed_record_facts_def rows(3,4) sort_key_id_if_sorted [OF fact_refs_sorted])
qed

lemma written_owned:
  assumes "facts_owned db" "facts_written env scope key facts db db' m"
  shows "facts_owned db'"
  using assms unfolding facts_owned_def facts_written_def by (fastforce dest: fact_refs_own)

lemma written_holds:
  assumes "facts_owned db" "facts_written env scope key facts db db' m"
    "command_by_key db' scope key = Some r" "cr_command_id r = record_command_id scope key"
  shows "holds_facts env scope key facts db'"
proof -
  from assms(2) obtain rows where rows:
    "map (\<lambda>r. (ev_scope r, ev_kind r, decode_payload env (ev_scope r) (ev_kind r) (ev_payload r))) rows =
      map (\<lambda>(s, k, p). (s, k, Some p)) facts"
    "events db' = events db @ rows"
    "record_command_fact_refs db' = record_command_fact_refs db @ fact_refs scope key 0 rows"
    "record_command_fact_sets db' = record_command_fact_sets db @
      [\<lparr>fs_scope = scope, fs_key = key, fs_count = int (length rows)\<rparr>]"
    "\<forall>r \<in> set (record_command_fact_sets db). \<not> (fs_scope r = scope \<and> fs_key r = key)"
    by (auto simp: facts_written_def)
  have old: "filter (\<lambda>f. fr_scope f = scope \<and> fr_key f = key) (record_command_fact_refs db) = []"
    "find (\<lambda>r. fs_scope r = scope \<and> fs_key r = key) (record_command_fact_sets db) = None"
    using rows(5) assms(1) by (fastforce simp: filter_empty_conv facts_owned_def, auto simp: find_None_iff)
  have new: "filter (\<lambda>f. fr_scope f = scope \<and> fr_key f = key) (fact_refs scope key 0 rows) = fact_refs scope key 0 rows"
    by (simp add: filter_id_conv fact_refs_own)
  show ?thesis
    unfolding holds_facts_def using rows old new assms(2-4)
    by (auto simp: find_append facts_written_def intro!: exI [of _ rows])
qed

lemma record_step_inv:
  assumes "record_step env db db'" "increasing db" "facts_owned db"
  shows "increasing db' \<and> facts_owned db' \<and> (holds_facts env scope key facts db \<longrightarrow> holds_facts env scope key facts db')"
  using assms(1)
proof cases
  case (facts cj s k snapshot fs chained claims head)
  from assms(2) show ?thesis
  proof (cases rule: record_facts_cases [of db cj s k snapshot fs chained claims head])
    case (replayed db2 m)
    then have "holds_facts env scope key facts db \<longrightarrow> holds_facts env scope key facts db2"
      using holds_facts_extend [of env scope key facts db db2 "[]" "[]" "[]" "[]"] by simp
    with facts replayed assms increasing_cong [of db2 db] show ?thesis by (simp add: facts_owned_def)
  next
    case (written db2 m)
    let ?F = "fs @ chain_fact chained (mr_chained_payload m)"
    have "holds_facts env scope key facts db2" if held: "holds_facts env scope key facts db"
    proof -
      have "\<not> (s = scope \<and> k = key)" using held written(3) by (auto simp: holds_facts_def)
      with written(4) held show ?thesis
        unfolding facts_written_def by (auto dest!: fact_refs_own intro!: holds_facts_extend [OF held])
    qed
    with facts written written_owned [OF assms(3) written(4)] show ?thesis by (auto simp: facts_written_def)
  qed (use facts assms in simp)
next
  case (other rows receipts sets refs)
  have "holds_facts env scope key facts db'" if held: "holds_facts env scope key facts db"
  proof (rule holds_facts_extend [OF held other(1,3-6)])
    have "\<exists>r \<in> set (record_command_fact_sets db). fs_scope r = scope \<and> fs_key r = key"
      using held by (fastforce simp: holds_facts_def dest: find_SomeD)
    with other(7,8) show "\<forall>f \<in> set refs. \<not> (fr_scope f = scope \<and> fr_key f = key)" by metis
  qed
  moreover have "facts_owned db'" using other(5,6,8) assms(3) by (fastforce simp: facts_owned_def)
  ultimately show ?thesis using increasing_rows [OF assms(2) other(2,1)] by blast
qed

end

section \<open>Hash chains\<close>

text \<open>
  A chained kind: each payload stands in the relation \<open>R\<close> to its predecessor, the first to none. Every
  writer of the chain computes its payload with a link function that meets \<open>R\<close>.
\<close>

fun linked :: "(string option \<Rightarrow> string \<Rightarrow> bool) \<Rightarrow> string option \<Rightarrow> string list \<Rightarrow> bool" where
  "linked R prev [] = True"
| "linked R prev (p # ps) = (R prev p \<and> linked R (Some p) ps)"

definition chain_payloads :: "store_env \<Rightarrow> store \<Rightarrow> string \<Rightarrow> string \<Rightarrow> string option list" where
  "chain_payloads env db scope kind =
     map (\<lambda>r. decode_payload env scope kind (ev_payload r)) (filter (\<lambda>r. ev_kind r = kind) (scope_rows db scope))"

definition off_chain :: "string \<Rightarrow> string \<Rightarrow> (string \<times> string \<times> string) list \<Rightarrow> bool" where
  "off_chain scope kind rs \<longleftrightarrow> (\<forall>(s, k, p) \<in> set rs. \<not> (s = scope \<and> k = kind))"

inductive chain_step ::
  "store_env \<Rightarrow> string \<Rightarrow> string \<Rightarrow> (string option \<Rightarrow> string \<Rightarrow> bool) \<Rightarrow> store \<Rightarrow> store \<Rightarrow> bool"
  for env scope kind R where
  chained: "(\<And>prev. R prev (link prev)) \<Longrightarrow>
    chain_step env scope kind R db (fst (append_chained_record env scope kind link db))"
| facts: "(\<And>prev. R prev (ch_link ch prev)) \<Longrightarrow> ch_scope_id ch = scope \<Longrightarrow> ch_kind ch = kind \<Longrightarrow>
    off_chain scope kind facts \<Longrightarrow>
    chain_step env scope kind R db
      (fst (admit_record_facts_internal env cj command_scope key snapshot facts (Some ch) claims head db))"
| other: "events db' = events db @ rows \<Longrightarrow> fits db rows \<Longrightarrow>
    \<forall>r \<in> set rows. \<not> (ev_scope r = scope \<and> ev_kind r = kind) \<Longrightarrow> chain_step env scope kind R db db'"

lemma linked_snoc:
  "linked R prev (ps @ [p]) \<longleftrightarrow> linked R prev ps \<and> R (if ps = [] then prev else Some (last ps)) p"
  by (induction ps arbitrary: prev) auto

lemma tx_chain_head_last:
  "increasing db \<Longrightarrow> tx_chain_head env db scope kind =
     (if chain_payloads env db scope kind = [] then None else last (chain_payloads env db scope kind))"
proof -
  assume "increasing db"
  then have "tx_chain_head env db scope kind =
    (case rev (filter (\<lambda>r. ev_kind r = kind) (scope_rows db scope)) of
       [] \<Rightarrow> None | r # _ \<Rightarrow> decode_payload env scope kind (ev_payload r))"
    by (simp add: tx_chain_head_def decode_payload_def rev_filter cong: list.case_cong)
  then show ?thesis
    by (cases "filter (\<lambda>r. ev_kind r = kind) (scope_rows db scope)" rule: rev_cases)
      (auto simp: chain_payloads_def)
qed

lemma chain_payloads_extend:
  "events db' = events db @ rows \<Longrightarrow> chain_payloads env db' scope kind = chain_payloads env db scope kind @
     map (\<lambda>r. decode_payload env scope kind (ev_payload r)) (filter (\<lambda>r. ev_scope r = scope \<and> ev_kind r = kind) rows)"
  by (simp add: chain_payloads_def scope_rows_def conj_commute)

lemma off_chainD: "off_chain scope kind rs \<Longrightarrow> (scope, kind, p) \<notin> set rs"
  by (auto simp: off_chain_def)

lemma off_chain_rows:
  assumes "off_chain scope kind rs"
  shows "filter (\<lambda>r. ev_scope r = scope \<and> ev_kind r = kind) (row_list rs db) = []"
proof -
  have "\<not> (ev_scope r = scope \<and> ev_kind r = kind)" if "r \<in> set (row_list rs db)" for r
    using row_list_from [OF that] off_chainD [OF assms] by auto
  then show ?thesis by (simp add: filter_empty_conv)
qed

lemma off_chain_encode:
  assumes "encode_records env rs = Inr qs" "off_chain scope kind rs"
  shows "off_chain scope kind qs"
proof -
  have "(scope, kind, q) \<notin> set qs" for q
    using encode_records_from [OF assms(1), of scope kind q] off_chainD [OF assms(2)] by auto
  then show ?thesis by (auto simp: off_chain_def)
qed

definition chained_log :: "store_env \<Rightarrow> store \<Rightarrow> string \<Rightarrow> string \<Rightarrow> (string option \<Rightarrow> string \<Rightarrow> bool) \<Rightarrow> bool" where
  "chained_log env db scope kind R \<longleftrightarrow>
     (\<exists>ps. chain_payloads env db scope kind = map Some ps \<and> linked R None ps)"

context codec_laws
begin

lemma chained_log_snoc:
  assumes "chained_log env db scope kind R" "increasing db" "R (tx_chain_head env db scope kind) p"
    "chain_payloads env db' scope kind = chain_payloads env db scope kind @ [Some p]"
  shows "chained_log env db' scope kind R"
proof -
  from assms(1) obtain ps where ps: "chain_payloads env db scope kind = map Some ps" "linked R None ps"
    by (auto simp: chained_log_def)
  then have "tx_chain_head env db scope kind = (if ps = [] then None else Some (last ps))"
    using tx_chain_head_last [OF assms(2)] by (simp add: last_map)
  with ps assms(3,4) show ?thesis
    unfolding chained_log_def by (intro exI [of _ "ps @ [p]"]) (simp add: linked_snoc)
qed

lemma written_chain:
  assumes "increasing db" "off_chain scope kind facts" "ch_scope_id ch = scope" "ch_kind ch = kind"
    "facts_written env command_scope key (facts @ chain_fact (Some ch) (mr_chained_payload m)) db db' m"
    "encode_facts env facts = Inr stored" "linked_payload env (Some ch) stored db m"
  shows "chain_payloads env db' scope kind =
    chain_payloads env db scope kind @ [Some (ch_link ch (tx_chain_head env db scope kind))]"
proof -
  have off: "off_chain scope kind stored"
    using off_chain_encode assms(2,6) by (simp add: encode_facts_def)
  let ?mid = "append_rows (row_list stored db) db"
  have "increasing ?mid" using tx_append_all_increasing [OF assms(1)] by blast
  then have "tx_chain_head env ?mid scope kind = tx_chain_head env db scope kind"
    using assms(1) off_chain_rows [OF off] chain_payloads_extend [of ?mid db] by (simp add: tx_chain_head_last)
  then have p: "mr_chained_payload m = Some (ch_link ch (tx_chain_head env db scope kind))"
    using assms(3,4,7) by (simp add: linked_payload_def)
  from assms(5) obtain rows where rows: "events db' = events db @ rows"
    "map (\<lambda>r. (ev_scope r, ev_kind r, decode_payload env (ev_scope r) (ev_kind r) (ev_payload r))) rows =
      map (\<lambda>(s, k, p). (s, k, Some p)) (facts @ chain_fact (Some ch) (mr_chained_payload m))"
    by (auto simp: facts_written_def)
  define own where "own = (\<lambda>(s, k, q :: string option). s = scope \<and> k = kind)"
  from rows(2) have "filter own (map (\<lambda>r. (ev_scope r, ev_kind r, decode_payload env (ev_scope r) (ev_kind r) (ev_payload r))) rows) =
      [(scope, kind, mr_chained_payload m)]"
    using assms(2-4) by (auto simp: own_def p chain_fact_def off_chain_def filter_map comp_def filter_empty_conv)
  then have "map (\<lambda>r. decode_payload env scope kind (ev_payload r)) (filter (\<lambda>r. ev_scope r = scope \<and> ev_kind r = kind) rows) =
      [mr_chained_payload m]"
    by (auto simp: filter_map comp_def own_def map_eq_Cons_conv)
  with chain_payloads_extend [OF rows(1)] p show ?thesis by simp
qed

lemma chain_step_inv:
  assumes "chain_step env scope kind R db db'" "increasing db" "chained_log env db scope kind R"
  shows "increasing db' \<and> chained_log env db' scope kind R"
  using assms(1)
proof cases
  case (chained link)
  let ?p = "link (tx_chain_head env db scope kind)"
  show ?thesis
  proof (cases "encode_payload env scope kind ?p")
    case (Inl e)
    then show ?thesis using chained assms(2,3) by (simp add: append_chained_record_def)
  next
    case (Inr q)
    then have db': "db' = append_rows [next_row db scope kind q] db"
      using chained by (simp add: append_chained_record_def tx_append_increasing [OF assms(2)])
    have "chain_payloads env db' scope kind = chain_payloads env db scope kind @ [Some ?p]"
      using decode_encode [OF Inr] chain_payloads_extend [of db' db "[next_row db scope kind q]"] db' by simp
    with chained_log_snoc [OF assms(3,2)] chained(2) increasing_append_next [OF assms(2)] db' show ?thesis by blast
  qed
next
  case (facts ch fs cj s key snapshot claims head)
  from assms(2) show ?thesis
  proof (cases rule: record_facts_cases [of db cj s key snapshot fs "Some ch" claims head])
    case (replayed db2 m)
    then show ?thesis
      using facts assms increasing_cong [of db2 db] chain_payloads_extend [of db2 db "[]"] by (simp add: chained_log_def)
  next
    case (written db2 m)
    then obtain stored where "encode_facts env fs = Inr stored" "linked_payload env (Some ch) stored db m" by blast
    note chain = written_chain [OF assms(2) facts(5) facts(3,4) written(4) this]
    have "chained_log env db2 scope kind R" by (rule chained_log_snoc [OF assms(3,2) _ chain]) (rule facts(2))
    moreover have "increasing db2" using written(4) by (simp add: facts_written_def)
    ultimately show ?thesis using facts(1) written(1) by simp
  qed (use facts assms in simp)
next
  case (other rows)
  then have "filter (\<lambda>r. ev_scope r = scope \<and> ev_kind r = kind) rows = []" by (auto simp: filter_empty_conv)
  then show ?thesis
    using assms(3) increasing_rows [OF assms(2) other(2,1)]
    by (simp add: chained_log_def chain_payloads_extend [OF other(1)])
qed

lemma record_steps_inv:
  assumes "(record_step env)\<^sup>*\<^sup>* db db'" "increasing db" "facts_owned db"
  shows "increasing db' \<and> facts_owned db' \<and> (holds_facts env scope key facts db \<longrightarrow> holds_facts env scope key facts db')"
  using assms by (induction rule: rtranclp_induct) (use record_step_inv in blast)+

lemma record_reach_inv:
  assumes "(record_step env)\<^sup>*\<^sup>* empty_store db"
  shows "increasing db" "facts_owned db"
  using record_steps_inv [OF assms] by (auto simp: facts_owned_def empty_store_def increasing_def scope_rows_def)

lemma facts_read_back:
  assumes "(record_step env)\<^sup>*\<^sup>* empty_store db"
    "admit_record_facts_internal env cj scope key snapshot facts chained claims head db = (db', Inr m)" "\<not> mr_replayed m"
    "\<forall>r. command_by_key db scope key = Some r \<longrightarrow> cr_command_id r = record_command_id scope key"
    "(record_step env)\<^sup>*\<^sup>* db' db''"
  shows "committed_record_facts env db'' scope key = Inr (Some (facts @ chain_fact chained (mr_chained_payload m)))"
proof -
  note inv = record_reach_inv [OF assms(1)]
  let ?F = "facts @ chain_fact chained (mr_chained_payload m)"
  from inv(1) have "holds_facts env scope key ?F db' \<and> increasing db' \<and> facts_owned db'"
  proof (cases rule: record_facts_cases [of db cj scope key snapshot facts chained claims head])
    case (written db2 m2)
    then have m: "db2 = db'" "m2 = m" using assms(2) by auto
    with written(6) assms(4) obtain r where "command_by_key db' scope key = Some r" "cr_command_id r = record_command_id scope key"
      by blast
    moreover note w = written(4) [unfolded m]
    moreover have "increasing db'" using w by (simp add: facts_written_def)
    ultimately show ?thesis using written_holds [OF inv(2) w] written_owned [OF inv(2) w] by blast
  qed (use assms in auto)
  with record_steps_inv [OF assms(5), of scope key ?F] holds_facts_read show ?thesis by blast
qed

lemma admitted_row:
  assumes "increasing db"
    "admit_record_facts_internal env cj scope key snapshot facts chained claims head db = (db', Inr m)"
  shows "increasing db' \<and> find_receipt db' scope key \<noteq> None \<and>
    (\<exists>r. command_by_key db' scope key = Some r \<and> cr_snapshot_json r = snapshot)"
  using assms(1)
proof (cases rule: record_facts_cases [of db cj scope key snapshot facts chained claims head])
  case (replayed db2 m2)
  then have db2: "db2 = db'" using assms(2) by simp
  have "\<exists>r. command_by_key db' scope key = Some r \<and> cr_snapshot_json r = snapshot"
  proof (rule record_facts_open [OF assms(2) refl])
    fix stored r
    let ?db1 = "insert_or_ignore_command (received_row (record_command_id scope key) scope key snapshot) db"
    assume "command_by_key ?db1 scope key = Some r" "cr_snapshot_json r = snapshot"
      "find_receipt db scope key \<noteq> None \<longrightarrow>
        db' = update_status (\<lambda>q. cr_command_id q = cr_command_id r) ''applied'' ?db1 \<and> mr_replayed m"
    with replayed(5) show ?thesis by (simp add: command_by_key_update)
  qed
  with replayed db2 assms(1) increasing_cong [of db' db] find_receipt_cong [of db' db] show ?thesis by auto
next
  case (written db2 m2)
  then show ?thesis using assms(2) by (auto simp: facts_written_def)
qed (use assms in simp)

lemma record_step_forward:
  assumes "record_step env db db'" "increasing db"
  shows "commands_forward db db' \<and> (\<exists>rs. command_receipts db' = command_receipts db @ rs)"
  using assms(1)
proof cases
  case (facts cj s k snapshot fs chained claims head)
  from assms(2) show ?thesis
    by (cases rule: record_facts_cases [of db cj s k snapshot fs chained claims head])
      (use facts in \<open>auto simp: facts_written_def\<close>)
qed auto

lemma record_steps_forward:
  assumes "(record_step env)\<^sup>*\<^sup>* db db'" "increasing db" "facts_owned db"
  shows "commands_forward db db' \<and> (\<exists>rs. command_receipts db' = command_receipts db @ rs)"
  using assms
proof (induction rule: rtranclp_induct)
  case (step y z)
  then have "increasing y" using record_steps_inv [OF step(1)] by blast
  with step record_step_forward [OF step(2)] show ?case by (auto intro: commands_forward_trans)
qed simp

end

section \<open>Properties\<close>

text \<open>
  C30. A record command reads back exactly: once a command was admitted, reading its committed facts
  returns the facts it was given, in order and decoded, followed by its chained fact, in every later
  store, whatever other commands, appends and retries happened since. (The command row of the key is
  this command's own.)
\<close>

theorem record_facts_read_back:
  assumes "codec_laws env" "(record_step env)\<^sup>*\<^sup>* empty_store db"
    "admit_record_facts_internal env cj scope key snapshot facts chained claims head db = (db', Inr m)"
    "\<not> mr_replayed m"
    "\<forall>r. command_by_key db scope key = Some r \<longrightarrow> cr_command_id r = record_command_id scope key"
    "(record_step env)\<^sup>*\<^sup>* db' db''"
  shows "committed_record_facts env db'' scope key = Inr (Some (facts @ chain_fact chained (mr_chained_payload m)))"
  by (rule codec_laws.facts_read_back [OF assms])

definition sample_link :: "string option \<Rightarrow> string" where
  "sample_link prev = (case prev of None \<Rightarrow> ''genesis'' | Some p \<Rightarrow> p @ ''+'')"

definition sample_chain :: chained_record_fact where
  "sample_chain = \<lparr>ch_scope_id = ''audit'', ch_kind = ''entry'', ch_link = sample_link\<rparr>"

definition sample_facts :: "string \<Rightarrow> store \<Rightarrow> store \<times> (admit_error + materialized_record_admission)" where
  "sample_facts key = admit_record_facts_internal sample_env (\<lambda>s. ''claim:'' @ s) ''s'' key ''{}''
     [(''a'', ''note'', ''1''), (''b'', ''note'', ''2'')] (Some sample_chain)
     [\<lparr>rk_key = key @ ''-claim'', rk_snapshot = ''x''\<rparr>] None"

lemma sample_codec: "codec_laws sample_env"
  unfolding sample_env_def by (rule plain_codec.codec_laws_axioms)

lemma sample_facts_step: "record_step sample_env db (fst (sample_facts key db))"
  unfolding sample_facts_def by (rule record_step.facts)

theorem record_facts_read_back_witness:
  "committed_record_facts sample_env (fst (sample_facts ''k2'' (fst (sample_facts ''k1'' empty_store)))) ''s'' ''k1'' =
     Inr (Some [(''a'', ''note'', ''1''), (''b'', ''note'', ''2''), (''audit'', ''entry'', ''genesis'')])"
proof -
  let ?m = "\<lparr>mr_positions = [0, 0, 0], mr_replayed = False, mr_chained_payload = Some ''genesis''\<rparr>"
  have "snd (sample_facts ''k1'' empty_store) = Inr ?m" by code_simp
  then have run: "sample_facts ''k1'' empty_store = (fst (sample_facts ''k1'' empty_store), Inr ?m)"
    by (metis prod.collapse)
  have fresh: "\<forall>r. command_by_key empty_store ''s'' ''k1'' = Some r \<longrightarrow> cr_command_id r = record_command_id ''s'' ''k1''"
    by (simp add: command_by_key_def empty_store_def)
  have later: "(record_step sample_env)\<^sup>*\<^sup>* (fst (sample_facts ''k1'' empty_store))
      (fst (sample_facts ''k2'' (fst (sample_facts ''k1'' empty_store))))"
    by (rule r_into_rtranclp) (rule sample_facts_step)
  show ?thesis
    using record_facts_read_back [OF sample_codec rtranclp.rtrancl_refl run [unfolded sample_facts_def] _ fresh
      later [unfolded sample_facts_def]]
    unfolding sample_facts_def by (simp add: chain_fact_def sample_chain_def)
qed



text \<open>
  C31. A hash chain never forks (\<open>SECAUD-2\<close>): when every writer of a chained kind goes through
  \<open>append_chained_record\<close> or the chained fact of a record command, with link functions that meet the
  chain relation, the opened payloads of that kind form one chain from genesis, each linked to the one
  stored before it, whatever else the store appends in between.
\<close>

theorem chain_never_forks:
  assumes "codec_laws env" "(chain_step env scope kind R)\<^sup>*\<^sup>* empty_store db"
  shows "\<exists>ps. chain_payloads env db scope kind = map Some ps \<and> linked R None ps"
proof -
  have "increasing empty_store \<and> chained_log env empty_store scope kind R"
    by (simp add: chained_log_def chain_payloads_def empty_store_def scope_rows_def increasing_def)
  with assms(2) have "increasing db \<and> chained_log env db scope kind R"
    by (induction rule: rtranclp_induct) (use codec_laws.chain_step_inv [OF assms(1)] in blast)+
  then show ?thesis by (simp add: chained_log_def)
qed

theorem chain_never_forks_witness:
  "\<exists>ps. chain_payloads sample_env
       (fst (sample_facts ''k'' (fst (append_chained_record sample_env ''audit'' ''entry'' sample_link empty_store))))
       ''audit'' ''entry'' = map Some ps \<and> linked (\<lambda>prev p. p = sample_link prev) None ps \<and> length ps = 2"
proof -
  let ?a = "fst (append_chained_record sample_env ''audit'' ''entry'' sample_link empty_store)"
  let ?R = "\<lambda>prev p. p = sample_link prev"
  have 1: "chain_step sample_env ''audit'' ''entry'' ?R empty_store ?a" by (rule chain_step.chained) simp
  have 2: "chain_step sample_env ''audit'' ''entry'' ?R ?a (fst (sample_facts ''k'' ?a))"
    unfolding sample_facts_def by (rule chain_step.facts) (simp_all add: sample_chain_def off_chain_def)
  from 1 2 have steps: "(chain_step sample_env ''audit'' ''entry'' ?R)\<^sup>*\<^sup>* empty_store (fst (sample_facts ''k'' ?a))" by auto
  have "length (chain_payloads sample_env (fst (sample_facts ''k'' ?a)) ''audit'' ''entry'') = 2" by code_simp
  with chain_never_forks [OF sample_codec steps] show ?thesis by (metis length_map)
qed

text \<open>A head the codec cannot open counts as no head: the next link is a genesis link.\<close>

lemma chain_restarts_on_unavailable_head:
  assumes "codec env = Some cc" "filter (\<lambda>r. ev_kind r = kind) (rev (scope_events db scope)) = r # rs"
    "cc_decode cc scope kind (ev_payload r) = None"
  shows "tx_chain_head env db scope kind = None"
  using assms by (simp add: tx_chain_head_def)

end
