(* ===== verification/Store_Request.thy ===== *)
theory Store_Request
  imports Store_Commands
begin

text \<open>
  Request admission, \<open>crates/store/src/request_admission.rs\<close>: stable caller intent under a key, with a
  command materialized once from the current fold. The request snapshot is a record; its JSON form is
  a parameter, and JSON values (the intent, the materialized command) are their canonical text.
\<close>

section \<open>Snapshots\<close>

record request_snapshot =
  rq_v :: u8
  rq_kind :: string
  rq_request :: string
  rq_materialized :: "string option"
  rq_binding :: "(string \<times> string) option"

datatype request_admission_status_answer = RequestApplied | RequestRejected

definition request_command_id :: "string \<Rightarrow> string \<Rightarrow> string" where
  "request_command_id scope key = ''request-command:'' @ decimal (length scope) @ '':'' @ scope @ key"

definition request_version :: "bool \<Rightarrow> u8" where
  "request_version protected = (if protected then 2 else 1)"

definition request_binding :: "bool \<Rightarrow> string \<Rightarrow> string \<Rightarrow> (string \<times> string) option" where
  "request_binding protected scope key = (if protected then Some (scope, key) else None)"

section \<open>Recovery\<close>

definition request_admission_status ::
  "request_snapshot serde \<Rightarrow> ('s, 'c, 'e) lifecycle \<Rightarrow> store \<Rightarrow> string \<Rightarrow> string \<Rightarrow> string
     \<Rightarrow> admit_error + request_admission_status_answer option" where
  "request_admission_status sd L db scope key intent =
     (case command_by_key db scope key of
        None \<Rightarrow> Inr None
      | Some r \<Rightarrow>
          (case from_json sd (cr_snapshot_json r) of
             None \<Rightarrow> Inl Json
           | Some snap \<Rightarrow>
               if rq_v snap \<noteq> 1 \<or> rq_binding snap \<noteq> None
               then Inl (UnsupportedSchema ''command request snapshot'')
               else if rq_kind snap \<noteq> lc_kind L \<or> rq_request snap \<noteq> intent
               then Inl (Rejected (Rejection ''request recovery identity does not match''))
               else if cr_status r = ''applied'' \<and> rq_materialized snap \<noteq> None then Inr (Some RequestApplied)
               else if cr_status r = ''rejected'' then Inr (Some RequestRejected)
               else Inr None))"

section \<open>Admission\<close>

text \<open>The writer: scope, key, protected mode, and the answers of its validity check when the
  transaction starts and before it commits.\<close>

record request_writer =
  rw_scope :: string
  rw_key :: string
  rw_protected :: bool
  rw_check_start :: "admit_error + unit"
  rw_check_commit :: "admit_error + unit"

definition open_snapshot :: "store_env \<Rightarrow> string \<Rightarrow> string \<Rightarrow> bool \<Rightarrow> string \<Rightarrow> admit_error + string" where
  "open_snapshot env scope kind protected text =
     (if protected then
        (case codec env of
           None \<Rightarrow> Inl (Codec ''protected request snapshot unavailable'')
         | Some cc \<Rightarrow>
             (case cc_decode cc scope kind text of
                None \<Rightarrow> Inl (Codec ''protected request snapshot unavailable'') | Some plain \<Rightarrow> Inr plain))
      else Inr text)"

definition seal_snapshot :: "store_env \<Rightarrow> string \<Rightarrow> string \<Rightarrow> bool \<Rightarrow> string \<Rightarrow> admit_error + string" where
  "seal_snapshot env scope kind protected text =
     (if protected then
        and_then (encode_payload env scope kind text)
          (\<lambda>encoded. if encoded = text then Inl (Codec ''protected request kind has no content protection'')
                     else Inr encoded)
      else Inr text)"

text \<open>The row of an earlier request under the key: a replay, or a refusal.\<close>

definition answer_previous ::
  "store_env \<Rightarrow> request_snapshot serde \<Rightarrow> ('s, 'c, 'e) lifecycle \<Rightarrow> request_writer \<Rightarrow> string \<Rightarrow> 's \<Rightarrow> command_record
     \<Rightarrow> store \<Rightarrow> admit_error + (store \<times> (admit_error + 's materialized_admission))" where
  "answer_previous env sd L w intent state r db =
     and_then (open_snapshot env (rw_scope w) (lc_kind L) (rw_protected w) (cr_snapshot_json r)) (\<lambda>text.
       case from_json sd text of
         None \<Rightarrow> Inl Json
       | Some snap \<Rightarrow>
           if rq_v snap \<noteq> request_version (rw_protected w) \<or>
              rq_binding snap \<noteq> request_binding (rw_protected w) (rw_scope w) (rw_key w)
           then Inl (UnsupportedSchema ''command request snapshot'')
           else if rq_kind snap \<noteq> lc_kind L \<or> rq_request snap \<noteq> intent
           then Inl (Rejected (Rejection ''idempotency key reused with different request''))
           else if find_receipt db (rw_scope w) (rw_key w) \<noteq> None \<and> cr_status r = ''applied'' \<and>
                   rq_materialized snap \<noteq> None
           then and_then (rw_check_commit w) (\<lambda>_. Inr (db, Inr \<lparr>ma_state = state, ma_replayed = True\<rparr>))
           else Inl (Rejected (Rejection ''request already rejected or incomplete; submit with a new key'')))"

text \<open>A new request: record it with its decision, then its events and receipt.\<close>

definition admit_new ::
  "store_env \<Rightarrow> request_snapshot serde \<Rightarrow> ('c \<Rightarrow> string) \<Rightarrow> ('s, 'c, 'e) lifecycle \<Rightarrow> request_writer \<Rightarrow> string
     \<Rightarrow> ('s \<Rightarrow> 'c outcome) \<Rightarrow> 's \<Rightarrow> store \<Rightarrow> admit_error + (store \<times> (admit_error + 's materialized_admission))" where
  "admit_new env sd value_of L w intent materialize state db =
     (let prepared = materialize state;
          decision = and_then prepared (lc_decide L state);
          snapshot = to_json sd \<lparr>rq_v = request_version (rw_protected w), rq_kind = lc_kind L, rq_request = intent,
            rq_materialized = (case prepared of Inl _ \<Rightarrow> None | Inr c \<Rightarrow> Some (value_of c)),
            rq_binding = request_binding (rw_protected w) (rw_scope w) (rw_key w)\<rparr> in
      and_then (seal_snapshot env (rw_scope w) (lc_kind L) (rw_protected w) snapshot) (\<lambda>stored.
      and_then (insert_command \<lparr>cr_command_id = request_command_id (rw_scope w) (rw_key w), cr_scope_id = rw_scope w,
          cr_idempotency_key = rw_key w,
          cr_status = (case decision of Inl _ \<Rightarrow> ''rejected'' | Inr _ \<Rightarrow> ''applied''),
          cr_snapshot_json = stored\<rparr> db) (\<lambda>db1.
      case decision of
        Inl r \<Rightarrow> and_then (rw_check_commit w) (\<lambda>_. Inr (db1, Inl (Rejected r)))
      | Inr es \<Rightarrow>
          let base = next_position db1 (rw_scope w) in
          and_then (append_events env L (rw_scope w) base es state db1) (\<lambda>(db2, new_state).
          and_then (insert_receipt (rw_scope w) (rw_key w) base db2) (\<lambda>db3.
          and_then (snapshot_checkpoint env L (rw_scope w) new_state db3) (\<lambda>db4.
          and_then (rw_check_commit w) (\<lambda>_. Inr (db4, Inr \<lparr>ma_state = new_state, ma_replayed = False\<rparr>))))))))"

text \<open>\<open>commit_request\<close>. An inner \<open>Inl\<close> is the error of a transaction that committed: the recorded
  rejection.\<close>

definition commit_request ::
  "store_env \<Rightarrow> request_snapshot serde \<Rightarrow> ('c \<Rightarrow> string) \<Rightarrow> ('s, 'c, 'e) lifecycle \<Rightarrow> request_writer \<Rightarrow> string
     \<Rightarrow> ('s \<Rightarrow> unit outcome) \<Rightarrow> ('s \<Rightarrow> 'c outcome) \<Rightarrow> store \<Rightarrow> store \<times> (admit_error + 's materialized_admission)" where
  "commit_request env sd value_of L w intent authorize materialize db =
     (case in_tx db
        (and_then (rw_check_start w) (\<lambda>_.
         if rw_protected w \<and> codec env = None then Inl (Codec ''protected request requires a content codec'')
         else and_then (store_fold env L db (rw_scope w)) (\<lambda>state.
           case authorize state of
             Inl r \<Rightarrow> Inl (Rejected r)
           | Inr _ \<Rightarrow>
               (case command_by_key db (rw_scope w) (rw_key w) of
                  Some r \<Rightarrow> answer_previous env sd L w intent state r db
                | None \<Rightarrow>
                    if find_receipt db (rw_scope w) (rw_key w) \<noteq> None
                    then Inl (Rejected (Rejection ''receipt has no exact request binding''))
                    else admit_new env sd value_of L w intent materialize state db)))) of
        (db', Inl e) \<Rightarrow> (db', Inl e)
      | (db', Inr result) \<Rightarrow> (db', result))"

definition admit_request ::
  "store_env \<Rightarrow> request_snapshot serde \<Rightarrow> ('c \<Rightarrow> string) \<Rightarrow> ('s, 'c, 'e) lifecycle \<Rightarrow> string \<Rightarrow> string \<Rightarrow> string
     \<Rightarrow> ('s \<Rightarrow> unit outcome) \<Rightarrow> ('s \<Rightarrow> 'c outcome) \<Rightarrow> store \<Rightarrow> store \<times> (admit_error + 's materialized_admission)" where
  "admit_request env sd value_of L scope key intent authorize materialize db =
     commit_request env sd value_of L
       \<lparr>rw_scope = scope, rw_key = key, rw_protected = False, rw_check_start = Inr (), rw_check_commit = Inr ()\<rparr>
       intent authorize materialize db"

section \<open>A request is settled once\<close>

definition request_row ::
  "request_snapshot serde \<Rightarrow> ('s, 'c, 'e) lifecycle \<Rightarrow> string \<Rightarrow> string \<Rightarrow> string \<Rightarrow> string option \<Rightarrow> string \<Rightarrow> command_record" where
  "request_row sd L scope key intent materialized status =
     \<lparr>cr_command_id = request_command_id scope key, cr_scope_id = scope, cr_idempotency_key = key, cr_status = status,
      cr_snapshot_json = to_json sd \<lparr>rq_v = 1, rq_kind = lc_kind L, rq_request = intent,
        rq_materialized = materialized, rq_binding = None\<rparr>\<rparr>"

lemma command_by_key_new:
  assumes "command_by_key db (cr_scope_id row) (cr_idempotency_key row) = None" "insert_command row db = Inr db'"
  shows "command_by_key db' (cr_scope_id row) (cr_idempotency_key row) = Some row"
  using assms by (auto simp: insert_command_def command_by_key_def find_append split: if_splits)

text \<open>What the row of a settled request answers: recovery, and every retry.\<close>

lemma request_retry:
  assumes rt: "\<And>x. from_json sd (to_json sd x) = Some x"
    and row: "command_by_key db scope key = Some (request_row sd L scope key intent materialized status)"
    and fold: "store_fold env L db scope = Inr s"
  shows "admit_request env sd vo L scope key intent authorize materialize db =
    (case authorize s of
       Inl r \<Rightarrow> (db, Inl (Rejected r))
     | Inr _ \<Rightarrow>
         if find_receipt db scope key \<noteq> None \<and> status = ''applied'' \<and> materialized \<noteq> None
         then (db, Inr \<lparr>ma_state = s, ma_replayed = True\<rparr>)
         else (db, Inl (Rejected (Rejection ''request already rejected or incomplete; submit with a new key''))))"
    and "intent' \<noteq> intent \<Longrightarrow> authorize s = Inr u \<Longrightarrow>
      admit_request env sd vo L scope key intent' authorize materialize db =
        (db, Inl (Rejected (Rejection ''idempotency key reused with different request'')))"
  using row fold
  by (auto simp: admit_request_def commit_request_def answer_previous_def open_snapshot_def request_row_def
    request_version_def request_binding_def rt split: sum.splits)

lemma request_status:
  assumes rt: "\<And>x. from_json sd (to_json sd x) = Some x"
    and row: "command_by_key db scope key = Some (request_row sd L scope key intent materialized status)"
  shows "request_admission_status sd L db scope key intent =
    Inr (if status = ''applied'' \<and> materialized \<noteq> None then Some RequestApplied
         else if status = ''rejected'' then Some RequestRejected else None)"
  using row by (auto simp: request_admission_status_def request_row_def rt)

text \<open>The effects of an accepted request are those of the keyed admission.\<close>

lemma admit_new_applied:
  assumes "materialize s = Inr c" "lc_decide L s c = Inr es" "store_fold env L db scope = Inr s"
    "find_receipt db scope key = None" "insert_command (request_row sd L scope key intent (Some (vo c)) ''applied'') db = Inr db1"
  shows "admit_new env sd vo L
      \<lparr>rw_scope = scope, rw_key = key, rw_protected = False, rw_check_start = Inr (), rw_check_commit = Inr ()\<rparr>
      intent materialize s db =
    (case admit_with_key env L scope key c db1 of
       (db2, Inr t) \<Rightarrow> Inr (db2, Inr \<lparr>ma_state = t, ma_replayed = False\<rparr>) | (db2, Inl e) \<Rightarrow> Inl e)"
proof -
  have db1: "events db1 = events db" "scope_snapshots db1 = scope_snapshots db" "command_receipts db1 = command_receipts db"
    using assms(5) by (auto simp: insert_command_def split: if_splits)
  have "find_receipt db1 scope key = None" "store_fold env L db1 scope = Inr s"
    using assms(3,4) store_fold_cong [OF db1(1,2), of env L scope] find_receipt_cong [OF db1(3)] by auto
  with assms show ?thesis
    by (auto simp: admit_new_def seal_snapshot_def request_row_def request_version_def request_binding_def
      admit_with_key_def in_tx_def Let_def and_then_def split: sum.splits)
qed

text \<open>A request under a fresh key, decided: what is recorded.\<close>

lemma request_rejected:
  assumes "store_fold env L db scope = Inr s" "authorize s = Inr u" "command_by_key db scope key = None"
    "find_receipt db scope key = None" "and_then (materialize s) (lc_decide L s) = Inl r"
    "admit_request env sd vo L scope key intent authorize materialize db = (db', res)"
  shows "db' = db \<and> res = Inl (Db ConstraintViolation) \<or>
    res = Inl (Rejected r) \<and> events db' = events db \<and> scope_snapshots db' = scope_snapshots db \<and>
    command_receipts db' = command_receipts db \<and>
    (\<exists>x. command_by_key db' scope key = Some (request_row sd L scope key intent x ''rejected''))"
proof -
  define x where "x = (case materialize s of Inl _ \<Rightarrow> None | Inr c \<Rightarrow> Some (vo c))"
  let ?row = "request_row sd L scope key intent x ''rejected''"
  have row: "cr_scope_id ?row = scope" "cr_idempotency_key ?row = key" by (simp_all add: request_row_def)
  show ?thesis
  proof (cases "insert_command ?row db")
    case (Inl e)
    then have "e = Db ConstraintViolation" by (auto simp: insert_command_def split: if_splits)
    with Inl assms show ?thesis
      by (simp add: admit_request_def commit_request_def admit_new_def seal_snapshot_def request_row_def
        request_version_def request_binding_def x_def Let_def)
  next
    case (Inr db1)
    then have "db' = db1 \<and> res = Inl (Rejected r)"
      using assms
      by (simp add: admit_request_def commit_request_def admit_new_def seal_snapshot_def request_row_def
        request_version_def request_binding_def x_def Let_def)
    with command_by_key_new [of db ?row db1] Inr assms(3) row show ?thesis
      by (auto simp: insert_command_def split: if_splits)
  qed
qed

context store_laws
begin

lemma request_applied:
  assumes "increasing db" "checkpoints_sound env L db"
    "store_fold env L db scope = Inr s" "authorize s = Inr u" "command_by_key db scope key = None"
    "find_receipt db scope key = None" "materialize s = Inr c" "lc_decide L s c = Inr es"
    "admit_request env sd vo L scope key intent authorize materialize db = (db', res)"
  shows "db' = db \<and> (\<exists>e. res = Inl e) \<or>
    res = Inr \<lparr>ma_state = lc_fold L s es, ma_replayed = False\<rparr> \<and>
    store_fold env L db' scope = Inr (lc_fold L s es) \<and> find_receipt db' scope key \<noteq> None \<and>
    command_by_key db' scope key = Some (request_row sd L scope key intent (Some (vo c)) ''applied'')"
proof (cases "insert_command (request_row sd L scope key intent (Some (vo c)) ''applied'') db")
  case (Inl e)
  with assms(3-9) show ?thesis
    by (auto simp: admit_request_def commit_request_def admit_new_def seal_snapshot_def request_row_def
      request_version_def request_binding_def Let_def)
next
  case (Inr db1)
  let ?row = "request_row sd L scope key intent (Some (vo c)) ''applied''"
  have row: "cr_scope_id ?row = scope" "cr_idempotency_key ?row = key" by (simp_all add: request_row_def)
  have db1: "events db1 = events db" "scope_snapshots db1 = scope_snapshots db" "command_receipts db1 = command_receipts db"
    using Inr by (auto simp: insert_command_def split: if_splits)
  have sound: "increasing db1" "checkpoints_sound env L db1"
    using assms(1,2) increasing_cong [OF db1(1)] checkpoints_sound_cong [OF db1(1,2)] by auto
  have s: "store_fold env L db1 scope = Inr s" "find_receipt db1 scope key = None"
    using assms(3,6) store_fold_cong [OF db1(1,2), of env L scope] find_receipt_cong [OF db1(3)] by auto
  have call: "(db', res) = (case (case admit_with_key env L scope key c db1 of
       (db2, Inr t) \<Rightarrow> (db2, Inr (Inr \<lparr>ma_state = t, ma_replayed = False\<rparr>)) | (db2, Inl e) \<Rightarrow> (db, Inl e)) of
       (db', Inl e) \<Rightarrow> (db', Inl e) | (db', Inr result) \<Rightarrow> (db', result))"
    using assms(3-6,9) admit_new_applied [where vo = vo and materialize = materialize and s = s, OF assms(7,8,3,6) Inr]
    by (auto simp: admit_request_def commit_request_def in_tx_def split: prod.splits sum.splits)
  from sound show ?thesis
  proof (cases rule: admit_with_key_cases [of db1 scope key c])
    case (applied t fs stored db2)
    with s assms(8) have "db' = db2" "res = Inr \<lparr>ma_state = lc_fold L s es, ma_replayed = False\<rparr>" "t = s" "fs = es"
      using call by auto
    moreover have "find_receipt db2 scope key \<noteq> None" using applied(7) by (auto simp: find_receipt_iff)
    moreover have "command_by_key db2 scope key = Some ?row"
      using command_by_key_new [of db ?row db1] Inr assms(5) row applied(8) by (simp add: other_tables_def command_by_key_def)
    ultimately show ?thesis using applied(11) by simp
  qed (use call s in auto)
qed

end

section \<open>Property\<close>

text \<open>
  C33. A request is settled once and stays settled: when an authorized request under a fresh key is
  accepted, its recovery status is \<open>Applied\<close> and every retry, however it would materialize now, returns
  the current state as a replay and changes no table; when it is rejected, nothing was appended or
  receipted, its recovery status is \<open>Rejected\<close> and every retry is refused; a retry that current
  authorization refuses is refused with that reason; another intent under the key is refused.
\<close>

theorem request_settled_once:
  assumes "store_laws env L" "store_reach env L P db" "\<forall>x. from_json sd (to_json sd x) = Some x"
    and fresh: "command_by_key db scope key = None" "find_receipt db scope key = None"
    and fold: "store_fold env L db scope = Inr s" "authorize s = Inr ()"
    and run: "admit_request env sd vo L scope key intent authorize materialize db = (db', res)" "db' \<noteq> db"
  shows "\<exists>t. store_fold env L db' scope = Inr t \<and>
    (\<forall>auth' mat' r. auth' t = Inl r \<longrightarrow>
       admit_request env sd vo L scope key intent auth' mat' db' = (db', Inl (Rejected r))) \<and>
    (\<forall>auth' mat' intent'. auth' t = Inr () \<longrightarrow> intent' \<noteq> intent \<longrightarrow>
       admit_request env sd vo L scope key intent' auth' mat' db' =
         (db', Inl (Rejected (Rejection ''idempotency key reused with different request'')))) \<and>
    (case and_then (materialize s) (lc_decide L s) of
       Inr es \<Rightarrow> t = lc_fold L s es \<and> res = Inr \<lparr>ma_state = t, ma_replayed = False\<rparr> \<and>
         request_admission_status sd L db' scope key intent = Inr (Some RequestApplied) \<and>
         (\<forall>auth' mat'. auth' t = Inr () \<longrightarrow>
            admit_request env sd vo L scope key intent auth' mat' db' = (db', Inr \<lparr>ma_state = t, ma_replayed = True\<rparr>))
     | Inl r \<Rightarrow> t = s \<and> res = Inl (Rejected r) \<and> events db' = events db \<and> command_receipts db' = command_receipts db \<and>
         request_admission_status sd L db' scope key intent = Inr (Some RequestRejected) \<and>
         (\<forall>auth' mat'. auth' t = Inr () \<longrightarrow> admit_request env sd vo L scope key intent auth' mat' db' =
            (db', Inl (Rejected (Rejection ''request already rejected or incomplete; submit with a new key'')))))"
proof (cases "and_then (materialize s) (lc_decide L s)")
  case (Inl r)
  with request_rejected [where s = s and materialize = materialize and authorize = authorize, OF fold fresh Inl run(1)] run(2) obtain x where
    row: "command_by_key db' scope key = Some (request_row sd L scope key intent x ''rejected'')"
    and tables: "res = Inl (Rejected r)" "events db' = events db" "scope_snapshots db' = scope_snapshots db"
      "command_receipts db' = command_receipts db" by blast
  have "store_fold env L db' scope = Inr s" using fold(1) store_fold_cong [OF tables(2,3), of env L scope] by simp
  with request_retry [OF assms(3) [rule_format] row, where vo = vo] request_status [OF assms(3) [rule_format] row] tables Inl
  show ?thesis by (intro exI [of _ s]) auto
next
  case (Inr es)
  then obtain c where c: "materialize s = Inr c" "lc_decide L s c = Inr es" by (auto simp: and_then_Inr)
  from store_laws.request_applied [where s = s and c = c and materialize = materialize and authorize = authorize and vo = vo,
    OF assms(1) store_laws.reach_sound [OF assms(1,2)] fold fresh c run(1)] run(2)
  have a: "res = Inr \<lparr>ma_state = lc_fold L s es, ma_replayed = False\<rparr>"
    "store_fold env L db' scope = Inr (lc_fold L s es)" "find_receipt db' scope key \<noteq> None"
    and row: "command_by_key db' scope key = Some (request_row sd L scope key intent (Some (vo c)) ''applied'')" by blast+
  with request_retry [OF assms(3) [rule_format] row a(2), where vo = vo] request_status [OF assms(3) [rule_format] row] Inr
  show ?thesis by (intro exI [of _ "lc_fold L s es"]) auto
qed

text \<open>A text form of request snapshots that reads back.\<close>

fun put :: "string \<Rightarrow> string" where
  "put [] = ''0''"
| "put (c # s) = CHR ''1'' # c # put s"

fun get :: "string \<Rightarrow> string \<times> string" where
  "get (CHR ''1'' # c # t) = (let (s, r) = get t in (c # s, r))"
| "get t = ([], tl t)"

lemma get_put [simp]: "get (put s @ r) = (s, r)"
  by (induction s) simp_all

definition sample_request_serde :: "request_snapshot serde" where
  "sample_request_serde =
     \<lparr>to_json = (\<lambda>x. put (replicate (unat (rq_v x)) CHR ''v'') @ put (rq_kind x) @ put (rq_request x) @
        put (case rq_materialized x of None \<Rightarrow> [] | Some m \<Rightarrow> CHR ''m'' # m) @
        put (case rq_binding x of None \<Rightarrow> [] | Some (a, b) \<Rightarrow> CHR ''b'' # a) @
        put (case rq_binding x of None \<Rightarrow> [] | Some (a, b) \<Rightarrow> b)),
      from_json = (\<lambda>t. let (v, t) = get t; (kind, t) = get t; (request, t) = get t; (m, t) = get t;
          (a, t) = get t; (b, t) = get t in
        Some \<lparr>rq_v = word_of_nat (length v), rq_kind = kind, rq_request = request,
          rq_materialized = (case m of [] \<Rightarrow> None | _ # m \<Rightarrow> Some m),
          rq_binding = (case a of [] \<Rightarrow> None | _ # a \<Rightarrow> Some (a, b))\<rparr>)\<rparr>"

lemma sample_request_roundtrip: "from_json sample_request_serde (to_json sample_request_serde x) = Some x"
proof -
  have last: "get (put b) = (b, [])" for b using get_put [of b "[]"] by simp
  show ?thesis
    by (cases x) (simp add: sample_request_serde_def last split: option.splits prod.splits)
qed

definition sample_request ::
  "(handoff_state \<Rightarrow> unit outcome) \<Rightarrow> handoff_command \<Rightarrow> store \<Rightarrow> store \<times> (admit_error + handoff_state materialized_admission)" where
  "sample_request authorize c = admit_request sample_env sample_request_serde command_name checkpointed_handoff
     ''p'' ''r1'' ''intent'' authorize (\<lambda>_. Inr c)"

theorem request_settled_once_witness:
  "let db' = fst (sample_request (\<lambda>_. Inr ()) CommitHandoff sample_store) in
     request_admission_status sample_request_serde checkpointed_handoff db' ''p'' ''r1'' ''intent'' = Inr (Some RequestApplied) \<and>
     sample_request (\<lambda>_. Inl (Rejection ''revoked'')) CommitHandoff db' = (db', Inl (Rejected (Rejection ''revoked'')))"
proof -
  let ?r = "sample_request (\<lambda>_. Inr ()) CommitHandoff sample_store"
  let ?s = "\<lparr>phase = LogSynced, home = Origin, target_has_log = True, target_has_content = True, sealed = False\<rparr>"
  have fresh: "command_by_key sample_store ''p'' ''r1'' = None" "find_receipt sample_store ''p'' ''r1'' = None" by code_simp+
  have fold: "store_fold sample_env checkpointed_handoff sample_store ''p'' = Inr ?s" by code_simp
  have "length (events (fst ?r)) = 4" "length (events sample_store) = 3" by code_simp+
  then have moved: "fst ?r \<noteq> sample_store" by auto
  have ok: "and_then ((\<lambda>_. Inr CommitHandoff) ?s) (lc_decide checkpointed_handoff ?s) = Inr [HandoffCommitted]"
    by (simp add: checkpointed_handoff_def)
  from request_settled_once [where vo = command_name and materialize = "\<lambda>_. Inr CommitHandoff" and authorize = "\<lambda>_. Inr ()",
      OF sample_laws sample_reach allI [OF sample_request_roundtrip] fresh fold refl
      prod.collapse [symmetric, of ?r, unfolded sample_request_def] moved [unfolded sample_request_def]]
  show ?thesis unfolding ok sample_request_def Let_def by auto
qed

end
