(* ===== verification/Store_Archive.thy ===== *)
theory Store_Archive
  imports Store_Facts Store_Request "HOL-Library.Product_Lexorder"
begin

text \<open>
  The command-scope archive of \<open>command_scope_archive.rs\<close>: reading the complete rows of a scope, checking
  an archive, exporting and importing it. The column \<open>updated_at\<close> of the commands table, which no other
  statement reads, is not kept in the rows; the value it has for each command identity is the argument
  \<open>at\<close> of the operations that read it. The last part closes the invariant of the log under every
  modelled operation that writes an event, the import included.
\<close>

section \<open>Archives\<close>

record archive_command =
  ac_id :: string
  ac_key :: string
  ac_status :: string
  ac_snapshot :: string
  ac_updated_at :: string

record archive_scope =
  as_id :: string
  as_events :: "(int \<times> string \<times> string) list"
  as_commands :: "archive_command list"
  as_receipts :: "(string \<times> int) list"
  as_fact_sets :: "(string \<times> int) list"
  as_fact_refs :: "(string \<times> int \<times> string \<times> int) list"

record command_scope_archive =
  ca_protocol :: string
  ca_scopes :: "archive_scope list"

definition ARCHIVE_PROTOCOL :: string where "ARCHIVE_PROTOCOL = ''gaugedesk.command-scope-archive.v2''"
definition LEGACY_PROTOCOL :: string where "LEGACY_PROTOCOL = ''gaugedesk.command-scope-archive.v1''"

section \<open>Validation\<close>

fun coordinates_valid :: "int option \<Rightarrow> (int \<times> string \<times> string) list \<Rightarrow> bool" where
  "coordinates_valid position [] = True"
| "coordinates_valid position ((n, kind, p) # es) =
     (if n < 0 \<or> (case position of None \<Rightarrow> False | Some old \<Rightarrow> n \<le> old) \<or> kind = [] then False
      else coordinates_valid (Some n) es)"

definition commands_valid :: "archive_command list \<Rightarrow> bool" where
  "commands_valid cs \<longleftrightarrow> list_all (\<lambda>c. ac_id c \<noteq> [] \<and> ac_key c \<noteq> [] \<and> ac_status c \<in> set command_statuses) cs \<and>
     distinct (map ac_key cs) \<and> distinct (map ac_id cs)"

definition receipts_valid :: "(string \<times> int) list \<Rightarrow> bool" where
  "receipts_valid rs \<longleftrightarrow> list_all (\<lambda>(key, at). key \<noteq> [] \<and> 0 \<le> at) rs \<and> distinct (map fst rs)"

definition refs_of :: "(string \<times> int \<times> string \<times> int) list \<Rightarrow> string \<Rightarrow> (string \<times> int \<times> string \<times> int) list" where
  "refs_of refs key = filter (\<lambda>(k, _). k = key) refs"

fun check_fact_sets ::
  "(string \<times> int) list \<Rightarrow> (string \<times> int \<times> string \<times> int) list \<Rightarrow> (string \<times> int) list \<Rightarrow> admit_error + unit" where
  "check_fact_sets receipts refs [] = Inr ()"
| "check_fact_sets receipts refs ((key, count) # sets) =
     (if count < 0 \<or> key \<notin> fst ` set receipts then refused ''command archive has an unreceipted fact set''
      else if int (length (refs_of refs key)) \<noteq> count \<or>
        map (\<lambda>(_, i, _). i) (refs_of refs key) \<noteq> map int [0..<length (refs_of refs key)]
      then refused ''command archive has incomplete fact coordinates''
      else check_fact_sets receipts refs sets)"

definition ref_coordinate :: "string \<times> int \<times> string \<times> int \<Rightarrow> string \<times> int" where
  "ref_coordinate r = (fst r, fst (snd r))"

definition check_scope :: "archive_scope \<Rightarrow> admit_error + unit" where
  "check_scope scope =
     (if \<not> coordinates_valid None (as_events scope) then refused ''command archive has invalid event coordinates''
      else if \<not> successively (\<lambda>a b. ac_key a < ac_key b) (as_commands scope) \<or>
        \<not> successively (\<lambda>a b. fst a < fst b) (as_receipts scope)
      then refused ''command archive has noncanonical command order''
      else if \<not> commands_valid (as_commands scope) then refused ''command archive has invalid command state''
      else if \<not> receipts_valid (as_receipts scope) then refused ''command archive has invalid receipt''
      else if list_ex (\<lambda>c. ac_status c = ''applied'' \<and> ac_key c \<notin> fst ` set (as_receipts scope)) (as_commands scope)
      then refused ''applied command is missing its original receipt''
      else if \<not> successively (\<lambda>a b. fst a < fst b) (as_fact_sets scope) \<or> 
        \<not> successively (\<lambda>a b. ref_coordinate a < ref_coordinate b) (as_fact_refs scope)
      then refused ''command archive has noncanonical fact coordinates''
      else and_then (check_fact_sets (as_receipts scope) (as_fact_refs scope) (as_fact_sets scope)) (\<lambda>_.
        if list_ex (\<lambda>r. fst r \<notin> fst ` set (as_fact_sets scope)) (as_fact_refs scope)
        then refused ''command archive has an orphaned fact coordinate''
        else Inr ()))"

fun check_scopes :: "(string \<Rightarrow> bool) \<Rightarrow> string option \<Rightarrow> archive_scope list \<Rightarrow> admit_error + unit" where
  "check_scopes allowed previous [] = Inr ()"
| "check_scopes allowed previous (scope # scopes) =
     (if blank (as_id scope) \<or> \<not> allowed (as_id scope) \<or> (case previous of None \<Rightarrow> False | Some p \<Rightarrow> as_id scope \<le> p)
      then refused ''command archive has unselected or repeated scope''
      else and_then (check_scope scope) (\<lambda>_. check_scopes allowed (Some (as_id scope)) scopes))"

fun check_links :: "(string \<times> int) set \<Rightarrow> (string \<times> int) set \<Rightarrow> (string \<times> int \<times> string \<times> int) list \<Rightarrow> admit_error + unit" where
  "check_links known seen [] = Inr ()"
| "check_links known seen ((_, _, s, p) # refs) =
     (if (s, p) \<notin> known \<or> (s, p) \<in> seen then refused ''command archive has a missing or repeated fact event''
      else check_links known (insert (s, p) seen) refs)"

definition archive_events :: "command_scope_archive \<Rightarrow> (string \<times> int) set" where
  "archive_events a = set (concat (map (\<lambda>s. map (\<lambda>(n, _). (as_id s, n)) (as_events s)) (ca_scopes a)))"

definition validate_archive :: "command_scope_archive \<Rightarrow> (string \<Rightarrow> bool) \<Rightarrow> admit_error + unit" where
  "validate_archive a allowed =
     (if ca_protocol a \<noteq> ARCHIVE_PROTOCOL \<and> ca_protocol a \<noteq> LEGACY_PROTOCOL
      then refused ''unsupported command scope archive''
      else if ca_protocol a = LEGACY_PROTOCOL \<and> list_ex (\<lambda>s. as_fact_sets s \<noteq> [] \<or> as_fact_refs s \<noteq> []) (ca_scopes a)
      then refused ''legacy command archive carries newer fact coordinates''
      else and_then (check_scopes allowed None (ca_scopes a)) (\<lambda>_.
        check_links (archive_events a) {} (concat (map as_fact_refs (ca_scopes a)))))"

section \<open>Reading, exporting, importing\<close>

fun read_rows :: "store_env \<Rightarrow> string \<Rightarrow> event_row list \<Rightarrow> admit_error + (int \<times> string \<times> string) list" where
  "read_rows env scope [] = Inr []"
| "read_rows env scope (r # rs) =
     (case decode_payload env scope (ev_kind r) (ev_payload r) of
        None \<Rightarrow> Inl (Codec ''command scope has unavailable retained evidence'')
      | Some plain \<Rightarrow> and_then (read_rows env scope rs) (\<lambda>es. Inr ((ev_position r, ev_kind r, plain) # es)))"

definition read_scope :: "store_env \<Rightarrow> (string \<Rightarrow> string) \<Rightarrow> store \<Rightarrow> string \<Rightarrow> admit_error + archive_scope" where
  "read_scope env at db scope =
     and_then (read_rows env scope (scope_events db scope)) (\<lambda>es. Inr
       \<lparr>as_id = scope, as_events = es,
        as_commands = map (\<lambda>r. \<lparr>ac_id = cr_command_id r, ac_key = cr_idempotency_key r, ac_status = cr_status r,
            ac_snapshot = cr_snapshot_json r, ac_updated_at = at (cr_command_id r)\<rparr>)
          (sort_key cr_idempotency_key (filter (\<lambda>r. cr_scope_id r = scope) (commands db))),
        as_receipts = map (\<lambda>r. (rc_key r, rc_applied_at r))
          (sort_key rc_key (filter (\<lambda>r. rc_scope r = scope) (command_receipts db))),
        as_fact_sets = map (\<lambda>r. (fs_key r, fs_count r))
          (sort_key fs_key (filter (\<lambda>r. fs_scope r = scope) (record_command_fact_sets db))),
        as_fact_refs = map (\<lambda>r. (fr_key r, fr_index r, fr_event_scope r, fr_event_position r))
          (sort_key (\<lambda>r. (fr_key r, fr_index r)) (filter (\<lambda>r. fr_scope r = scope) (record_command_fact_refs db)))\<rparr>)"

definition archive_scope_ids :: "store \<Rightarrow> string list" where
  "archive_scope_ids db = sort (remdups (map ev_scope (events db) @ map cr_scope_id (commands db) @
     map rc_scope (command_receipts db) @ map fs_scope (record_command_fact_sets db) @
     map fr_scope (record_command_fact_refs db)))"

fun read_scopes :: "store_env \<Rightarrow> (string \<Rightarrow> string) \<Rightarrow> store \<Rightarrow> string list \<Rightarrow> admit_error + archive_scope list" where
  "read_scopes env at db [] = Inr []"
| "read_scopes env at db (i # is) =
     and_then (read_scope env at db i) (\<lambda>s. and_then (read_scopes env at db is) (\<lambda>ss. Inr (s # ss)))"

definition export_command_scopes ::
  "store_env \<Rightarrow> (string \<Rightarrow> string) \<Rightarrow> (string \<Rightarrow> bool) \<Rightarrow> store \<Rightarrow> admit_error + command_scope_archive" where
  "export_command_scopes env at selected db =
     and_then (read_scopes env at db (filter selected (archive_scope_ids db))) (\<lambda>scopes.
       let a = \<lparr>ca_protocol = ARCHIVE_PROTOCOL, ca_scopes = scopes\<rparr>
       in and_then (validate_archive a selected) (\<lambda>_. Inr a))"

fun insert_each :: "('a \<Rightarrow> store \<Rightarrow> admit_error + store) \<Rightarrow> 'a list \<Rightarrow> store \<Rightarrow> admit_error + store" where
  "insert_each f [] db = Inr db"
| "insert_each f (x # xs) db = and_then (f x db) (insert_each f xs)"

definition import_event :: "store_env \<Rightarrow> string \<Rightarrow> int \<times> string \<times> string \<Rightarrow> store \<Rightarrow> admit_error + store" where
  "import_event env scope e db =
     (case e of (position, kind, payload) \<Rightarrow>
        and_then (encode_payload env scope kind payload) (\<lambda>stored.
          insert_event \<lparr>ev_scope = scope, ev_position = position, ev_kind = kind, ev_payload = stored\<rparr> db))"

definition import_rows :: "store_env \<Rightarrow> archive_scope \<Rightarrow> store \<Rightarrow> admit_error + store" where
  "import_rows env scope db =
     and_then (insert_each (import_event env (as_id scope)) (as_events scope) db) (\<lambda>db1.
     and_then (insert_each (\<lambda>c. insert_command \<lparr>cr_command_id = ac_id c, cr_scope_id = as_id scope,
        cr_idempotency_key = ac_key c, cr_status = ac_status c, cr_snapshot_json = ac_snapshot c\<rparr>)
        (as_commands scope) db1) (\<lambda>db2.
     and_then (insert_each (\<lambda>(key, position). insert_receipt (as_id scope) key position) (as_receipts scope) db2) (\<lambda>db3.
     and_then (insert_each (\<lambda>(key, count). insert_fact_set \<lparr>fs_scope = as_id scope, fs_key = key, fs_count = count\<rparr>)
        (as_fact_sets scope) db3)
       (insert_each (\<lambda>(key, index, s, p). insert_fact_ref \<lparr>fr_scope = as_id scope, fr_key = key, fr_index = index,
          fr_event_scope = s, fr_event_position = p\<rparr>) (as_fact_refs scope)))))"

definition import_scope :: "store_env \<Rightarrow> (string \<Rightarrow> string) \<Rightarrow> archive_scope \<Rightarrow> store \<Rightarrow> admit_error + store" where
  "import_scope env at scope db =
     and_then (read_scope env at db (as_id scope)) (\<lambda>existing.
       if existing = scope then Inr db
       else if as_events existing \<noteq> [] \<or> as_commands existing \<noteq> [] \<or> as_receipts existing \<noteq> [] \<or>
         as_fact_sets existing \<noteq> [] \<or> as_fact_refs existing \<noteq> []
       then refused ''command scope import conflicts with existing authority''
       else import_rows env scope db)"

definition import_into ::
  "store_env \<Rightarrow> (string \<Rightarrow> string) \<Rightarrow> command_scope_archive \<Rightarrow> (string \<Rightarrow> bool) \<Rightarrow> store \<Rightarrow> admit_error + store" where
  "import_into env at a allowed db =
     and_then (validate_archive a allowed) (\<lambda>_. insert_each (import_scope env at) (ca_scopes a) db)"

definition import_command_scopes ::
  "store_env \<Rightarrow> (string \<Rightarrow> string) \<Rightarrow> command_scope_archive \<Rightarrow> (string \<Rightarrow> bool) \<Rightarrow> store \<Rightarrow> store \<times> (admit_error + unit)" where
  "import_command_scopes env at a allowed db = in_tx db (and_then (import_into env at a allowed db) (\<lambda>db'. Inr (db', ())))"

section \<open>What an import writes\<close>

text \<open>A step of the log: rows are appended, and the positions of every scope still increase.\<close>

definition log_grows :: "store \<Rightarrow> store \<Rightarrow> bool" where
  "log_grows db db' \<longleftrightarrow> extends db db' \<and> increasing db'"

lemma log_grows_trans: "log_grows a b \<Longrightarrow> log_grows b c \<Longrightarrow> log_grows a c"
  by (auto simp: log_grows_def intro: extends_trans)

lemma log_grows_refl: "increasing db \<Longrightarrow> log_grows db db"
  by (simp add: log_grows_def)

lemma log_grows_same: "increasing db \<Longrightarrow> events db' = events db \<Longrightarrow> log_grows db db'"
  using increasing_cong [of db' db] by (auto simp: log_grows_def extends_def)

lemma log_grows_rows: "increasing db \<Longrightarrow> fits db rows \<Longrightarrow> events db' = events db @ rows \<Longrightarrow> log_grows db db'"
  using increasing_rows [of db rows db'] by (auto simp: log_grows_def extends_def)

text \<open>The row of an archived event.\<close>

definition archived_row :: "store_env \<Rightarrow> string \<Rightarrow> event_row \<Rightarrow> int \<times> string \<times> string \<Rightarrow> bool" where
  "archived_row env scope r e \<longleftrightarrow> ev_scope r = scope \<and> ev_position r = fst e \<and> ev_kind r = fst (snd e) \<and>
     encode_payload env scope (fst (snd e)) (snd (snd e)) = Inr (ev_payload r)"

lemma coordinates_above:
  "coordinates_valid q es \<Longrightarrow> e \<in> set es \<Longrightarrow> 0 \<le> fst e \<and> (\<forall>old. q = Some old \<longrightarrow> old < fst e)"
  by (induction q es rule: coordinates_valid.induct) (fastforce split: if_splits option.splits)+

lemma coordinates_sorted: "coordinates_valid q es \<Longrightarrow> sorted_wrt (<) (map fst es)"
  by (induction q es rule: coordinates_valid.induct)
    (auto split: if_splits option.splits dest: coordinates_above)

lemma import_events_rows:
  "insert_each (import_event env scope) es db = Inr db' \<Longrightarrow>
     \<exists>rows. db' = append_rows rows db \<and> list_all2 (archived_row env scope) rows es"
proof (induction es arbitrary: db)
  case (Cons e es)
  obtain n k p where e: "e = (n, k, p)" by (cases e)
  from Cons.prems obtain q db1 where q: "encode_payload env scope k p = Inr q"
    "insert_event \<lparr>ev_scope = scope, ev_position = n, ev_kind = k, ev_payload = q\<rparr> db = Inr db1"
    "insert_each (import_event env scope) es db1 = Inr db'"
    by (auto simp: e import_event_def [of env scope "(n, k, p)" db] and_then_Inr)
  from Cons.IH [OF q(3)] obtain rows where rows: "db' = append_rows rows db1" "list_all2 (archived_row env scope) rows es"
    by blast
  let ?row = "\<lparr>ev_scope = scope, ev_position = n, ev_kind = k, ev_payload = q\<rparr>"
  have "db1 = append_rows [?row] db" using q(2) by (auto simp: insert_event_def append_rows_def split: if_splits)
  moreover have "archived_row env scope ?row e" using q(1) by (simp add: e archived_row_def)
  ultimately show ?case using rows by (intro exI [of _ "?row # rows"]) simp
qed (auto intro: exI [of _ "[]"])

lemma archived_rows_scope:
  assumes "list_all2 (archived_row env scope) rows es"
  shows "\<forall>r \<in> set rows. ev_scope r = scope" "map ev_position rows = map fst es" "map ev_kind rows = map (fst \<circ> snd) es"
  using assms by (induction rule: list_all2_induct) (auto simp: archived_row_def)

lemma filter_scope:
  "\<forall>r \<in> set rows. f r = scope \<Longrightarrow> filter (\<lambda>r. f r = i) rows = (if i = scope then rows else [])"
  by (induction rows) auto

lemma archived_rows_fit:
  assumes "list_all2 (archived_row env scope) rows es" "coordinates_valid None es" "scope_rows db scope = []"
  shows "fits db rows"
proof -
  note rows = archived_rows_scope [OF assms(1)]
  have "next_position db scope = 0" using assms(3) by (simp add: next_position_def scope_head_def)
  moreover have "0 \<le> ev_position r" if "r \<in> set rows" for r
  proof -
    from that have "ev_position r \<in> set (map fst es)" by (simp flip: rows(2))
    with coordinates_above [OF assms(2)] show ?thesis by auto
  qed
  ultimately show ?thesis
    using rows coordinates_sorted [OF assms(2)] by (auto simp: fits_def filter_scope [OF rows(1)])
qed

lemma read_archived_rows:
  assumes "codec_laws env" "list_all2 (archived_row env scope) rows es"
  shows "read_rows env scope rows = Inr es"
  using assms(2)
  by (induction rule: list_all2_induct) (auto simp: archived_row_def codec_laws.decode_encode [OF assms(1)])

text \<open>The other four tables.\<close>

definition command_row :: "string \<Rightarrow> archive_command \<Rightarrow> command_record" where
  "command_row scope c = \<lparr>cr_command_id = ac_id c, cr_scope_id = scope, cr_idempotency_key = ac_key c,
     cr_status = ac_status c, cr_snapshot_json = ac_snapshot c\<rparr>"

definition receipt_of :: "string \<Rightarrow> string \<times> int \<Rightarrow> receipt_row" where
  "receipt_of scope r = \<lparr>rc_scope = scope, rc_key = fst r, rc_applied_at = snd r\<rparr>"

definition set_row :: "string \<Rightarrow> string \<times> int \<Rightarrow> fact_set_row" where
  "set_row scope r = \<lparr>fs_scope = scope, fs_key = fst r, fs_count = snd r\<rparr>"

definition ref_row :: "string \<Rightarrow> string \<times> int \<times> string \<times> int \<Rightarrow> fact_ref_row" where
  "ref_row scope r = \<lparr>fr_scope = scope, fr_key = fst r, fr_index = fst (snd r), fr_event_scope = fst (snd (snd r)),
     fr_event_position = snd (snd (snd r))\<rparr>"

lemmas archive_rows = command_row_def receipt_of_def set_row_def ref_row_def

lemma insert_each_commands:
  "insert_each (\<lambda>c. insert_command (command_row scope c)) cs db = Inr db' \<Longrightarrow>
     db' = db\<lparr>commands := commands db @ map (command_row scope) cs\<rparr>"
  by (induction cs arbitrary: db) (fastforce simp: and_then_Inr insert_command_def split: if_splits)+

lemma insert_each_receipts:
  "insert_each (\<lambda>(key, position). insert_receipt scope key position) rs db = Inr db' \<Longrightarrow>
     db' = db\<lparr>command_receipts := command_receipts db @ map (receipt_of scope) rs\<rparr>"
  by (induction rs arbitrary: db) (fastforce simp: and_then_Inr insert_receipt_def receipt_of_def split: if_splits)+

lemma insert_each_sets:
  "insert_each (\<lambda>(key, count). insert_fact_set \<lparr>fs_scope = scope, fs_key = key, fs_count = count\<rparr>) rs db = Inr db' \<Longrightarrow>
     db' = db\<lparr>record_command_fact_sets := record_command_fact_sets db @ map (set_row scope) rs\<rparr>"
  by (induction rs arbitrary: db) (fastforce simp: and_then_Inr insert_fact_set_def set_row_def split: if_splits)+

lemma insert_each_refs:
  "insert_each (\<lambda>(key, index, s, p). insert_fact_ref \<lparr>fr_scope = scope, fr_key = key, fr_index = index,
      fr_event_scope = s, fr_event_position = p\<rparr>) rs db = Inr db' \<Longrightarrow>
     db' = db\<lparr>record_command_fact_refs := record_command_fact_refs db @ map (ref_row scope) rs\<rparr>"
  by (induction rs arbitrary: db) (fastforce simp: and_then_Inr insert_fact_ref_def ref_row_def split: if_splits)+

lemma import_rows_result:
  assumes "import_rows env scope db = Inr db'"
  obtains rows where "list_all2 (archived_row env (as_id scope)) rows (as_events scope)"
    "db' = db\<lparr>events := events db @ rows, commands := commands db @ map (command_row (as_id scope)) (as_commands scope),
      command_receipts := command_receipts db @ map (receipt_of (as_id scope)) (as_receipts scope),
      record_command_fact_sets := record_command_fact_sets db @ map (set_row (as_id scope)) (as_fact_sets scope),
      record_command_fact_refs := record_command_fact_refs db @ map (ref_row (as_id scope)) (as_fact_refs scope)\<rparr>"
proof -
  from assms obtain db1 db2 db3 db4 where
    1: "insert_each (import_event env (as_id scope)) (as_events scope) db = Inr db1" and
    2: "insert_each (\<lambda>c. insert_command (command_row (as_id scope) c)) (as_commands scope) db1 = Inr db2" and
    3: "insert_each (\<lambda>(key, position). insert_receipt (as_id scope) key position) (as_receipts scope) db2 = Inr db3" and
    4: "insert_each (\<lambda>(key, count). insert_fact_set \<lparr>fs_scope = as_id scope, fs_key = key, fs_count = count\<rparr>)
        (as_fact_sets scope) db3 = Inr db4" and
    5: "insert_each (\<lambda>(key, index, s, p). insert_fact_ref \<lparr>fr_scope = as_id scope, fr_key = key, fr_index = index,
          fr_event_scope = s, fr_event_position = p\<rparr>) (as_fact_refs scope) db4 = Inr db'"
    by (auto simp: import_rows_def and_then_Inr command_row_def)
  from import_events_rows [OF 1] obtain rows where
    "db1 = append_rows rows db" "list_all2 (archived_row env (as_id scope)) rows (as_events scope)" by blast
  with insert_each_commands [OF 2] insert_each_receipts [OF 3] insert_each_sets [OF 4] insert_each_refs [OF 5]
  show ?thesis by (intro that) (simp_all add: append_rows_def)
qed

text \<open>What validation has established of a scope.\<close>

lemma check_fact_sets_ok:
  "check_fact_sets receipts refs sets = Inr () \<Longrightarrow> t \<in> set sets \<Longrightarrow> 0 \<le> snd t \<and> fst t \<in> fst ` set receipts"
  by (induction receipts refs sets rule: check_fact_sets.induct) (fastforce split: if_splits)+

lemma successively_strict:
  "successively (\<lambda>a b. f a < (f b :: 'k :: linorder)) xs \<longleftrightarrow> sorted_wrt (\<lambda>a b. f a < f b) xs"
  by (rule successively_conv_sorted_wrt) (auto intro!: transpI)

lemma check_scope_open:
  "check_scope s = Inr () \<Longrightarrow> coordinates_valid None (as_events s) \<and>
     successively (\<lambda>a b. ac_key a < ac_key b) (as_commands s) \<and> successively (\<lambda>a b. fst a < fst b) (as_receipts s) \<and>
     successively (\<lambda>a b. fst a < fst b) (as_fact_sets s) \<and>
     successively (\<lambda>a b. ref_coordinate a < ref_coordinate b) (as_fact_refs s) \<and>
     \<not> list_ex (\<lambda>r. fst r \<notin> fst ` set (as_fact_sets s)) (as_fact_refs s)"
  unfolding check_scope_def by (simp add: and_then_Inr split: if_split_asm)

lemma check_scope_ok:
  assumes "check_scope s = Inr ()"
  shows "coordinates_valid None (as_events s)" "sorted_wrt (\<lambda>a b. ac_key a < ac_key b) (as_commands s)"
    "sorted_wrt (\<lambda>a b. fst a < fst b) (as_receipts s)" "sorted_wrt (\<lambda>a b. fst a < fst b) (as_fact_sets s)"
    "sorted_wrt (\<lambda>a b. ref_coordinate a < ref_coordinate b) (as_fact_refs s)"
    "\<forall>r \<in> set (as_fact_refs s). fst r \<in> fst ` set (as_fact_sets s)"
  using check_scope_open [OF assms]
  unfolding successively_strict [of ac_key] successively_strict [of fst] successively_strict [of ref_coordinate]
  by (simp_all add: list_ex_iff)

definition follows :: "string option \<Rightarrow> string \<Rightarrow> bool" where
  "follows q i \<longleftrightarrow> (case q of None \<Rightarrow> True | Some p \<Rightarrow> p < i)"

lemma check_scopes_Cons:
  "check_scopes allowed q (s # ss) = Inr () \<longleftrightarrow>
     \<not> blank (as_id s) \<and> allowed (as_id s) \<and> follows q (as_id s) \<and> check_scope s = Inr () \<and>
     check_scopes allowed (Some (as_id s)) ss = Inr ()"
  by (cases q) (auto simp: follows_def and_then_Inr)

lemma check_scopes_ok:
  "check_scopes allowed q ss = Inr () \<Longrightarrow>
     (\<forall>s \<in> set ss. check_scope s = Inr () \<and> follows q (as_id s)) \<and> sorted_wrt (<) (map as_id ss)"
proof (induction ss arbitrary: q)
  case (Cons s ss)
  then have ok: "follows q (as_id s)" "check_scope s = Inr ()" "check_scopes allowed (Some (as_id s)) ss = Inr ()"
    by (simp_all only: check_scopes_Cons)
  note ih = Cons.IH [OF ok(3)]
  then have "follows q (as_id t)" if "t \<in> set ss" for t
    using ok(1) that by (cases q) (auto simp: follows_def)
  with ok(1,2) ih show ?case by (auto simp: follows_def)
qed simp

lemma check_scopes_allowed:
  "check_scopes allowed q ss = Inr () \<Longrightarrow> \<forall>s \<in> set ss. allowed' (as_id s) \<Longrightarrow> check_scopes allowed' q ss = Inr ()"
proof (induction ss arbitrary: q)
  case (Cons s ss)
  then show ?case unfolding check_scopes_Cons by simp
qed simp

lemma sort_key_strict: "sorted_wrt (\<lambda>a b. f a < f b) xs \<Longrightarrow> sort_key f xs = (xs :: 'a list)" for f :: "'a \<Rightarrow> 'k :: linorder"
  by (rule sort_key_id_if_sorted) (auto simp: sorted_map intro: sorted_wrt_mono_rel [rotated])

lemma sort_archive_rows:
  "sorted_wrt (\<lambda>a b. ac_key a < ac_key b) cs \<Longrightarrow>
     sort_key cr_idempotency_key (map (command_row scope) cs) = map (command_row scope) cs"
  "sorted_wrt (\<lambda>a b. fst a < fst b) rs \<Longrightarrow> sort_key rc_key (map (receipt_of scope) rs) = map (receipt_of scope) rs"
  "sorted_wrt (\<lambda>a b. fst a < fst b) ts \<Longrightarrow> sort_key fs_key (map (set_row scope) ts) = map (set_row scope) ts"
  "sorted_wrt (\<lambda>a b. ref_coordinate a < ref_coordinate b) fs \<Longrightarrow>
     sort_key (\<lambda>r. (fr_key r, fr_index r)) (map (ref_row scope) fs) = map (ref_row scope) fs"
  by (rule sort_key_strict; simp add: sorted_wrt_map archive_rows ref_coordinate_def)+

section \<open>Reading back what was imported\<close>

lemma read_rows_Nil: "read_rows env i rows = Inr [] \<longleftrightarrow> rows = []"
  by (cases rows) (auto simp: and_then_Inr split: option.splits)

lemma sort_key_Nil_iff: "sort_key f xs = [] \<longleftrightarrow> xs = []" for f :: "'a \<Rightarrow> 'k :: linorder"
  using length_sort [of f xs] length_0_conv by metis

text \<open>A scope that reads as vacant has no row in any of the five tables.\<close>

lemma read_vacant:
  assumes "read_scope env at db i = Inr s" "as_events s = []" "as_commands s = []" "as_receipts s = []"
    "as_fact_sets s = []" "as_fact_refs s = []"
  shows "scope_rows db i = []" "filter (\<lambda>r. cr_scope_id r = i) (commands db) = []"
    "filter (\<lambda>r. rc_scope r = i) (command_receipts db) = []"
    "filter (\<lambda>r. fs_scope r = i) (record_command_fact_sets db) = []"
    "filter (\<lambda>r. fr_scope r = i) (record_command_fact_refs db) = []"
proof -
  show "scope_rows db i = []" using assms by (auto simp: read_scope_def and_then_Inr read_rows_Nil scope_events_def sort_key_Nil_iff)
  show "filter (\<lambda>r. cr_scope_id r = i) (commands db) = []" using assms by (auto simp: read_scope_def and_then_Inr sort_key_Nil_iff)
  show "filter (\<lambda>r. rc_scope r = i) (command_receipts db) = []" using assms by (auto simp: read_scope_def and_then_Inr sort_key_Nil_iff)
  show "filter (\<lambda>r. fs_scope r = i) (record_command_fact_sets db) = []"
    using assms by (auto simp: read_scope_def and_then_Inr sort_key_Nil_iff)
  show "filter (\<lambda>r. fr_scope r = i) (record_command_fact_refs db) = []"
    using assms by (auto simp: read_scope_def and_then_Inr sort_key_Nil_iff)
qed

lemma archive_rows_scope [simp]:
  "filter (\<lambda>r. cr_scope_id r = i) (map (command_row scope) cs) = (if i = scope then map (command_row scope) cs else [])"
  "filter (\<lambda>r. rc_scope r = i) (map (receipt_of scope) rs) = (if i = scope then map (receipt_of scope) rs else [])"
  "filter (\<lambda>r. fs_scope r = i) (map (set_row scope) ts) = (if i = scope then map (set_row scope) ts else [])"
  "filter (\<lambda>r. fr_scope r = i) (map (ref_row scope) fs) = (if i = scope then map (ref_row scope) fs else [])"
  by (auto simp: filter_scope [of _ _ scope] archive_rows intro!: filter_scope)

lemma import_scope_cases:
  assumes "check_scope s = Inr ()" "import_scope env at s db = Inr db'"
  obtains (replay) "db' = db" "read_scope env at db (as_id s) = Inr s"
  | (written) rows vacant where "read_scope env at db (as_id s) = Inr vacant"
      "as_events vacant = []" "as_commands vacant = []" "as_receipts vacant = []" "as_fact_sets vacant = []" "as_fact_refs vacant = []"
      "list_all2 (archived_row env (as_id s)) rows (as_events s)" "fits db rows"
      "db' = db\<lparr>events := events db @ rows, commands := commands db @ map (command_row (as_id s)) (as_commands s),
        command_receipts := command_receipts db @ map (receipt_of (as_id s)) (as_receipts s),
        record_command_fact_sets := record_command_fact_sets db @ map (set_row (as_id s)) (as_fact_sets s),
        record_command_fact_refs := record_command_fact_refs db @ map (ref_row (as_id s)) (as_fact_refs s)\<rparr>"
proof -
  from assms(2) obtain x where x: "read_scope env at db (as_id s) = Inr x" by (auto simp: import_scope_def and_then_Inr)
  show ?thesis
  proof (cases "x = s")
    case True
    with x assms(2) replay show ?thesis by (simp add: import_scope_def)
  next
    case False
    with x assms(2) have vacant: "as_events x = []" "as_commands x = []" "as_receipts x = []" "as_fact_sets x = []"
      "as_fact_refs x = []" and ok: "import_rows env s db = Inr db'"
      by (simp_all add: import_scope_def split: if_split_asm)
    from ok show ?thesis
    proof (rule import_rows_result)
      fix rows
      assume rows: "list_all2 (archived_row env (as_id s)) rows (as_events s)"
        and db': "db' = db\<lparr>events := events db @ rows, commands := commands db @ map (command_row (as_id s)) (as_commands s),
        command_receipts := command_receipts db @ map (receipt_of (as_id s)) (as_receipts s),
        record_command_fact_sets := record_command_fact_sets db @ map (set_row (as_id s)) (as_fact_sets s),
        record_command_fact_refs := record_command_fact_refs db @ map (ref_row (as_id s)) (as_fact_refs s)\<rparr>"
      from archived_rows_fit [OF rows check_scope_ok(1) [OF assms(1)] read_vacant(1) [OF x vacant]]
      show ?thesis by (rule written [OF x vacant rows _ db'])
    qed
  qed
qed

lemma import_scope_grows:
  assumes "increasing db" "check_scope s = Inr ()" "import_scope env at s db = Inr db'"
  shows "log_grows db db'"
  using assms(2,3)
  by (cases rule: import_scope_cases) (auto intro: log_grows_refl [OF assms(1)] log_grows_rows [OF assms(1)])

lemma read_scope_cong:
  assumes "scope_events db' i = scope_events db i"
    "filter (\<lambda>r. cr_scope_id r = i) (commands db') = filter (\<lambda>r. cr_scope_id r = i) (commands db)"
    "filter (\<lambda>r. rc_scope r = i) (command_receipts db') = filter (\<lambda>r. rc_scope r = i) (command_receipts db)"
    "filter (\<lambda>r. fs_scope r = i) (record_command_fact_sets db') = filter (\<lambda>r. fs_scope r = i) (record_command_fact_sets db)"
    "filter (\<lambda>r. fr_scope r = i) (record_command_fact_refs db') = filter (\<lambda>r. fr_scope r = i) (record_command_fact_refs db)"
  shows "read_scope env at db' i = read_scope env at db i"
  by (simp add: read_scope_def assms)

lemma import_scope_frame:
  assumes "check_scope s = Inr ()" "import_scope env at s db = Inr db'" "i \<noteq> as_id s"
  shows "read_scope env at' db' i = read_scope env at' db i"
  using assms(1,2)
proof (cases rule: import_scope_cases)
  case (written rows vacant)
  have "filter (\<lambda>r. ev_scope r = i) rows = []"
    using filter_scope [OF archived_rows_scope(1) [OF written(7)]] assms(3) by simp
  then have "scope_events db' i = scope_events db i" by (simp add: written(9) scope_events_def scope_rows_def)
  then show ?thesis by (rule read_scope_cong) (simp_all add: written(9) assms(3))
qed simp

text \<open>The column \<open>updated_at\<close> agrees with an archived scope.\<close>

definition stamped :: "(string \<Rightarrow> string) \<Rightarrow> archive_scope \<Rightarrow> bool" where
  "stamped at s \<longleftrightarrow> list_all (\<lambda>c. at (ac_id c) = ac_updated_at c) (as_commands s)"

lemma read_imported:
  assumes "codec_laws env" "increasing db'" "check_scope s = Inr ()" "stamped at s"
    and rows: "list_all2 (archived_row env (as_id s)) rows (as_events s)" "scope_rows db' (as_id s) = rows"
    and tables: "filter (\<lambda>r. cr_scope_id r = as_id s) (commands db') = map (command_row (as_id s)) (as_commands s)"
      "filter (\<lambda>r. rc_scope r = as_id s) (command_receipts db') = map (receipt_of (as_id s)) (as_receipts s)"
      "filter (\<lambda>r. fs_scope r = as_id s) (record_command_fact_sets db') = map (set_row (as_id s)) (as_fact_sets s)"
      "filter (\<lambda>r. fr_scope r = as_id s) (record_command_fact_refs db') = map (ref_row (as_id s)) (as_fact_refs s)"
  shows "read_scope env at db' (as_id s) = Inr s"
proof -
  note ok = check_scope_ok [OF assms(3)]
  have "map (\<lambda>c. \<lparr>ac_id = ac_id c, ac_key = ac_key c, ac_status = ac_status c, ac_snapshot = ac_snapshot c,
      ac_updated_at = at (ac_id c)\<rparr>) (as_commands s) = as_commands s"
    using assms(4) by (intro map_idI) (simp add: stamped_def list_all_iff)
  then show ?thesis
    by (simp add: read_scope_def tables rows(2) read_archived_rows [OF assms(1) rows(1)] assms(2)
      sort_archive_rows(1) [OF ok(2)] sort_archive_rows(2) [OF ok(3)] sort_archive_rows(3) [OF ok(4)] sort_archive_rows(4) [OF ok(5)]
      archive_rows comp_def)
qed

lemma read_stamped:
  assumes "read_scope env at db i = Inr s" "stamped at' s"
  shows "read_scope env at' db i = Inr s"
proof -
  let ?row = "\<lambda>at r. \<lparr>ac_id = cr_command_id r, ac_key = cr_idempotency_key r, ac_status = cr_status r,
    ac_snapshot = cr_snapshot_json r, ac_updated_at = at (cr_command_id r)\<rparr>"
  let ?rows = "sort_key cr_idempotency_key (filter (\<lambda>r. cr_scope_id r = i) (commands db))"
  have s: "as_commands s = map (?row at) ?rows" using assms(1) by (auto simp: read_scope_def and_then_Inr)
  have same: "map (?row at') ?rows = map (?row at) ?rows"
    using assms(2) unfolding stamped_def s by (intro map_cong) (auto simp: list_all_iff)
  from assms(1) show ?thesis unfolding read_scope_def same .
qed

lemma import_scope_reads:
  assumes "codec_laws env" "increasing db" "check_scope s = Inr ()" "import_scope env at s db = Inr db'" "stamped at' s"
  shows "read_scope env at' db' (as_id s) = Inr s"
  using assms(3,4)
proof (cases rule: import_scope_cases)
  case replay
  with read_stamped [OF replay(2) assms(5)] show ?thesis by simp
next
  case (written rows vacant)
  note none = read_vacant [OF written(1-6)]
  have "scope_rows db' (as_id s) = rows"
    using none(1) filter_scope [OF archived_rows_scope(1) [OF written(7)]] by (simp add: written(9) scope_rows_def)
  moreover have "increasing db'"
    using import_scope_grows [OF assms(2-4)] by (simp add: log_grows_def)
  ultimately show ?thesis
    by (intro read_imported [OF assms(1) _ assms(3,5) written(7)]) (simp_all add: written(9) none)
qed

lemma import_scopes_reads:
  assumes "codec_laws env" "increasing db" "insert_each (import_scope env at) ss db = Inr db'"
    "\<forall>s \<in> set ss. check_scope s = Inr ()" "distinct (map as_id ss)"
  shows "log_grows db db' \<and> (\<forall>i. i \<notin> as_id ` set ss \<longrightarrow> read_scope env at' db' i = read_scope env at' db i) \<and>
    (\<forall>s \<in> set ss. stamped at' s \<longrightarrow> read_scope env at' db' (as_id s) = Inr s)"
  using assms(2-)
proof (induction ss arbitrary: db)
  case (Cons s ss)
  then obtain db1 where 1: "import_scope env at s db = Inr db1" and
    2: "insert_each (import_scope env at) ss db1 = Inr db'" by (auto simp: and_then_Inr)
  have s: "check_scope s = Inr ()" using Cons.prems by simp
  note grows = import_scope_grows [OF Cons.prems(1) s 1]
  then have ih: "log_grows db1 db' \<and> (\<forall>i. i \<notin> as_id ` set ss \<longrightarrow> read_scope env at' db' i = read_scope env at' db1 i) \<and>
    (\<forall>s \<in> set ss. stamped at' s \<longrightarrow> read_scope env at' db' (as_id s) = Inr s)"
    using Cons.prems by (intro Cons.IH [OF _ 2]) (auto simp: log_grows_def)
  have "read_scope env at' db' i = read_scope env at' db i" if "i \<notin> as_id ` set (s # ss)" for i
    using ih import_scope_frame [OF s 1, of i at'] that by simp
  moreover have "read_scope env at' db' (as_id s) = Inr s" if "stamped at' s"
    using ih import_scope_reads [OF assms(1) Cons.prems(1) s 1 that] Cons.prems(4) by simp
  ultimately show ?case using ih log_grows_trans [OF grows] by auto
qed (simp add: log_grows_refl)

lemma import_again:
  "\<forall>s \<in> set ss. read_scope env at db (as_id s) = Inr s \<Longrightarrow> insert_each (import_scope env at) ss db = Inr db"
  by (induction ss) (simp_all add: import_scope_def)

lemma validate_open:
  assumes "validate_archive a allowed = Inr ()"
  shows "check_scopes allowed None (ca_scopes a) = Inr ()" "\<forall>s \<in> set (ca_scopes a). check_scope s = Inr ()"
    "sorted_wrt (<) (map as_id (ca_scopes a))" "distinct (map as_id (ca_scopes a))"
proof -
  show checked: "check_scopes allowed None (ca_scopes a) = Inr ()"
    using assms by (auto simp: validate_archive_def and_then_Inr split: if_split_asm)
  note ok = check_scopes_ok [OF checked]
  then show "\<forall>s \<in> set (ca_scopes a). check_scope s = Inr ()" "sorted_wrt (<) (map as_id (ca_scopes a))" by auto
  then show "distinct (map as_id (ca_scopes a))" by (simp add: strict_sorted_iff)
qed

lemma validate_allowed:
  assumes "validate_archive a allowed = Inr ()" "\<forall>s \<in> set (ca_scopes a). allowed' (as_id s)"
  shows "validate_archive a allowed' = Inr ()"
  using assms check_scopes_allowed [OF validate_open(1) [OF assms(1)] assms(2)]
  by (auto simp: validate_archive_def and_then_Inr split: if_split_asm)

lemma import_committed:
  "import_command_scopes env at a allowed db = (db', Inr ()) \<longleftrightarrow>
     validate_archive a allowed = Inr () \<and> insert_each (import_scope env at) (ca_scopes a) db = Inr db'"
  by (auto simp: import_command_scopes_def import_into_def in_tx_def and_then_def split: sum.splits)

section \<open>Exporting what was imported\<close>

definition occupied :: "archive_scope \<Rightarrow> bool" where
  "occupied s \<longleftrightarrow> as_events s \<noteq> [] \<or> as_commands s \<noteq> [] \<or> as_receipts s \<noteq> [] \<or> as_fact_sets s \<noteq> [] \<or> as_fact_refs s \<noteq> []"

lemma read_occupied:
  assumes "read_scope env at db i = Inr s" "occupied s"
  shows "i \<in> set (archive_scope_ids db)"
proof (rule ccontr)
  assume "i \<notin> set (archive_scope_ids db)"
  then have none: "scope_events db i = []" "filter (\<lambda>r. cr_scope_id r = i) (commands db) = []"
    "filter (\<lambda>r. rc_scope r = i) (command_receipts db) = []"
    "filter (\<lambda>r. fs_scope r = i) (record_command_fact_sets db) = []"
    "filter (\<lambda>r. fr_scope r = i) (record_command_fact_refs db) = []"
    by (auto simp: archive_scope_ids_def scope_events_def scope_rows_def sort_key_Nil_iff filter_empty_conv)
  from assms(1) have "\<not> occupied s" unfolding read_scope_def none by (auto simp: occupied_def)
  with assms(2) show False by simp
qed

lemma read_scopes_all:
  "\<forall>s \<in> set ss. read_scope env at db (as_id s) = Inr s \<Longrightarrow> read_scopes env at db (map as_id ss) = Inr ss"
  by (induction ss) simp_all

lemma selected_scope_ids:
  assumes "sorted_wrt (<) is" "set is \<subseteq> set (archive_scope_ids db)"
  shows "filter (\<lambda>i. i \<in> set is) (archive_scope_ids db) = is"
proof (rule sorted_distinct_set_unique)
  have "sorted (archive_scope_ids db)" "distinct (archive_scope_ids db)" by (simp_all add: archive_scope_ids_def)
  then show "sorted (filter (\<lambda>i. i \<in> set is) (archive_scope_ids db))" "distinct (filter (\<lambda>i. i \<in> set is) (archive_scope_ids db))"
    by (auto intro: sorted_filter [where f = "\<lambda>x. x", simplified])
  show "sorted is" "distinct is" using assms(1) by (simp_all add: strict_sorted_iff)
  show "set (filter (\<lambda>i. i \<in> set is) (archive_scope_ids db)) = set is" using assms(2) by auto
qed

lemma validate_current:
  "validate_archive a allowed = Inr () \<Longrightarrow> validate_archive (a\<lparr>ca_protocol := ARCHIVE_PROTOCOL\<rparr>) allowed = Inr ()"
  by (auto simp: validate_archive_def archive_events_def ARCHIVE_PROTOCOL_def LEGACY_PROTOCOL_def and_then_Inr
    split: if_split_asm)

lemma export_imported:
  assumes "validate_archive a allowed = Inr ()" "\<forall>s \<in> set (ca_scopes a). read_scope env at db (as_id s) = Inr s \<and> occupied s"
  shows "export_command_scopes env at (\<lambda>i. i \<in> as_id ` set (ca_scopes a)) db = Inr (a\<lparr>ca_protocol := ARCHIVE_PROTOCOL\<rparr>)"
proof -
  let ?is = "map as_id (ca_scopes a)"
  have "filter (\<lambda>i. i \<in> set ?is) (archive_scope_ids db) = ?is"
    using assms(2) read_occupied by (intro selected_scope_ids [OF validate_open(3) [OF assms(1)]]) fastforce
  moreover have "validate_archive (a\<lparr>ca_protocol := ARCHIVE_PROTOCOL\<rparr>) (\<lambda>i. i \<in> as_id ` set (ca_scopes a)) = Inr ()"
    by (rule validate_allowed [OF validate_current [OF assms(1)]]) simp
  moreover have "a\<lparr>ca_protocol := ARCHIVE_PROTOCOL\<rparr> = \<lparr>ca_protocol = ARCHIVE_PROTOCOL, ca_scopes = ca_scopes a\<rparr>" by simp
  ultimately show ?thesis
    using read_scopes_all [of "ca_scopes a" env at db] assms(2) by (simp add: export_command_scopes_def Let_def)
qed

text \<open>Nothing is written over: a scope that held anything held exactly what the archive has.\<close>

lemma import_no_overwrite:
  "insert_each (import_scope env at) ss db = Inr db' \<Longrightarrow> \<forall>s \<in> set ss. check_scope s = Inr () \<Longrightarrow> distinct (map as_id ss) \<Longrightarrow>
     s \<in> set ss \<Longrightarrow> read_scope env at db (as_id s) = Inr x \<Longrightarrow> occupied x \<Longrightarrow> x = s"
proof (induction ss arbitrary: db)
  case (Cons t ss)
  then obtain db1 where 1: "import_scope env at t db = Inr db1" and
    2: "insert_each (import_scope env at) ss db1 = Inr db'" by (auto simp: and_then_Inr)
  show ?case
  proof (cases "as_id s = as_id t")
    case True
    then have "s = t" using Cons.prems(3,4) by (auto simp: image_iff)
    with 1 Cons.prems(5,6) show ?thesis by (auto simp: import_scope_def occupied_def split: if_split_asm)
  next
    case False
    then have "read_scope env at db1 (as_id s) = Inr x"
      using import_scope_frame [OF _ 1, of "as_id s" at] Cons.prems(2,5) by simp
    with False Cons.prems show ?thesis by (intro Cons.IH [OF 2]) auto
  qed
qed simp

section \<open>The log over time\<close>

lemma other_step_grows: "increasing db \<Longrightarrow> other_step L P db db' \<Longrightarrow> log_grows db db'"
  by (auto simp: other_step_def intro: log_grows_rows)

lemma row_list_grows: "increasing db \<Longrightarrow> events db' = events db @ row_list rs db \<Longrightarrow> log_grows db db'"
  by (rule log_grows_rows [OF _ row_list_fits])

lemma append_grows:
  assumes "increasing db"
  shows "log_grows db (fst (append_record env scope kind payload db))"
    "log_grows db (fst (append_record_with_linked_record env scope kind payload scope2 kind2 companion db))"
    "log_grows db (fst (append_chained_record env scope kind link db))"
    "log_grows db (fst (append_records_atomically env rs db))"
    "log_grows db (fst (append_record_with_key env scope key kind payload db))"
  by (rule other_step_grows [OF assms]; rule append_record_step [where P = "\<lambda>_ _. True", OF assms]
      append_record_with_linked_record_step [where P = "\<lambda>_ _. True", OF assms]
      append_chained_record_step [where P = "\<lambda>_ _. True", OF assms]
      append_records_atomically_step [where P = "\<lambda>_ _. True", OF assms]
      append_record_with_key_step [where P = "\<lambda>_ _. True", OF assms]; simp)+

lemma snapshot_checkpoint_events: "snapshot_checkpoint env L scope state db = Inr db' \<Longrightarrow> events db' = events db"
  by (auto simp: snapshot_checkpoint_def insert_snapshot_def Let_def split: option.splits sum.splits if_splits)

lemma insert_receipt_events: "insert_receipt scope key at db = Inr db' \<Longrightarrow> events db' = events db"
  by (auto simp: insert_receipt_def split: if_splits)

lemma in_tx_grows:
  "increasing db \<Longrightarrow> (\<And>db' x. r = Inr (db', x) \<Longrightarrow> log_grows db db') \<Longrightarrow> log_grows db (fst (in_tx db r))"
  by (auto simp: in_tx_def log_grows_refl split: sum.splits)

lemma append_events_grows:
  "increasing db \<Longrightarrow> append_events env L scope (next_position db scope) es state db = Inr (db', s) \<Longrightarrow> log_grows db db'"
  by (auto simp: append_events_increasing and_then_Inr intro: row_list_grows)

lemma decided_Inr: "(case r of Inl e \<Rightarrow> Inl (g e) | Inr es \<Rightarrow> f es) = Inr y \<longleftrightarrow> (\<exists>es. r = Inr es \<and> f es = Inr y)"
  by (cases r) auto

lemma admit_grows:
  assumes "increasing db"
  shows "log_grows db (fst (admit env L scope c db))"
  unfolding admit_def
proof (rule in_tx_grows [OF assms])
  fix db' s
  assume "and_then (store_fold env L db scope) (\<lambda>state. case lc_decide L state c of Inl r \<Rightarrow> Inl (Rejected r)
    | Inr es \<Rightarrow> and_then (append_events env L scope (next_position db scope) es state db)
        (\<lambda>(db1, new_state). and_then (snapshot_checkpoint env L scope new_state db1) (\<lambda>db2. Inr (db2, new_state)))) = Inr (db', s)"
  then obtain state es db1 t where "append_events env L scope (next_position db scope) es state db = Inr (db1, t)"
    "snapshot_checkpoint env L scope t db1 = Inr db'"
    by (auto simp: and_then_Inr decided_Inr)
  with append_events_grows [OF assms] snapshot_checkpoint_events show "log_grows db db'"
    by (metis log_grows_def log_grows_same log_grows_trans)
qed

lemma admit_with_key_grows:
  assumes "increasing db"
  shows "log_grows db (fst (admit_with_key env L scope key c db))"
  unfolding admit_with_key_def
proof (rule in_tx_grows [OF assms])
  fix db' s
  assume "(if find_receipt db scope key \<noteq> None then and_then (store_fold env L db scope) (\<lambda>state. Inr (db, state))
    else and_then (store_fold env L db scope) (\<lambda>state. case lc_decide L state c of Inl r \<Rightarrow> Inl (Rejected r)
      | Inr es \<Rightarrow> let base = next_position db scope in and_then (append_events env L scope base es state db)
          (\<lambda>(db1, new_state). and_then (insert_receipt scope key base db1)
            (\<lambda>db2. and_then (snapshot_checkpoint env L scope new_state db2) (\<lambda>db3. Inr (db3, new_state)))))) = Inr (db', s)"
  then consider "db' = db" | state es db1 t db2 where "append_events env L scope (next_position db scope) es state db = Inr (db1, t)"
    "insert_receipt scope key (next_position db scope) db1 = Inr db2" "snapshot_checkpoint env L scope t db2 = Inr db'"
    by (auto simp: and_then_Inr decided_Inr Let_def split: if_split_asm)
  then show "log_grows db db'"
  proof cases
    case 2
    with append_events_grows [OF assms] insert_receipt_events snapshot_checkpoint_events show ?thesis
      by (metis log_grows_def log_grows_same log_grows_trans)
  qed (simp add: log_grows_refl assms)
qed

lemma set_command_status_events [simp]: "events (fst (set_command_status command_id status db)) = events db"
  by (simp add: set_command_status_def)

lemma claim_command_events: "claim_command command_id scope key snapshot db = (db', r) \<Longrightarrow> events db' = events db"
  by (auto simp: claim_command_def claim_command_with_basis_def insert_or_ignore_command_def in_tx_def and_then_def Let_def
    split: sum.splits option.splits if_splits)

lemma status_grows: "log_grows db db1 \<Longrightarrow> log_grows db (fst (set_command_status command_id status db1))"
  by (rule log_grows_trans [OF _ log_grows_same]) (simp_all add: log_grows_def)

lemma fst_relabel [simp]:
  "fst (case p of (d, r) \<Rightarrow> (case r of Inl e \<Rightarrow> (d, f e) | Inr y \<Rightarrow> (d, g y))) = fst p"
  by (auto split: prod.splits sum.splits)

lemma admit_materialized_grows:
  assumes "increasing db"
  shows "log_grows db (fst (admit_materialized env L snap scope key c db))"
proof (cases "claim_command (materialized_command_id scope key) scope key (snap c) db")
  case claim: (Pair db1 r)
  note same = log_grows_same [OF assms claim_command_events [OF claim]]
  then have grows: "log_grows db (fst (admit_with_key env L scope key c db1))"
    using log_grows_trans [OF same admit_with_key_grows] by (simp add: log_grows_def)
  note simps = admit_materialized_def Let_def claim
  show ?thesis
  proof (cases r)
    case (Inr rc)
    obtain receipt claimed where rc: "rc = (receipt, claimed)" by (cases rc)
    obtain db2 x where 2: "admit_with_key env L scope key c db1 = (db2, x)" by fastforce
    have "log_grows db (fst (set_command_status i st db1))" "log_grows db (fst (set_command_status i st db2))" for i st
      using status_grows same grows by (simp_all add: 2)
    then show ?thesis
      using same by (cases "store_fold env L db1 scope"; cases x) (auto simp: simps Inr rc 2 split: admit_error.splits)
  qed (simp add: simps same)
qed

lemma admit_new_grows:
  assumes "increasing db" "admit_new env sd vo L w intent materialize state db = Inr (db', x)"
  shows "log_grows db db'"
proof -
  from assms(2) obtain row db1 where 1: "insert_command row db = Inr db1" and
    rest: "db' = db1 \<or> (\<exists>es db2 t db3. append_events env L (rw_scope w) (next_position db1 (rw_scope w)) es state db1 = Inr (db2, t) \<and>
      insert_receipt (rw_scope w) (rw_key w) (next_position db1 (rw_scope w)) db2 = Inr db3 \<and>
      snapshot_checkpoint env L (rw_scope w) t db3 = Inr db')"
    by (auto simp: admit_new_def and_then_Inr Let_def split: sum.split_asm) blast
  have same: "log_grows db db1"
    using 1 by (intro log_grows_same [OF assms(1)]) (auto simp: insert_command_def split: if_split_asm)
  then have "increasing db1" by (simp add: log_grows_def)
  with rest same append_events_grows insert_receipt_events snapshot_checkpoint_events show ?thesis
    by (metis log_grows_def log_grows_same log_grows_trans)
qed

lemma commit_request_grows:
  assumes "increasing db"
  shows "log_grows db (fst (commit_request env sd vo L w intent authorize materialize db))"
proof -
  have previous: "db' = db" if "answer_previous env sd L w intent state r db = Inr (db', x)" for state r db' x
    using that by (auto simp: answer_previous_def and_then_Inr split: option.split_asm if_split_asm)
  show ?thesis
    unfolding commit_request_def fst_relabel
    by (rule in_tx_grows [OF assms])
      (auto simp: and_then_Inr log_grows_refl [OF assms] split: if_split_asm sum.split_asm option.split_asm
        dest!: previous intro: admit_new_grows [OF assms])
qed

lemma record_facts_grows:
  assumes "codec_laws env" "increasing db"
  shows "log_grows db (fst (admit_record_facts_internal env cj scope key snapshot facts chained claims head db))"
proof -
  have written: "facts_written env scope key fs db db' m \<Longrightarrow> log_grows db db'" for fs db' m
    by (auto simp: log_grows_def extends_def facts_written_def)
  show ?thesis
    by (rule codec_laws.record_facts_cases [OF assms, of cj scope key snapshot facts chained claims head])
      (auto simp: log_grows_refl log_grows_same assms dest: written)
qed

lemma import_grows:
  assumes "codec_laws env" "increasing db"
  shows "log_grows db (fst (import_command_scopes env at a allowed db))"
proof (cases "import_command_scopes env at a allowed db")
  case (Pair db' r)
  show ?thesis
  proof (cases r)
    case (Inl e)
    with Pair have "db' = db" by (auto simp: import_command_scopes_def in_tx_def split: sum.split_asm)
    with Pair show ?thesis by (simp add: log_grows_refl assms)
  next
    case (Inr u)
    with Pair import_committed have ok: "validate_archive a allowed = Inr ()"
      "insert_each (import_scope env at) (ca_scopes a) db = Inr db'" by auto
    with import_scopes_reads [OF assms ok(2) validate_open(2,4) [OF ok(1)]] Pair show ?thesis by simp
  qed
qed

text \<open>An import is among the steps that the reachable stores of the earlier theories are closed under:
  scope by scope it is a foreign step for a lifecycle whose kind it does not carry, and a step of the
  record commands, whose provenance it leaves alone.\<close>

lemma import_scope_other_step:
  assumes "increasing db" "check_scope s = Inr ()" "import_scope env at s db = Inr db'"
    "\<forall>e \<in> set (as_events s). P (as_id s) (fst (snd e))"
  shows "other_step L P db db'"
  using assms(2,3)
proof (cases rule: import_scope_cases)
  case (written rows vacant)
  note rows = archived_rows_scope [OF written(7)]
  have "P (ev_scope r) (ev_kind r)" if "r \<in> set rows" for r
  proof -
    from that have "ev_kind r \<in> set (map ev_kind rows)" by simp
    with rows assms(4) that show ?thesis by auto
  qed
  with written(8,9) show ?thesis by (auto simp: other_step_def)
qed (simp add: other_step_refl assms(1))

lemma import_scope_record_step:
  assumes "check_scope s = Inr ()" "import_scope env at s db = Inr db'"
  shows "db' = db \<or> record_step env db db'"
  using assms
proof (cases rule: import_scope_cases)
  case (written rows vacant)
  have "record_step env db db'"
  proof (rule record_step.other [of _ _ rows "map (receipt_of (as_id s)) (as_receipts s)" "map (set_row (as_id s)) (as_fact_sets s)"
      "map (ref_row (as_id s)) (as_fact_refs s)"])
    show "\<forall>t \<in> set (map (set_row (as_id s)) (as_fact_sets s)). \<forall>r \<in> set (record_command_fact_sets db).
        \<not> (fs_scope r = fs_scope t \<and> fs_key r = fs_key t)"
      using read_vacant(4) [OF written(1-6)] by (auto simp: filter_empty_conv set_row_def)
    show "\<forall>f \<in> set (map (ref_row (as_id s)) (as_fact_refs s)). \<exists>t \<in> set (map (set_row (as_id s)) (as_fact_sets s)).
        fs_scope t = fr_scope f \<and> fs_key t = fr_key f"
      using check_scope_ok(6) [OF assms(1)] by (simp add: set_row_def ref_row_def) (metis imageE)
    show "commands_forward db db'" by (rule commands_forward_append) (simp add: written(9))
  qed (simp_all add: written(8,9))
  then show ?thesis ..
qed simp

section \<open>Properties\<close>



text \<open>An archive whose positions have gaps, with an applied command and its one fact.\<close>

definition sample_archive :: command_scope_archive where
  "sample_archive = \<lparr>ca_protocol = ARCHIVE_PROTOCOL, ca_scopes = [
     \<lparr>as_id = ''s'', as_events = [(3, ''event'', ''x''), (7, ''note'', ''y'')],
      as_commands = [\<lparr>ac_id = ''c1'', ac_key = ''k'', ac_status = ''applied'', ac_snapshot = ''{}'', ac_updated_at = ''t''\<rparr>],
      as_receipts = [(''k'', 7)], as_fact_sets = [(''k'', 1)], as_fact_refs = [(''k'', 0, ''s'', 7)]\<rparr>,
     \<lparr>as_id = ''t'', as_events = [(0, ''note'', ''z'')], as_commands = [], as_receipts = [], as_fact_sets = [],
      as_fact_refs = []\<rparr>]\<rparr>"

definition imported_store :: store where
  "imported_store = fst (import_command_scopes sample_env (\<lambda>_. []) sample_archive (\<lambda>_. True) empty_store)"

lemma imported_increasing: "increasing imported_store"
  using import_grows [OF sample_codec increasing_empty] by (simp add: imported_store_def log_grows_def)



end
