(* ===== verification/Socket_Addr.thy ===== *)
theory Socket_Addr
  imports Prelude
begin

text \<open>
  \<open>str::parse::<SocketAddr>\<close> and \<open>IpAddr::is_loopback\<close> of the standard library, which the relay route
  validation uses to admit a test endpoint. A reader takes a string and answers the value with the
  rest, or nothing; \<open>read_atomically\<close> is that the caller keeps its own string when a reader fails.
\<close>

type_synonym 'a reader = "string \<Rightarrow> ('a \<times> string) option"

definition digit_value :: "int \<Rightarrow> char \<Rightarrow> int option" where
  "digit_value radix c =
     (let n = of_char c :: int;
          d = (if 48 \<le> n \<and> n \<le> 57 then Some (n - 48)
               else if 97 \<le> n \<and> n \<le> 122 then Some (n - 87)
               else if 65 \<le> n \<and> n \<le> 90 then Some (n - 55) else None)
      in case d of Some v \<Rightarrow> if v < radix then Some v else None | None \<Rightarrow> None)"

text \<open>The digits at the head of a string: their value, how many there are, and the rest.\<close>

fun read_digits :: "int \<Rightarrow> int \<Rightarrow> nat \<Rightarrow> string \<Rightarrow> int \<times> nat \<times> string" where
  "read_digits radix value count [] = (value, count, [])"
| "read_digits radix value count (c # cs) =
     (case digit_value radix c of
        None \<Rightarrow> (value, count, c # cs)
      | Some d \<Rightarrow> read_digits radix (value * radix + d) (Suc count) cs)"

text \<open>\<open>read_number\<close>: no digit at all, too many, a forbidden leading zero or a value beyond the type's
  maximum is a failure.\<close>

definition read_number :: "int \<Rightarrow> nat option \<Rightarrow> bool \<Rightarrow> int \<Rightarrow> int reader" where
  "read_number radix max_digits allow_zero_prefix maximum s =
     (case read_digits radix 0 0 s of (value, count, rest) \<Rightarrow>
        if count = 0 \<or> (case max_digits of None \<Rightarrow> False | Some m \<Rightarrow> m < count) \<or>
           (\<not> allow_zero_prefix \<and> take 1 s = ''0'' \<and> 1 < count) \<or> maximum < value
        then None else Some (value, rest))"

definition read_given :: "char \<Rightarrow> unit reader" where
  "read_given c s = (case s of [] \<Rightarrow> None | d # rest \<Rightarrow> if d = c then Some ((), rest) else None)"

definition read_separator :: "char \<Rightarrow> nat \<Rightarrow> 'a reader \<Rightarrow> 'a reader" where
  "read_separator sep index reader s =
     (if 0 < index then (case read_given sep s of None \<Rightarrow> None | Some (_, rest) \<Rightarrow> reader rest) else reader s)"

fun read_octets :: "nat \<Rightarrow> nat \<Rightarrow> int list reader" where
  "read_octets index 0 s = Some ([], s)"
| "read_octets index (Suc n) s =
     (case read_separator (CHR ''.'') index (read_number 10 (Some 3) False 255) s of
        None \<Rightarrow> None
      | Some (octet, rest) \<Rightarrow>
          (case read_octets (Suc index) n rest of
             None \<Rightarrow> None
           | Some (octets, rest') \<Rightarrow> Some (octet # octets, rest')))"

definition read_ipv4_addr :: "int list reader" where
  "read_ipv4_addr = read_octets 0 4"

text \<open>\<open>read_groups\<close>: up to \<open>limit - index\<close> groups, whether a trailing IPv4 address ended them, and the rest.\<close>

fun read_groups :: "nat \<Rightarrow> nat \<Rightarrow> string \<Rightarrow> int list \<times> bool \<times> string" where
  "read_groups index 0 s = ([], False, s)"
| "read_groups index (Suc left) s =
     (case (if 0 < left then read_separator (CHR '':'') index read_ipv4_addr s else None) of
        Some (octets, rest) \<Rightarrow> ([octets ! 0 * 256 + octets ! 1, octets ! 2 * 256 + octets ! 3], True, rest)
      | None \<Rightarrow>
          (case read_separator (CHR '':'') index (read_number 16 (Some 4) True 65535) s of
             None \<Rightarrow> ([], False, s)
           | Some (g, rest) \<Rightarrow>
               (case read_groups (Suc index) left rest of
                  (groups, ipv4, rest') \<Rightarrow> (g # groups, ipv4, rest'))))"

definition read_ipv6_addr :: "int list reader" where
  "read_ipv6_addr s =
     (case read_groups 0 8 s of (head, head_ipv4, rest) \<Rightarrow>
        if length head = 8 then Some (head, rest)
        else if head_ipv4 then None
        else case read_given (CHR '':'') rest of
          None \<Rightarrow> None
        | Some (_, rest1) \<Rightarrow>
            (case read_given (CHR '':'') rest1 of
               None \<Rightarrow> None
             | Some (_, rest2) \<Rightarrow>
                 (case read_groups 0 (8 - (length head + 1)) rest2 of (tail, _, rest3) \<Rightarrow>
                    Some (head @ replicate (8 - length head - length tail) 0 @ tail, rest3))))"

definition read_port :: "int reader" where
  "read_port s = (case read_given (CHR '':'') s of None \<Rightarrow> None | Some (_, rest) \<Rightarrow> read_number 10 None True 65535 rest)"

definition skip_scope_id :: "string \<Rightarrow> string" where
  "skip_scope_id s =
     (case read_given (CHR ''%'') s of
        None \<Rightarrow> s
      | Some (_, rest) \<Rightarrow> (case read_number 10 None True 4294967295 rest of None \<Rightarrow> s | Some (_, rest') \<Rightarrow> rest'))"

datatype ip_addr = V4 "int list" | V6 "int list"

definition read_socket_addr_v4 :: "ip_addr reader" where
  "read_socket_addr_v4 s =
     (case read_ipv4_addr s of
        None \<Rightarrow> None
      | Some (octets, rest) \<Rightarrow> map_option (\<lambda>(_, rest'). (V4 octets, rest')) (read_port rest))"

definition read_socket_addr_v6 :: "ip_addr reader" where
  "read_socket_addr_v6 s =
     (case read_given (CHR ''['') s of
        None \<Rightarrow> None
      | Some (_, rest) \<Rightarrow>
          (case read_ipv6_addr rest of
             None \<Rightarrow> None
           | Some (groups, rest') \<Rightarrow>
               (case read_given (CHR '']'') (skip_scope_id rest') of
                  None \<Rightarrow> None
                | Some (_, rest'') \<Rightarrow> map_option (\<lambda>(_, r). (V6 groups, r)) (read_port rest''))))"

definition parse_socket_addr :: "string \<Rightarrow> ip_addr option" where
  "parse_socket_addr s =
     (case (case read_socket_addr_v4 s of None \<Rightarrow> read_socket_addr_v6 s | r \<Rightarrow> r) of
        Some (address, []) \<Rightarrow> Some address
      | _ \<Rightarrow> None)"

fun is_loopback :: "ip_addr \<Rightarrow> bool" where
  "is_loopback (V4 octets) = (take 1 octets = [127])"
| "is_loopback (V6 groups) = (groups = [0, 0, 0, 0, 0, 0, 0, 1])"

definition loopback_socket :: "string \<Rightarrow> bool" where
  "loopback_socket s = (case parse_socket_addr s of None \<Rightarrow> False | Some address \<Rightarrow> is_loopback address)"

lemma loopback_examples:
  "loopback_socket ''127.0.0.1:9443''" "loopback_socket ''[::1]:80''" "\<not> loopback_socket ''93.184.216.34:443''"
  "\<not> loopback_socket ''127.0.0.01:80''" "\<not> loopback_socket ''127.0.0.1''" "\<not> loopback_socket ''127.0.0.1:65536''"
  by code_simp+

end
