(* ===== verification/Relay_Wire.thy ===== *)
theory Relay_Wire
  imports Socket_Addr
begin

text \<open>
  The portable half of the relay fabric, \<open>crates/relay-transport/src/wire.rs\<close>: route locators, the fixed
  handshake frame, carried data in frames the relay accepts, and the credit a leg reports. The
  base64 and SHA-256 crates are the record \<open>relay_crates\<close>; an \<open>io::Error\<close> is its message.
\<close>

unbundle bit_operations_syntax

type_synonym bytes = "u8 list"
type_synonym 'a io = "string + 'a"

record relay_crates =
  b64_encode :: "bytes \<Rightarrow> string"
  b64_decode :: "string \<Rightarrow> bytes option"
  sha256 :: "bytes \<Rightarrow> bytes"

section \<open>Big-endian integers\<close>

fun be_bytes :: "nat \<Rightarrow> nat \<Rightarrow> bytes" where
  "be_bytes 0 n = []"
| "be_bytes (Suc k) n = be_bytes k (n div 256) @ [word_of_nat (n mod 256)]"

definition from_be :: "bytes \<Rightarrow> nat" where
  "from_be bs = foldl (\<lambda>acc b. acc * 256 + unat b) 0 bs"

lemma length_be_bytes [simp]: "length (be_bytes k n) = k"
  by (induction k arbitrary: n) auto

lemma from_be_bytes: "from_be (be_bytes k n) = n mod 256 ^ k"
proof (induction k arbitrary: n)
  case (Suc k)
  have "unat (word_of_nat (n mod 256) :: u8) = n mod 256" by (simp add: unat_of_nat)
  then have "from_be (be_bytes (Suc k) n) = from_be (be_bytes k (n div 256)) * 256 + n mod 256"
    by (simp add: from_be_def)
  with Suc.IH [of "n div 256"] show ?case by (simp add: mod_mult2_eq [of n 256 "256 ^ k"] ac_simps)
qed (simp add: from_be_def)

definition u64_to_be :: "u64 \<Rightarrow> bytes" where
  "u64_to_be w = be_bytes 8 (unat w)"

definition u64_from_be :: "bytes \<Rightarrow> u64" where
  "u64_from_be bs = word_of_nat (from_be bs)"

definition u32_to_be :: "u32 \<Rightarrow> bytes" where
  "u32_to_be w = be_bytes 4 (unat w)"

definition u32_from_be :: "bytes \<Rightarrow> u32" where
  "u32_from_be bs = word_of_nat (from_be bs)"

lemma be_roundtrip [simp]: "u64_from_be (u64_to_be w) = w" "u32_from_be (u32_to_be v) = v"
proof -
  have "unat w < 2 ^ 64" "unat v < 2 ^ 32" using unsigned_less [of w] unsigned_less [of v] by simp_all
  then show "u64_from_be (u64_to_be w) = w" "u32_from_be (u32_to_be v) = v"
    by (simp_all add: u64_from_be_def u64_to_be_def u32_from_be_def u32_to_be_def from_be_bytes)
qed

lemma length_to_be [simp]: "length (u64_to_be w) = 8" "length (u32_to_be v) = 4"
  by (simp_all add: u64_to_be_def u32_to_be_def)

section \<open>Constants\<close>

definition WSS_PROTOCOL_VERSION :: nat where "WSS_PROTOCOL_VERSION = 1"
definition WSS_MAX_FRAME_BYTES :: nat where "WSS_MAX_FRAME_BYTES = 64 * 1024"
definition WSS_HANDSHAKE_LEN :: nat where "WSS_HANDSHAKE_LEN = 84"
definition WSS_KEEPALIVE_FLAG :: u8 where "WSS_KEEPALIVE_FLAG = 2"
definition WSS_ACCOUNTING_FLAG :: u8 where "WSS_ACCOUNTING_FLAG = 4"
definition WSS_CREDIT_THRESHOLD :: u64 where "WSS_CREDIT_THRESHOLD = 16 * 1024"
definition WSS_HANDSHAKE_MAGIC :: bytes where "WSS_HANDSHAKE_MAGIC = bytes_of (''GWRWSS1'' @ [CHR 0x0A])"
definition WSS_READY :: bytes where "WSS_READY = bytes_of ''GWRREADY''"
definition WSS_DATA :: u8 where "WSS_DATA = 0"
definition WSS_FIN :: u8 where "WSS_FIN = 1"
definition WSS_FIN_ACK :: u8 where "WSS_FIN_ACK = 2"
definition WSS_CREDIT :: u8 where "WSS_CREDIT = 3"
definition WSS_CREDIT_LEN :: nat where "WSS_CREDIT_LEN = 5"

section \<open>Routes\<close>

datatype relay_role = RoleHome | RoleClient | RoleSource | RoleTarget

fun role_byte :: "relay_role \<Rightarrow> u8" where
  "role_byte RoleHome = 1"
| "role_byte RoleClient = 2"
| "role_byte RoleSource = 3"
| "role_byte RoleTarget = 4"

definition is_initializer :: "relay_role \<Rightarrow> bool" where
  "is_initializer r \<longleftrightarrow> r = RoleHome \<or> r = RoleSource"

definition sends_keepalives :: "relay_role \<Rightarrow> bool" where
  "sends_keepalives r \<longleftrightarrow> r = RoleHome \<or> r = RoleClient"

text \<open>A \<open>RouteProof\<close> is its 32 bytes.\<close>

definition proof_from_base64url :: "relay_crates \<Rightarrow> string \<Rightarrow> bytes io" where
  "proof_from_base64url cr value =
     (case b64_decode cr value of
        None \<Rightarrow> Inl ''relay route proof is not base64url''
      | Some bs \<Rightarrow> if length bs = 32 then Inr bs else Inl ''relay route proof must contain 32 bytes'')"

definition proof_to_base64url :: "relay_crates \<Rightarrow> bytes \<Rightarrow> string" where
  "proof_to_base64url cr p = b64_encode cr p"

record relay_route =
  rr_endpoint :: string
  rr_handle :: string
  rr_epoch :: u64
  rr_proof :: bytes
  rr_previous_proof :: "bytes option"

definition strip_prefix :: "string \<Rightarrow> string \<Rightarrow> string option" where
  "strip_prefix p s = (if take (length p) s = p then Some (drop (length p) s) else None)"

fun has_whitespace :: "string \<Rightarrow> bool" where
  "has_whitespace [] = False"
| "has_whitespace (c # cs) = (ws_len (c # cs) \<noteq> 0 \<or> has_whitespace cs)"

definition valid_origin_authority :: "string \<Rightarrow> bool" where
  "valid_origin_authority authority \<longleftrightarrow>
     authority \<noteq> [] \<and> CHR ''/'' \<notin> set authority \<and> CHR ''@'' \<notin> set authority \<and> \<not> has_whitespace authority"

definition endpoint_valid :: "string \<Rightarrow> bool" where
  "endpoint_valid endpoint \<longleftrightarrow>
     ((case strip_prefix ''wss://'' endpoint of None \<Rightarrow> False | Some a \<Rightarrow> valid_origin_authority a) \<or>
      (case strip_prefix ''ws://'' endpoint of None \<Rightarrow> False | Some a \<Rightarrow> loopback_socket a)) \<and>
     \<not> (endpoint \<noteq> [] \<and> last endpoint = CHR ''/'') \<and> CHR ''#'' \<notin> set endpoint \<and> CHR ''?'' \<notin> set endpoint"

definition route_validate :: "relay_crates \<Rightarrow> relay_route \<Rightarrow> unit io" where
  "route_validate cr r =
     (if \<not> endpoint_valid (rr_endpoint r)
      then Inl ''relay endpoint must be a canonical wss:// origin (or a loopback ws:// test origin)''
      else case b64_decode cr (rr_handle r) of
        None \<Rightarrow> Inl ''relay route handle is not base64url''
      | Some h \<Rightarrow>
          if length h \<noteq> 32 then Inl ''relay route handle must contain 32 bytes''
          else if rr_epoch r = 0 then Inl ''relay route epoch must be positive''
          else Inr ())"

definition route_url :: "relay_crates \<Rightarrow> relay_route \<Rightarrow> string io" where
  "route_url cr r = and_then (route_validate cr r) (\<lambda>_. Inr (rr_endpoint r @ ''/v1/relay/'' @ rr_handle r))"

definition one_shot_route :: "relay_crates \<Rightarrow> string \<Rightarrow> bytes \<Rightarrow> relay_route io" where
  "one_shot_route cr endpoint token =
     (let route = \<lparr>rr_endpoint = endpoint, rr_handle = b64_encode cr token, rr_epoch = 1,
            rr_proof = sha256 cr (bytes_of (''gaugewright-relay-proof-v1'' @ [CHR 0x00]) @ token),
            rr_previous_proof = None\<rparr>
      in and_then (route_validate cr route) (\<lambda>_. Inr route))"

section \<open>The handshake\<close>

text \<open>\<open>frame[i..i + n].copy_from_slice(bytes)\<close> for \<open>n\<close> the length of the bytes.\<close>

definition copy_at :: "nat \<Rightarrow> bytes \<Rightarrow> bytes \<Rightarrow> bytes" where
  "copy_at i bs frame = take i frame @ bs @ drop (i + length bs) frame"

definition handshake_flags :: "bool \<Rightarrow> relay_role \<Rightarrow> u8" where
  "handshake_flags rotates role =
     (if rotates then 1 else 0) OR WSS_ACCOUNTING_FLAG OR (if sends_keepalives role then WSS_KEEPALIVE_FLAG else 0)"

definition websocket_handshake :: "relay_crates \<Rightarrow> relay_route \<Rightarrow> relay_role \<Rightarrow> bytes io" where
  "websocket_handshake cr route role =
     and_then (route_validate cr route) (\<lambda>_.
       if \<not> is_initializer role \<and> rr_previous_proof route \<noteq> None
       then Inl ''only an initializer may present a previous route proof''
       else
         let f0 = replicate WSS_HANDSHAKE_LEN 0;
             f1 = copy_at 0 WSS_HANDSHAKE_MAGIC f0;
             f2 = copy_at 8 (be_bytes 2 WSS_PROTOCOL_VERSION) f1;
             f3 = f2[10 := role_byte role];
             f4 = f3[11 := handshake_flags (rr_previous_proof route \<noteq> None) role];
             f5 = copy_at 12 (u64_to_be (rr_epoch route)) f4;
             f6 = copy_at 20 (rr_proof route) f5
         in Inr (case rr_previous_proof route of None \<Rightarrow> f6 | Some p \<Rightarrow> copy_at 52 p f6))"

section \<open>Credit\<close>

text \<open>\<open>CreditMeter\<close>, with \<open>usize\<close> at the 64 bits of the native targets. In a browser (\<open>wasm32\<close>) it has 32
  bits, and the sum of what is owed saturates at \<open>2^32 - 1\<close> instead of \<open>2^64 - 1\<close>.\<close>

record credit_meter =
  cm_owed :: u64

definition credit_frame :: "u32 \<Rightarrow> bytes" where
  "credit_frame consumed = copy_at 1 (u32_to_be consumed) ((replicate WSS_CREDIT_LEN 0)[0 := WSS_CREDIT])"

definition parse_credit :: "bytes \<Rightarrow> u32 option" where
  "parse_credit frame =
     (if length frame = WSS_CREDIT_LEN \<and> frame ! 0 = WSS_CREDIT then Some (u32_from_be (drop 1 frame)) else None)"

definition meter_consumed :: "u64 \<Rightarrow> credit_meter \<Rightarrow> credit_meter" where
  "meter_consumed len m = m\<lparr>cm_owed := saturating_add (cm_owed m) len\<rparr>"

definition take_credit :: "credit_meter \<Rightarrow> bytes option \<times> credit_meter" where
  "take_credit m =
     (if cm_owed m < WSS_CREDIT_THRESHOLD then (None, m)
      else
        let reported = (if cm_owed m \<le> 4294967295 then ucast (cm_owed m) else - 1 :: u32)
        in (Some (credit_frame reported), m\<lparr>cm_owed := cm_owed m - ucast reported\<rparr>))"

section \<open>Frames\<close>

definition data_frame :: "bytes \<Rightarrow> bytes" where
  "data_frame ciphertext = WSS_DATA # ciphertext"

record frame_queue =
  fq_unsent :: bytes

definition queue_push :: "bytes \<Rightarrow> frame_queue \<Rightarrow> frame_queue" where
  "queue_push ciphertext q = q\<lparr>fq_unsent := fq_unsent q @ ciphertext\<rparr>"

definition next_frame :: "frame_queue \<Rightarrow> bytes option \<times> frame_queue" where
  "next_frame q =
     (if fq_unsent q = [] then (None, q)
      else
        let n = min (length (fq_unsent q)) (WSS_MAX_FRAME_BYTES - 1)
        in (Some (WSS_DATA # take n (fq_unsent q)), q\<lparr>fq_unsent := drop n (fq_unsent q)\<rparr>))"

datatype relay_frame = FrameReady | FrameData bytes | FrameFin | FrameFinAck

definition classify_frame :: "bytes \<Rightarrow> relay_frame io" where
  "classify_frame bs =
     (if bs = WSS_READY then Inr FrameReady
      else if bs = [] \<or> WSS_MAX_FRAME_BYTES < length bs then Inl ''relay frame out of bounds''
      else if hd bs = WSS_DATA then Inr (FrameData (tl bs))
      else if hd bs = WSS_FIN then Inr FrameFin
      else if hd bs = WSS_FIN_ACK then Inr FrameFinAck
      else Inl ''relay frame has an unknown kind'')"

section \<open>The certificate pin\<close>

definition fingerprint :: "relay_crates \<Rightarrow> bytes \<Rightarrow> bytes" where
  "fingerprint cr cert = sha256 cr cert"

definition verify_server_cert :: "relay_crates \<Rightarrow> bytes \<Rightarrow> bytes \<Rightarrow> unit io" where
  "verify_server_cert cr expected end_entity =
     (if fingerprint cr end_entity = expected then Inr ()
      else Inl ''Home certificate does not match the route pin'')"

end
