(* ===== verification/Relay_Fabric.thy ===== *)
theory Relay_Fabric
  imports Relay_Wire
begin

text \<open>
  The relay that the crate itself provides, \<open>crates/relay-transport/src/test_relay.rs\<close>, behind the feature that
  the tests of both ends enable: how it reads a handshake, admits it to a route and pairs it with a
  waiting leg. What happens under the lock of \<open>RelayState\<close> is one step here; the sockets are outside. The
  output \<open>Paired\<close> is the choice made under the lock: the waiting leg's socket is handed over after it, and
  when its task has gone in the meantime no bytes are carried. Instants are milliseconds.
\<close>

section \<open>The handshake, read\<close>

datatype relay_family = Durable | OneShot

fun family_of :: "relay_role \<Rightarrow> relay_family" where
  "family_of RoleHome = Durable"
| "family_of RoleClient = Durable"
| "family_of RoleSource = OneShot"
| "family_of RoleTarget = OneShot"

record handshake =
  hs_role :: relay_role
  hs_epoch :: u64
  hs_proof_hash :: bytes
  hs_previous_hash :: "bytes option"

definition parse_role :: "u8 \<Rightarrow> relay_role option" where
  "parse_role b =
     (if b = 1 then Some RoleHome else if b = 2 then Some RoleClient
      else if b = 3 then Some RoleSource else if b = 4 then Some RoleTarget else None)"

definition parse_previous :: "relay_crates \<Rightarrow> relay_role \<Rightarrow> u8 \<Rightarrow> bytes \<Rightarrow> bytes option io" where
  "parse_previous cr role flags previous =
     (case (flags AND 1 \<noteq> 0, previous = replicate 32 0) of
        (False, False) \<Rightarrow> Inl ''unexpected previous route proof''
      | (True, True) \<Rightarrow> Inl ''previous route proof cannot be zero''
      | (True, False) \<Rightarrow>
          if \<not> is_initializer role then Inl ''only an initializer may rotate a route''
          else Inr (Some (sha256 cr previous))
      | (False, True) \<Rightarrow> Inr None)"

definition parse_handshake :: "relay_crates \<Rightarrow> bytes \<Rightarrow> handshake io" where
  "parse_handshake cr bs =
     (if length bs \<noteq> WSS_HANDSHAKE_LEN then Inl ''relay handshake has the wrong size''
      else if take 8 bs \<noteq> WSS_HANDSHAKE_MAGIC then Inl ''relay handshake magic is invalid''
      else if from_be [bs ! 8, bs ! 9] \<noteq> WSS_PROTOCOL_VERSION then Inl ''relay protocol version is unsupported''
      else case parse_role (bs ! 10) of
        None \<Rightarrow> Inl ''unknown relay role''
      | Some role \<Rightarrow>
          if bs ! 11 AND NOT (1 OR WSS_KEEPALIVE_FLAG OR WSS_ACCOUNTING_FLAG) \<noteq> 0
          then Inl ''relay handshake flags are invalid''
          else if u64_from_be (take 8 (drop 12 bs)) = 0 then Inl ''relay route epoch must be positive''
          else if take 32 (drop 20 bs) = replicate 32 0 then Inl ''relay route proof cannot be zero''
          else and_then (parse_previous cr role (bs ! 11) (take 32 (drop 52 bs))) (\<lambda>previous.
            Inr \<lparr>hs_role = role, hs_epoch = u64_from_be (take 8 (drop 12 bs)),
                 hs_proof_hash = sha256 cr (take 32 (drop 20 bs)), hs_previous_hash = previous\<rparr>))"

section \<open>Routes and waiting legs\<close>

record waiting_leg =
  wl_id :: u64
  wl_role :: relay_role
  wl_last_heard :: "nat option"
  wl_started :: nat
  wl_heard_at :: "nat option"

record fabric_route =
  fr_epoch :: u64
  fr_proof_hash :: bytes
  fr_family :: relay_family
  fr_pending :: "waiting_leg list"
  fr_active :: "u64 list"

record relay_state =
  rs_next_id :: u64
  rs_routes :: "string \<rightharpoonup> fabric_route"
  rs_disrupt_one_shot :: bool
  rs_waiting_homes :: nat
  rs_homes_parked :: u64

definition WAIT :: nat where "WAIT = 30000"
definition PARKED_WAIT :: nat where "PARKED_WAIT = 600000"
definition SILENCE :: nat where "SILENCE = 9000"
definition WAITING_CLIENTS :: nat where "WAITING_CLIENTS = 64"

definition relay_default :: "nat \<Rightarrow> relay_state" where
  "relay_default homes = \<lparr>rs_next_id = 0, rs_routes = Map.empty, rs_disrupt_one_shot = False,
     rs_waiting_homes = homes, rs_homes_parked = 0\<rparr>"

definition waiter_expired :: "nat \<Rightarrow> nat option \<Rightarrow> nat \<Rightarrow> bool" where
  "waiter_expired started heard now =
     (case heard of
        Some h \<Rightarrow> PARKED_WAIT \<le> now - started \<or> SILENCE < now - h
      | None \<Rightarrow> WAIT \<le> now - started)"

fun complementary :: "relay_role \<Rightarrow> relay_role \<Rightarrow> bool" where
  "complementary RoleHome RoleClient = True"
| "complementary RoleClient RoleHome = True"
| "complementary RoleSource RoleTarget = True"
| "complementary RoleTarget RoleSource = True"
| "complementary _ _ = False"

fun heard_later :: "nat option \<Rightarrow> nat option \<Rightarrow> bool" where
  "heard_later (Some a) (Some b) = (b < a)"
| "heard_later (Some a) None = True"
| "heard_later None _ = False"

definition select_waiter :: "waiting_leg list \<Rightarrow> relay_role \<Rightarrow> nat \<Rightarrow> nat option \<Rightarrow> nat \<Rightarrow> nat option" where
  "select_waiter pending role now selected index =
     (let leg = pending ! index
      in if waiter_expired (wl_started leg) (wl_heard_at leg) now \<or> \<not> complementary (wl_role leg) role then selected
         else case selected of
           None \<Rightarrow> Some index
         | Some best \<Rightarrow>
             if role = RoleClient \<and> heard_later (wl_last_heard leg) (wl_last_heard (pending ! best))
             then Some index else selected)"

definition pairing_index :: "waiting_leg list \<Rightarrow> relay_role \<Rightarrow> nat \<Rightarrow> nat option" where
  "pairing_index pending role now = foldl (select_waiter pending role now) None [0..<length pending]"

definition new_route :: "handshake \<Rightarrow> fabric_route" where
  "new_route h = \<lparr>fr_epoch = hs_epoch h, fr_proof_hash = hs_proof_hash h, fr_family = family_of (hs_role h),
     fr_pending = [], fr_active = []\<rparr>"

definition admit_known :: "fabric_route \<Rightarrow> handshake \<Rightarrow> fabric_route io" where
  "admit_known route h =
     (if fr_family route \<noteq> family_of (hs_role h) then Inl ''route family does not match''
      else if hs_epoch h < fr_epoch route then Inl ''route epoch is stale''
      else if hs_epoch h = fr_epoch route then
        (if hs_previous_hash h \<noteq> None then Inl ''current epoch cannot present a previous proof''
         else if hs_proof_hash h \<noteq> fr_proof_hash route then Inl ''route proof does not match''
         else Inr route)
      else if \<not> is_initializer (hs_role h) then Inl ''only an initializer may advance a route''
      else if hs_epoch h \<noteq> fr_epoch route + 1 then Inl ''route epoch must advance exactly once''
      else if hs_previous_hash h \<noteq> Some (fr_proof_hash route) then Inl ''route rotation proof does not match''
      else if hs_proof_hash h = fr_proof_hash route then Inl ''route rotation must replace the proof''
      else Inr (route\<lparr>fr_epoch := hs_epoch h, fr_proof_hash := hs_proof_hash h, fr_pending := [], fr_active := []\<rparr>))"

definition relay_admit :: "(string \<rightharpoonup> fabric_route) \<Rightarrow> string \<Rightarrow> handshake \<Rightarrow> fabric_route io" where
  "relay_admit routes handle h =
     (case routes handle of
        None \<Rightarrow>
          if \<not> is_initializer (hs_role h) then Inl ''only an initializer may create a route''
          else if hs_previous_hash h \<noteq> None then Inl ''a new route cannot present a previous proof''
          else Inr (new_route h)
      | Some route \<Rightarrow> admit_known route h)"

section \<open>Steps\<close>

datatype relay_input =
    LegArrives string bytes nat
  | LegHeard string u64 nat
  | LegLeaves string u64
  | PairEnds string u64 u64
  | DisruptOneShot
  | RestoreOneShot

datatype relay_output = Paired u64 u64 | Parked u64 | Refused string | Done

definition handle_valid :: "string \<Rightarrow> bool" where
  "handle_valid handle \<longleftrightarrow> length handle = 43 \<and>
     list_all (\<lambda>c. (CHR ''a'' \<le> c \<and> c \<le> CHR ''z'') \<or> (CHR ''A'' \<le> c \<and> c \<le> CHR ''Z'') \<or>
       (CHR ''0'' \<le> c \<and> c \<le> CHR ''9'') \<or> c = CHR ''_'' \<or> c = CHR ''-'') handle"

definition set_route :: "string \<Rightarrow> fabric_route \<Rightarrow> relay_state \<Rightarrow> relay_state" where
  "set_route handle route s = s\<lparr>rs_routes := (rs_routes s)(handle \<mapsto> route)\<rparr>"

fun update_first :: "('a \<Rightarrow> bool) \<Rightarrow> ('a \<Rightarrow> 'a) \<Rightarrow> 'a list \<Rightarrow> 'a list" where
  "update_first P f [] = []"
| "update_first P f (x # xs) = (if P x then f x # xs else x # update_first P f xs)"

definition remove_at :: "nat \<Rightarrow> 'a list \<Rightarrow> 'a list" where
  "remove_at i xs = take i xs @ drop (Suc i) xs"

definition waiting_limit :: "relay_state \<Rightarrow> relay_role \<Rightarrow> nat" where
  "waiting_limit s role =
     (case role of RoleHome \<Rightarrow> rs_waiting_homes s | RoleClient \<Rightarrow> WAITING_CLIENTS | _ \<Rightarrow> 1)"

definition park_leg :: "relay_state \<Rightarrow> string \<Rightarrow> fabric_route \<Rightarrow> u64 \<Rightarrow> relay_role \<Rightarrow> nat \<Rightarrow> relay_output \<times> relay_state" where
  "park_leg s handle route i role now =
     (let same = length (filter (\<lambda>p. wl_role p = role) (fr_pending route))
      in if fr_family route = OneShot \<and> 0 < same then (Refused ''relay roles are not complementary'', set_route handle route s)
         else if waiting_limit s role \<le> same then (Refused ''relay waiting capacity reached'', set_route handle route s)
         else
           let leg = \<lparr>wl_id = i, wl_role = role, wl_last_heard = None, wl_started = now, wl_heard_at = None\<rparr>;
               s' = set_route handle (route\<lparr>fr_pending := fr_pending route @ [leg]\<rparr>) s
           in (Parked i, if role = RoleHome then s'\<lparr>rs_homes_parked := rs_homes_parked s' + 1\<rparr> else s'))"

definition place_leg :: "relay_state \<Rightarrow> string \<Rightarrow> fabric_route \<Rightarrow> u64 \<Rightarrow> relay_role \<Rightarrow> nat \<Rightarrow> relay_output \<times> relay_state" where
  "place_leg s handle route i role now =
     (case pairing_index (fr_pending route) role now of
        Some index \<Rightarrow>
          (Paired i (wl_id (fr_pending route ! index)),
           set_route handle (route\<lparr>fr_pending := remove_at index (fr_pending route), fr_active := fr_active route @ [i]\<rparr>) s)
      | None \<Rightarrow> park_leg s handle route i role now)"

definition accept_leg :: "relay_crates \<Rightarrow> relay_state \<Rightarrow> string \<Rightarrow> bytes \<Rightarrow> nat \<Rightarrow> relay_output \<times> relay_state" where
  "accept_leg cr s handle bs now =
     (if \<not> handle_valid handle then (Refused ''not found'', s)
      else case parse_handshake cr bs of
        Inl e \<Rightarrow> (Refused e, s)
      | Inr h \<Rightarrow>
          if rs_disrupt_one_shot s \<and> family_of (hs_role h) = OneShot
          then (Refused ''relay one-shot legs are disrupted'', s)
          else
            let i = rs_next_id s; s' = s\<lparr>rs_next_id := i + 1\<rparr>
            in case relay_admit (rs_routes s') handle h of
                 Inl e \<Rightarrow> (Refused e, s')
               | Inr route \<Rightarrow> place_leg s' handle route i (hs_role h) now)"

definition update_route :: "string \<Rightarrow> (fabric_route \<Rightarrow> fabric_route) \<Rightarrow> relay_state \<Rightarrow> relay_state" where
  "update_route handle f s = s\<lparr>rs_routes := (rs_routes s)(handle := map_option f (rs_routes s handle))\<rparr>"

definition leg_heard :: "string \<Rightarrow> u64 \<Rightarrow> nat \<Rightarrow> relay_state \<Rightarrow> relay_state" where
  "leg_heard handle i now = update_route handle (\<lambda>r. r\<lparr>fr_pending := update_first (\<lambda>leg. wl_id leg = i)
     (\<lambda>leg. leg\<lparr>wl_last_heard := Some now, wl_heard_at := Some now\<rparr>) (fr_pending r)\<rparr>)"

definition leg_leaves :: "string \<Rightarrow> u64 \<Rightarrow> relay_state \<Rightarrow> relay_state" where
  "leg_leaves handle i = update_route handle (\<lambda>r. r\<lparr>fr_pending := filter (\<lambda>leg. wl_id leg \<noteq> i) (fr_pending r)\<rparr>)"

definition pair_ends :: "string \<Rightarrow> u64 \<Rightarrow> u64 \<Rightarrow> relay_state \<Rightarrow> relay_state" where
  "pair_ends handle epoch i = update_route handle (\<lambda>r.
     if fr_epoch r = epoch then r\<lparr>fr_active := filter (\<lambda>j. j \<noteq> i) (fr_active r)\<rparr> else r)"

definition disrupt_one_shot :: "relay_state \<Rightarrow> relay_state" where
  "disrupt_one_shot s = s\<lparr>rs_disrupt_one_shot := True,
     rs_routes := (\<lambda>handle. map_option (\<lambda>r. if fr_family r = OneShot then r\<lparr>fr_pending := []\<rparr> else r) (rs_routes s handle))\<rparr>"

definition restore_one_shot :: "relay_state \<Rightarrow> relay_state" where
  "restore_one_shot s = s\<lparr>rs_disrupt_one_shot := False\<rparr>"

lemmas relay_quiet_defs [simp] = leg_heard_def leg_leaves_def pair_ends_def disrupt_one_shot_def restore_one_shot_def

fun relay_step :: "relay_crates \<Rightarrow> relay_state \<Rightarrow> relay_input \<Rightarrow> relay_output \<times> relay_state" where
  "relay_step cr s (LegArrives handle bs now) = accept_leg cr s handle bs now"
| "relay_step cr s (LegHeard handle i now) = (Done, leg_heard handle i now s)"
| "relay_step cr s (LegLeaves handle i) = (Done, leg_leaves handle i s)"
| "relay_step cr s (PairEnds handle epoch i) = (Done, pair_ends handle epoch i s)"
| "relay_step cr s DisruptOneShot = (Done, disrupt_one_shot s)"
| "relay_step cr s RestoreOneShot = (Done, restore_one_shot s)"

end
