(* ===== verification/Relay_Carry.thy ===== *)
theory Relay_Carry
  imports Relay_Fabric
begin

text \<open>
  What the frames of the relay fabric carry: a handshake is read back as it was written, queued bytes
  leave in frames the other side accepts, and reported credit is exactly what was consumed.
\<close>

section \<open>The handshake round trip\<close>

lemma copy_at_append: "length a = i \<Longrightarrow> length b = length bs \<Longrightarrow> copy_at i bs (a @ b @ c) = a @ bs @ c"
  by (simp add: copy_at_def)

lemma length_magic [simp]: "length WSS_HANDSHAKE_MAGIC = 8"
  by (simp add: WSS_HANDSHAKE_MAGIC_def bytes_of_def)

definition handshake_frame :: "relay_route \<Rightarrow> relay_role \<Rightarrow> bytes" where
  "handshake_frame route role =
     WSS_HANDSHAKE_MAGIC @ be_bytes 2 WSS_PROTOCOL_VERSION @
     [role_byte role, handshake_flags (rr_previous_proof route \<noteq> None) role] @
     u64_to_be (rr_epoch route) @ rr_proof route @
     (case rr_previous_proof route of None \<Rightarrow> replicate 32 0 | Some p \<Rightarrow> p)"

definition proofs_sized :: "relay_route \<Rightarrow> bool" where
  "proofs_sized route \<longleftrightarrow> length (rr_proof route) = 32 \<and> (\<forall>p. rr_previous_proof route = Some p \<longrightarrow> length p = 32)"

lemma websocket_handshake_layout:
  assumes "websocket_handshake cr route role = Inr frame" and "proofs_sized route"
  shows "frame = handshake_frame route role"
proof -
  let ?z = "\<lambda>n. replicate n 0 :: bytes"
  let ?ver = "be_bytes 2 WSS_PROTOCOL_VERSION" and ?fl = "handshake_flags (rr_previous_proof route \<noteq> None) role"
    and ?ep = "u64_to_be (rr_epoch route)"
  have zero: "replicate WSS_HANDSHAKE_LEN 0 = [] @ ?z 8 @ ?z 2 @ [0, 0] @ ?z 8 @ ?z 32 @ ?z 32"
    by (simp add: WSS_HANDSHAKE_LEN_def flip: replicate_add) (simp add: numeral_eq_Suc)
  have f1: "copy_at 0 WSS_HANDSHAKE_MAGIC (replicate WSS_HANDSHAKE_LEN 0) =
      WSS_HANDSHAKE_MAGIC @ ?z 2 @ [0, 0] @ ?z 8 @ ?z 32 @ ?z 32"
    unfolding zero by (subst copy_at_append) simp_all
  have f2: "copy_at 8 ?ver (WSS_HANDSHAKE_MAGIC @ ?z 2 @ [0, 0] @ ?z 8 @ ?z 32 @ ?z 32) =
      (WSS_HANDSHAKE_MAGIC @ ?ver) @ [0, 0] @ ?z 8 @ ?z 32 @ ?z 32"
    by (subst copy_at_append) simp_all
  have f4: "((WSS_HANDSHAKE_MAGIC @ ?ver) @ [0, 0] @ rest)[10 := role_byte role, 11 := ?fl] =
      (WSS_HANDSHAKE_MAGIC @ ?ver) @ [role_byte role, ?fl] @ rest" for rest
    by (simp add: list_update_append)
  have f5: "copy_at 12 ?ep ((WSS_HANDSHAKE_MAGIC @ ?ver) @ [role_byte role, ?fl] @ ?z 8 @ ?z 32 @ ?z 32) =
      (WSS_HANDSHAKE_MAGIC @ ?ver @ [role_byte role, ?fl] @ ?ep) @ ?z 32 @ ?z 32"
    using copy_at_append [of "WSS_HANDSHAKE_MAGIC @ ?ver @ [role_byte role, ?fl]" 12 "?z 8" ?ep "?z 32 @ ?z 32"] by simp
  have f6: "copy_at 20 (rr_proof route) ((WSS_HANDSHAKE_MAGIC @ ?ver @ [role_byte role, ?fl] @ ?ep) @ ?z 32 @ ?z 32) =
      (WSS_HANDSHAKE_MAGIC @ ?ver @ [role_byte role, ?fl] @ ?ep @ rr_proof route) @ ?z 32 @ []"
    using assms(2) by (subst copy_at_append) (simp_all add: proofs_sized_def)
  have f7: "copy_at 52 p ((WSS_HANDSHAKE_MAGIC @ ?ver @ [role_byte role, ?fl] @ ?ep @ rr_proof route) @ ?z 32 @ []) =
      WSS_HANDSHAKE_MAGIC @ ?ver @ [role_byte role, ?fl] @ ?ep @ rr_proof route @ p" if "length p = 32" for p
    using assms(2) that by (subst copy_at_append) (simp_all add: proofs_sized_def)
  have "frame = (case rr_previous_proof route of
      None \<Rightarrow> (WSS_HANDSHAKE_MAGIC @ ?ver @ [role_byte role, ?fl] @ ?ep @ rr_proof route) @ ?z 32 @ []
    | Some p \<Rightarrow> copy_at 52 p ((WSS_HANDSHAKE_MAGIC @ ?ver @ [role_byte role, ?fl] @ ?ep @ rr_proof route) @ ?z 32 @ []))"
    using assms(1) unfolding websocket_handshake_def and_then_Inr Let_def f1 f2 f4 f5 f6 by (auto split: if_splits)
  then show ?thesis using assms(2) f7
    by (auto simp: handshake_frame_def proofs_sized_def split: option.split)
qed

lemma version_bytes: "be_bytes 2 WSS_PROTOCOL_VERSION = [0, 1]"
  by (simp add: WSS_PROTOCOL_VERSION_def numeral_2_eq_2)

lemma role_byte_parse [simp]: "parse_role (role_byte role) = Some role"
  by (cases role) (simp_all add: parse_role_def)

lemma flags_ok:
  "handshake_flags rotates role AND NOT (1 OR WSS_KEEPALIVE_FLAG OR WSS_ACCOUNTING_FLAG) = 0"
  "handshake_flags rotates role AND 1 = (if rotates then 1 else 0)"
  by (cases role; cases rotates; simp add: handshake_flags_def WSS_KEEPALIVE_FLAG_def WSS_ACCOUNTING_FLAG_def
      sends_keepalives_def)+

lemma handshake_frame_fields:
  assumes "proofs_sized route"
  shows "length (handshake_frame route role) = WSS_HANDSHAKE_LEN"
    "take 8 (handshake_frame route role) = WSS_HANDSHAKE_MAGIC"
    "handshake_frame route role ! 8 = 0" "handshake_frame route role ! 9 = 1"
    "handshake_frame route role ! 10 = role_byte role"
    "handshake_frame route role ! 11 = handshake_flags (rr_previous_proof route \<noteq> None) role"
    "take 8 (drop 12 (handshake_frame route role)) = u64_to_be (rr_epoch route)"
    "take 32 (drop 20 (handshake_frame route role)) = rr_proof route"
    "take 32 (drop 52 (handshake_frame route role)) = (case rr_previous_proof route of None \<Rightarrow> replicate 32 0 | Some p \<Rightarrow> p)"
  using assms
  by (auto simp: handshake_frame_def version_bytes proofs_sized_def WSS_HANDSHAKE_LEN_def nth_append split: option.splits)

text \<open>
  C23. The relay reads the handshake the leg wrote. For every route and role whose handshake frame the client
  code builds, the relay's parser answers the same role and epoch and the digests of the same
  proofs; the only handshakes it refuses are those with an all-zero proof, which the client's
  validation does not exclude.
\<close>

theorem handshake_roundtrip:
  assumes frame: "websocket_handshake cr route role = Inr frame" and sized: "proofs_sized route"
  shows "parse_handshake cr frame =
    (if rr_proof route = replicate 32 0 then Inl ''relay route proof cannot be zero''
     else if rr_previous_proof route = Some (replicate 32 0) then Inl ''previous route proof cannot be zero''
     else Inr \<lparr>hs_role = role, hs_epoch = rr_epoch route, hs_proof_hash = sha256 cr (rr_proof route),
            hs_previous_hash = map_option (sha256 cr) (rr_previous_proof route)\<rparr>)"
proof -
  have epoch: "rr_epoch route \<noteq> 0" and init: "rr_previous_proof route \<noteq> None \<Longrightarrow> is_initializer role"
    using frame by (auto simp: websocket_handshake_def route_validate_def and_then_Inr split: if_splits option.splits)
  have prev: "parse_previous cr role (handshake_flags (rr_previous_proof route \<noteq> None) role)
      (case rr_previous_proof route of None \<Rightarrow> replicate 32 0 | Some p \<Rightarrow> p) =
    (if rr_previous_proof route = Some (replicate 32 0) then Inl ''previous route proof cannot be zero''
     else Inr (map_option (sha256 cr) (rr_previous_proof route)))"
    using init by (cases "rr_previous_proof route") (simp_all add: parse_previous_def flags_ok)
  have ver: "from_be [0, 1] = WSS_PROTOCOL_VERSION" by (simp add: from_be_def WSS_PROTOCOL_VERSION_def)
  show ?thesis
    unfolding websocket_handshake_layout [OF frame sized] parse_handshake_def handshake_frame_fields [OF sized]
      flags_ok role_byte_parse option.case be_roundtrip prev ver
    using epoch by simp
qed

definition sample_relay_crates :: relay_crates where
  "sample_relay_crates = \<lparr>b64_encode = \<lambda>bs. map (\<lambda>b. char_of (unat b)) bs, b64_decode = \<lambda>s. Some (bytes_of s),
     sha256 = \<lambda>bs. bs\<rparr>"

definition sample_relay_route :: relay_route where
  "sample_relay_route = \<lparr>rr_endpoint = ''wss://relay.example'', rr_handle = replicate 32 (CHR ''h''), rr_epoch = 3,
     rr_proof = replicate 32 9, rr_previous_proof = Some (replicate 32 1)\<rparr>"

theorem handshake_roundtrip_witness:
  "\<exists>frame. websocket_handshake sample_relay_crates sample_relay_route RoleHome = Inr frame \<and> length frame = 84 \<and>
     parse_handshake sample_relay_crates frame = Inr \<lparr>hs_role = RoleHome, hs_epoch = 3,
       hs_proof_hash = replicate 32 9, hs_previous_hash = Some (replicate 32 1)\<rparr>"
proof -
  have sized: "proofs_sized sample_relay_route" by (simp add: proofs_sized_def sample_relay_route_def)
  have "route_validate sample_relay_crates sample_relay_route = Inr ()" by code_simp
  then obtain frame where frame: "websocket_handshake sample_relay_crates sample_relay_route RoleHome = Inr frame"
    by (simp add: websocket_handshake_def is_initializer_def Let_def)
  have "length frame = 84"
    using websocket_handshake_layout [OF frame sized] handshake_frame_fields(1) [OF sized] by (simp add: WSS_HANDSHAKE_LEN_def)
  moreover have "replicate 32 (9 :: u8) \<noteq> replicate 32 0" "replicate 32 (1 :: u8) \<noteq> replicate 32 0"
    by (simp_all add: replicate_eq_replicate)
  ultimately show ?thesis using handshake_roundtrip [OF frame sized] frame
    by (simp add: sample_relay_route_def sample_relay_crates_def)
qed

section \<open>Frames\<close>

datatype queue_call = Push bytes | Next

fun queue_run :: "frame_queue \<Rightarrow> queue_call list \<Rightarrow> bytes list \<times> frame_queue" where
  "queue_run q [] = ([], q)"
| "queue_run q (Push bs # cs) = queue_run (queue_push bs q) cs"
| "queue_run q (Next # cs) =
     (case next_frame q of (out, q') \<Rightarrow>
        (case queue_run q' cs of (outs, q'') \<Rightarrow> (case out of None \<Rightarrow> outs | Some f \<Rightarrow> f # outs, q'')))"

fun pushed :: "queue_call list \<Rightarrow> bytes" where
  "pushed [] = []"
| "pushed (Push bs # cs) = bs @ pushed cs"
| "pushed (Next # cs) = pushed cs"

definition carries :: "bytes \<Rightarrow> bool" where
  "carries f \<longleftrightarrow> (\<exists>bs. bs \<noteq> [] \<and> f = data_frame bs \<and> length f \<le> WSS_MAX_FRAME_BYTES \<and> classify_frame f = Inr (FrameData bs))"

lemma ready_not_data: "WSS_DATA # bs \<noteq> WSS_READY"
  by (simp add: WSS_DATA_def WSS_READY_def bytes_of_def)

lemma next_frame_carries:
  assumes "next_frame q = (Some f, q')"
  shows "carries f" "tl f @ fq_unsent q' = fq_unsent q" "length (fq_unsent q') < length (fq_unsent q)"
proof -
  define n where "n = min (length (fq_unsent q)) (WSS_MAX_FRAME_BYTES - 1)"
  have q: "fq_unsent q \<noteq> []" "f = WSS_DATA # take n (fq_unsent q)" "q' = q\<lparr>fq_unsent := drop n (fq_unsent q)\<rparr>"
    using assms by (auto simp: next_frame_def n_def Let_def split: if_splits)
  have pos: "0 < n" "n < WSS_MAX_FRAME_BYTES" "n \<le> length (fq_unsent q)"
    using q(1) by (auto simp: n_def WSS_MAX_FRAME_BYTES_def)
  then have "classify_frame f = Inr (FrameData (take n (fq_unsent q)))"
    unfolding q(2) by (simp add: classify_frame_def ready_not_data)
  with pos q show "carries f" by (auto simp: carries_def data_frame_def)
  show "tl f @ fq_unsent q' = fq_unsent q" "length (fq_unsent q') < length (fq_unsent q)" using pos q by auto
qed

lemma queue_run_delivers:
  "queue_run q cs = (outs, q') \<Longrightarrow>
     list_all carries outs \<and> concat (map tl outs) @ fq_unsent q' = fq_unsent q @ pushed cs"
proof (induction cs arbitrary: q outs q')
  case (Cons c cs)
  show ?case
  proof (cases c)
    case (Push bs)
    with Cons.IH [of "queue_push bs q" outs q'] Cons.prems show ?thesis by (simp add: queue_push_def)
  next
    case Next
    obtain out q1 where step: "next_frame q = (out, q1)" by (cases "next_frame q")
    obtain outs1 where run: "queue_run q1 cs = (outs1, q')" "outs = (case out of None \<Rightarrow> outs1 | Some f \<Rightarrow> f # outs1)"
      using Cons.prems Next step by (auto split: prod.splits)
    note ih = Cons.IH [OF run(1)]
    show ?thesis
    proof (cases out)
      case None
      with step have "q1 = q" by (simp add: next_frame_def Let_def split: if_splits)
      with ih run(2) None Next show ?thesis by simp
    next
      case (Some f)
      with next_frame_carries [of q f q1] step ih run(2) Next show ?thesis by auto
    qed
  qed
qed simp

text \<open>
  C24. Queued bytes arrive. Whatever is pushed to a frame queue and however the calls interleave, every frame it
  hands out is within the size the relay accepts and the receiving side classifies it as data; the
  payloads in order, followed by what is still queued, are exactly the bytes pushed; and as many calls
  as there are bytes empty the queue.
\<close>

theorem frame_queue_delivers:
  assumes "queue_run \<lparr>fq_unsent = []\<rparr> cs = (outs, q)"
  shows "list_all carries outs \<and> concat (map tl outs) @ fq_unsent q = pushed cs \<and>
    fq_unsent (snd (queue_run q (replicate (length (fq_unsent q)) Next))) = []"
proof -
  have "fq_unsent (snd (queue_run q (replicate n Next))) = []" if "length (fq_unsent q) \<le> n" for n
    using that
  proof (induction n arbitrary: q)
    case (Suc n)
    obtain out q1 where step: "next_frame q = (out, q1)" by (cases "next_frame q")
    have "length (fq_unsent q1) \<le> n"
    proof (cases out)
      case None
      with step have "fq_unsent q1 = []" by (auto simp: next_frame_def Let_def split: if_splits)
      then show ?thesis by simp
    next
      case (Some f)
      with next_frame_carries(3) [of q f q1] step Suc.prems show ?thesis by simp
    qed
    from Suc.IH [OF this] step show ?case by (auto split: prod.split)
  qed simp
  with queue_run_delivers [OF assms] show ?thesis by simp
qed

theorem frame_queue_delivers_witness:
  "fst (queue_run \<lparr>fq_unsent = []\<rparr> [Push [7], Push [8, 9], Next, Next]) = [[0, 7, 8, 9]] \<and>
   list_all carries (fst (queue_run \<lparr>fq_unsent = []\<rparr> [Push [7], Push [8, 9], Next, Next]))"
proof -
  let ?cs = "[Push [7], Push [8, 9], Next, Next]"
  have "queue_run \<lparr>fq_unsent = []\<rparr> ?cs = ([[0, 7, 8, 9]], \<lparr>fq_unsent = []\<rparr>)"
    by (simp add: queue_push_def next_frame_def WSS_MAX_FRAME_BYTES_def WSS_DATA_def)
  from frame_queue_delivers [OF this] this show ?thesis by simp
qed

section \<open>Credit\<close>

datatype meter_call = Consume u64 | Report

fun meter_run :: "credit_meter \<Rightarrow> meter_call list \<Rightarrow> bytes list \<times> credit_meter" where
  "meter_run m [] = ([], m)"
| "meter_run m (Consume n # cs) = meter_run (meter_consumed n m) cs"
| "meter_run m (Report # cs) =
     (case take_credit m of (out, m') \<Rightarrow>
        (case meter_run m' cs of (outs, m'') \<Rightarrow> (case out of None \<Rightarrow> outs | Some f \<Rightarrow> f # outs, m'')))"

fun consumed_bytes :: "meter_call list \<Rightarrow> nat" where
  "consumed_bytes [] = 0"
| "consumed_bytes (Consume n # cs) = unat n + consumed_bytes cs"
| "consumed_bytes (Report # cs) = consumed_bytes cs"

definition credit_of :: "bytes \<Rightarrow> nat" where
  "credit_of f = (case parse_credit f of None \<Rightarrow> 0 | Some r \<Rightarrow> unat r)"

lemma credit_frame_layout: "credit_frame r = WSS_CREDIT # u32_to_be r"
proof -
  have "replicate WSS_CREDIT_LEN 0 = [0, 0, 0, 0, 0 :: u8]"
    by (simp add: WSS_CREDIT_LEN_def numeral_eq_Suc)
  then show ?thesis by (simp add: credit_frame_def copy_at_def)
qed

lemma credit_of_frame [simp]: "credit_of (credit_frame r) = unat r"
  by (simp add: credit_of_def parse_credit_def credit_frame_layout WSS_CREDIT_LEN_def)

lemma take_credit_exact:
  assumes "take_credit m = (Some f, m')"
  shows "credit_of f + unat (cm_owed m') = unat (cm_owed m)" "unat WSS_CREDIT_THRESHOLD \<le> credit_of f"
proof -
  define r :: u32 where "r = (if cm_owed m \<le> 4294967295 then ucast (cm_owed m) else - 1)"
  have step: "WSS_CREDIT_THRESHOLD \<le> cm_owed m" "f = credit_frame r" "m' = m\<lparr>cm_owed := cm_owed m - ucast r\<rparr>"
    using assms by (auto simp: take_credit_def r_def Let_def split: if_splits)
  have r: "unat r = min (unat (cm_owed m)) 4294967295"
    by (auto simp: r_def word_le_nat_alt unsigned_minus_1_eq_mask mask_eq_exp_minus_1 unsigned_ucast_eq
        take_bit_eq_mod min_def)
  then have le: "(ucast r :: u64) \<le> cm_owed m" by (simp add: word_le_nat_alt unsigned_ucast_eq take_bit_eq_mod)
  have up: "unat (ucast r :: u64) = unat r" using r by (simp add: unsigned_ucast_eq take_bit_eq_mod)
  show "credit_of f + unat (cm_owed m') = unat (cm_owed m)"
    using le up r by (simp add: step unat_sub)
  show "unat WSS_CREDIT_THRESHOLD \<le> credit_of f"
    using step(1) r by (simp add: step(2) word_le_nat_alt WSS_CREDIT_THRESHOLD_def)
qed

lemma meter_run_exact:
  assumes "meter_run m cs = (outs, m')" and "unat (cm_owed m) + consumed_bytes cs < 2 ^ 64"
  shows "sum_list (map credit_of outs) + unat (cm_owed m') = unat (cm_owed m) + consumed_bytes cs \<and>
    list_all (\<lambda>f. unat WSS_CREDIT_THRESHOLD \<le> credit_of f) outs"
  using assms
proof (induction cs arbitrary: m outs m')
  case (Cons c cs)
  show ?case
  proof (cases c)
    case (Consume n)
    have "checked_add (cm_owed m) n = Some (cm_owed m + n)"
      using Cons.prems(2) Consume by (simp add: checked_add_def)
    from checked_add_Some [OF this] this have "unat (cm_owed (meter_consumed n m)) = unat (cm_owed m) + unat n"
      by (simp add: meter_consumed_def saturating_add_def)
    with Cons.IH [of "meter_consumed n m" outs m'] Cons.prems Consume show ?thesis by simp
  next
    case Report
    obtain out m1 where step: "take_credit m = (out, m1)" by (cases "take_credit m")
    obtain outs1 where run: "meter_run m1 cs = (outs1, m')" "outs = (case out of None \<Rightarrow> outs1 | Some f \<Rightarrow> f # outs1)"
      using Cons.prems Report step by (auto split: prod.splits)
    show ?thesis
    proof (cases out)
      case None
      with step have "m1 = m" by (simp add: take_credit_def Let_def split: if_splits)
      with Cons.IH [OF run(1)] Cons.prems(2) run(2) None Report show ?thesis by simp
    next
      case (Some f)
      note exact = take_credit_exact [of m f m1, OF step [unfolded Some]]
      with Cons.IH [OF run(1)] Cons.prems(2) run(2) Some Report show ?thesis by simp
    qed
  qed
qed simp

text \<open>
  C25. Consumption is reported exactly. Below \<open>2^64\<close> consumed bytes, however consumption and reports
  interleave, the counts the relay reads out of the credit frames plus what the meter still owes are
  exactly the bytes consumed; every frame reports at least the threshold, and a meter that has
  nothing to report owes less than the threshold.
\<close>

theorem credit_exact:
  assumes "meter_run \<lparr>cm_owed = 0\<rparr> cs = (outs, m)" and "consumed_bytes cs < 2 ^ 64"
  shows "sum_list (map credit_of outs) + unat (cm_owed m) = consumed_bytes cs \<and>
    list_all (\<lambda>f. unat WSS_CREDIT_THRESHOLD \<le> credit_of f) outs \<and>
    (fst (take_credit m) = None \<longleftrightarrow> cm_owed m < WSS_CREDIT_THRESHOLD)"
proof -
  have "fst (take_credit m) = None \<longleftrightarrow> cm_owed m < WSS_CREDIT_THRESHOLD"
    by (simp add: take_credit_def Let_def)
  with meter_run_exact [OF assms(1)] assms(2) show ?thesis by simp
qed

theorem credit_exact_witness:
  "\<exists>outs m. meter_run \<lparr>cm_owed = 0\<rparr> [Consume 16000, Report, Consume 1000, Report, Consume 5] = (outs, m) \<and>
     outs = [credit_frame 17000] \<and> cm_owed m = 5 \<and> sum_list (map credit_of outs) + unat (cm_owed m) = 17005"
proof -
  let ?cs = "[Consume 16000, Report, Consume 1000, Report, Consume 5]"
  have run: "meter_run \<lparr>cm_owed = 0\<rparr> ?cs = ([credit_frame 17000], \<lparr>cm_owed = 5\<rparr>)"
    by (simp add: meter_consumed_def saturating_add_def checked_add_def take_credit_def WSS_CREDIT_THRESHOLD_def)
  moreover have "consumed_bytes ?cs = 17005" by simp
  ultimately show ?thesis using credit_exact [OF run] by simp
qed

end
