(* ===== verification/Relay_Pairing.thy ===== *)
theory Relay_Pairing
  imports Relay_Carry "HOL-Library.Sublist"
begin

text \<open>
  Which legs the relay joins. The runs of the relay are an inductive relation over its steps that keeps
  the history of inputs and outputs; its invariant ties every waiting leg to the arrival that parked
  it, and from it follow what a pair is and how a route rotates.
\<close>

section \<open>Runs\<close>

inductive relay_reach :: "relay_crates \<Rightarrow> nat \<Rightarrow> (relay_input \<times> relay_output) list \<Rightarrow> relay_state \<Rightarrow> bool" where
  reach_start: "relay_reach cr homes [] (relay_default homes)"
| reach_step: "relay_reach cr homes hist s \<Longrightarrow> relay_step cr s x = (out, s') \<Longrightarrow> relay_reach cr homes (hist @ [(x, out)]) s'"

inductive_cases relay_reach_snoc: "relay_reach cr homes (hist @ [(x, out)]) s"

fun paired_ids :: "relay_output \<Rightarrow> u64 list" where
  "paired_ids (Paired i j) = [i, j]"
| "paired_ids _ = []"

definition joined :: "(relay_input \<times> relay_output) list \<Rightarrow> u64 list" where
  "joined hist = concat (map (\<lambda>e. paired_ids (snd e)) hist)"

text \<open>An arrival of the history parked this leg on this route.\<close>

definition parked_by :: "relay_crates \<Rightarrow> (relay_input \<times> relay_output) list \<Rightarrow> string \<Rightarrow> u64 \<Rightarrow> bytes \<Rightarrow> u64 \<Rightarrow> relay_role \<Rightarrow> bool" where
  "parked_by cr hist handle epoch proof i role \<longleftrightarrow>
     (\<exists>bs now h. (LegArrives handle bs now, Parked i) \<in> set hist \<and> parse_handshake cr bs = Inr h \<and>
        hs_role h = role \<and> hs_epoch h = epoch \<and> hs_proof_hash h = proof)"

lemma parked_by_mono: "parked_by cr hist handle e p i role \<Longrightarrow> parked_by cr (hist @ hist') handle e p i role"
  by (auto simp: parked_by_def)

section \<open>The waiter that is chosen\<close>

definition may_pair :: "waiting_leg list \<Rightarrow> relay_role \<Rightarrow> nat \<Rightarrow> nat \<Rightarrow> bool" where
  "may_pair pending role now i \<longleftrightarrow> i < length pending \<and> complementary (wl_role (pending ! i)) role \<and>
     \<not> waiter_expired (wl_started (pending ! i)) (wl_heard_at (pending ! i)) now"

definition best_so_far :: "waiting_leg list \<Rightarrow> relay_role \<Rightarrow> nat \<Rightarrow> nat \<Rightarrow> nat option \<Rightarrow> bool" where
  "best_so_far pending role now n sel =
     (case sel of
        None \<Rightarrow> \<forall>k<n. \<not> may_pair pending role now k
      | Some b \<Rightarrow> b < n \<and> may_pair pending role now b \<and>
          (\<forall>k<n. may_pair pending role now k \<longrightarrow> (if role = RoleClient
             then \<not> heard_later (wl_last_heard (pending ! k)) (wl_last_heard (pending ! b)) \<and>
               (k < b \<longrightarrow> heard_later (wl_last_heard (pending ! b)) (wl_last_heard (pending ! k)))
             else b \<le> k)))"

lemma heard_later_order:
  "heard_later a b \<Longrightarrow> \<not> heard_later c b \<Longrightarrow> heard_later a c"
  "heard_later a b \<Longrightarrow> \<not> heard_later c b \<Longrightarrow> \<not> heard_later c a" "\<not> heard_later a a"
  by (cases a; cases b; cases c; simp)+

lemma select_waiter_best:
  assumes "best_so_far pending role now n sel" and "n < length pending"
  shows "best_so_far pending role now (Suc n) (select_waiter pending role now sel n)"
proof (cases "may_pair pending role now n")
  case False
  then have "select_waiter pending role now sel n = sel"
    using assms(2) by (auto simp: select_waiter_def may_pair_def Let_def)
  with False assms(1) show ?thesis by (auto simp: best_so_far_def less_Suc_eq split: option.splits)
next
  case True
  then have fit: "\<not> (waiter_expired (wl_started (pending ! n)) (wl_heard_at (pending ! n)) now \<or>
      \<not> complementary (wl_role (pending ! n)) role)" by (simp add: may_pair_def)
  show ?thesis
  proof (cases sel)
    case None
    with fit True assms(1) show ?thesis
      by (auto simp: best_so_far_def select_waiter_def Let_def less_Suc_eq heard_later_order(3))
  next
    case (Some b)
    show ?thesis
    proof (cases "role = RoleClient \<and> heard_later (wl_last_heard (pending ! n)) (wl_last_heard (pending ! b))")
      case True
      then have sel: "select_waiter pending role now sel n = Some n" using fit Some by (simp add: select_waiter_def Let_def)
      show ?thesis unfolding sel using \<open>may_pair pending role now n\<close> True assms(1) Some
        by (auto simp: best_so_far_def less_Suc_eq heard_later_order(3)
            dest: heard_later_order(1,2) [of "wl_last_heard (pending ! n)" "wl_last_heard (pending ! b)"])
    next
      case False
      then have sel: "select_waiter pending role now sel n = Some b" using fit Some by (auto simp: select_waiter_def Let_def)
      show ?thesis unfolding sel using False assms(1) Some
        by (auto simp: best_so_far_def less_Suc_eq)
    qed
  qed
qed

lemma pairing_index_best: "best_so_far pending role now (length pending) (pairing_index pending role now)"
proof -
  have "best_so_far pending role now n (foldl (select_waiter pending role now) None [0..<n])" if "n \<le> length pending" for n
    using that by (induction n) (simp_all add: best_so_far_def [of _ _ _ 0] select_waiter_best)
  then show ?thesis by (simp add: pairing_index_def)
qed

section \<open>What an arrival does\<close>

definition admitted_route :: "relay_state \<Rightarrow> string \<Rightarrow> handshake \<Rightarrow> fabric_route \<Rightarrow> bool" where
  "admitted_route s handle h route \<longleftrightarrow> relay_admit (rs_routes s) handle h = Inr route \<and>
     fr_epoch route = hs_epoch h \<and> fr_proof_hash route = hs_proof_hash h \<and>
     (fr_pending route = [] \<or> rs_routes s handle = Some route)"

lemma relay_admit_route: "relay_admit (rs_routes s) handle h = Inr route \<Longrightarrow> admitted_route s handle h route"
  by (auto simp: admitted_route_def relay_admit_def admit_known_def new_route_def split: option.splits if_splits)

lemma place_leg_cases:
  assumes "place_leg s handle route i role now = (out, s')"
  obtains (paired) k where "may_pair (fr_pending route) role now k" "out = Paired i (wl_id (fr_pending route ! k))"
      "rs_routes s' = (rs_routes s)(handle \<mapsto> route\<lparr>fr_pending := remove_at k (fr_pending route), fr_active := fr_active route @ [i]\<rparr>)"
      "rs_next_id s' = rs_next_id s"
  | (parked) leg where "out = Parked i" "wl_id leg = i" "wl_role leg = role"
      "rs_routes s' = (rs_routes s)(handle \<mapsto> route\<lparr>fr_pending := fr_pending route @ [leg]\<rparr>)" "rs_next_id s' = rs_next_id s"
  | (full) e where "out = Refused e" "rs_routes s' = (rs_routes s)(handle \<mapsto> route)" "rs_next_id s' = rs_next_id s"
proof (cases "pairing_index (fr_pending route) role now")
  case (Some k)
  then have "may_pair (fr_pending route) role now k"
    using pairing_index_best [of "fr_pending route" role now] by (simp add: best_so_far_def)
  with Some assms show ?thesis by (intro paired) (auto simp: place_leg_def set_route_def)
next
  case None
  with assms have park: "park_leg s handle route i role now = (out, s')" by (simp add: place_leg_def)
  show ?thesis
  proof (cases out)
    case (Parked j)
    with park show ?thesis
      by (intro parked [of "\<lparr>wl_id = i, wl_role = role, wl_last_heard = None, wl_started = now, wl_heard_at = None\<rparr>"])
        (auto simp: park_leg_def set_route_def Let_def split: if_splits)
  next
    case (Refused e)
    with park show ?thesis by (intro full) (auto simp: park_leg_def set_route_def Let_def split: if_splits)
  qed (use park in \<open>auto simp: park_leg_def Let_def split: if_splits\<close>)
qed

lemma accept_leg_cases:
  assumes "accept_leg cr s handle bs now = (out, s')"
  obtains (refused) e where "out = Refused e" "rs_routes s' = rs_routes s" "rs_next_id s' = rs_next_id s \<or> rs_next_id s' = rs_next_id s + 1"
  | (placed) h route where "parse_handshake cr bs = Inr h" "admitted_route s handle h route"
      "place_leg (s\<lparr>rs_next_id := rs_next_id s + 1\<rparr>) handle route (rs_next_id s) (hs_role h) now = (out, s')"
proof (cases "handle_valid handle")
  case False
  with assms show ?thesis by (intro refused) (auto simp: accept_leg_def)
next
  case True
  show ?thesis
  proof (cases "parse_handshake cr bs")
    case (Inl e)
    with assms True show ?thesis by (intro refused) (auto simp: accept_leg_def)
  next
    case (Inr h)
    show ?thesis
    proof (cases "rs_disrupt_one_shot s \<and> family_of (hs_role h) = OneShot")
      case True
      with assms Inr \<open>handle_valid handle\<close> show ?thesis by (intro refused) (auto simp: accept_leg_def)
    next
      case admits: False
      show ?thesis
      proof (cases "relay_admit (rs_routes s) handle h")
        case (Inl e)
        with assms Inr True admits show ?thesis by (intro refused) (auto simp: accept_leg_def Let_def)
      next
        case (Inr route)
        with assms \<open>parse_handshake cr bs = Inr h\<close> True admits relay_admit_route [OF Inr] show ?thesis
          by (intro placed) (auto simp: accept_leg_def Let_def)
      qed
    qed
  qed
qed

section \<open>Waiting legs were parked\<close>

definition tied :: "relay_crates \<Rightarrow> (relay_input \<times> relay_output) list \<Rightarrow> string \<Rightarrow> fabric_route \<Rightarrow> bool" where
  "tied cr hist handle r \<longleftrightarrow>
     (\<forall>leg\<in>set (fr_pending r). parked_by cr hist handle (fr_epoch r) (fr_proof_hash r) (wl_id leg) (wl_role leg))"

definition all_tied :: "relay_crates \<Rightarrow> (relay_input \<times> relay_output) list \<Rightarrow> relay_state \<Rightarrow> bool" where
  "all_tied cr hist s \<longleftrightarrow> (\<forall>handle r. rs_routes s handle = Some r \<longrightarrow> tied cr hist handle r)"

lemma tied_sub:
  assumes "tied cr hist handle r" and "fr_epoch r' = fr_epoch r" and "fr_proof_hash r' = fr_proof_hash r"
    and "(\<lambda>leg. (wl_id leg, wl_role leg)) ` set (fr_pending r') \<subseteq> (\<lambda>leg. (wl_id leg, wl_role leg)) ` set (fr_pending r)"
  shows "tied cr (hist @ hist') handle r'"
  unfolding tied_def
proof
  fix leg assume "leg \<in> set (fr_pending r')"
  then obtain old where "old \<in> set (fr_pending r)" "wl_id leg = wl_id old" "wl_role leg = wl_role old" using assms(4) by auto
  with assms(1-3) show "parked_by cr (hist @ hist') handle (fr_epoch r') (fr_proof_hash r') (wl_id leg) (wl_role leg)"
    by (simp add: tied_def parked_by_mono)
qed

lemma set_update_first:
  "(\<And>x. g (f x) = g x) \<Longrightarrow> g ` set (update_first P f xs) = g ` set xs"
  by (induction xs) auto

lemma map_update_first: "(\<And>x. g (f x) = g x) \<Longrightarrow> map g (update_first P f xs) = map g xs"
  by (induction xs) auto

lemma set_remove_at: "set (remove_at k xs) \<subseteq> set xs"
  by (auto simp: remove_at_def dest: in_set_takeD in_set_dropD)

lemma tied_refl: "tied cr hist handle r \<Longrightarrow> tied cr (hist @ hist') handle r"
  by (rule tied_sub) auto

lemma subseq_set: "subseq xs ys \<Longrightarrow> set xs \<subseteq> set ys"
  by (induction rule: list_emb.induct) auto

lemma subseq_distinct_keep: "subseq xs ys \<Longrightarrow> distinct ys \<Longrightarrow> distinct xs"
  by (induction rule: list_emb.induct) (auto dest: subseq_set)

text \<open>A step that only drops or marks waiting legs.\<close>

definition thinned :: "fabric_route \<Rightarrow> fabric_route \<Rightarrow> bool" where
  "thinned r r' \<longleftrightarrow> fr_epoch r' = fr_epoch r \<and> fr_proof_hash r' = fr_proof_hash r \<and>
     subseq (map (\<lambda>leg. (wl_id leg, wl_role leg)) (fr_pending r')) (map (\<lambda>leg. (wl_id leg, wl_role leg)) (fr_pending r))"

definition quiet :: "relay_state \<Rightarrow> relay_state \<Rightarrow> bool" where
  "quiet s s' \<longleftrightarrow> rs_next_id s' = rs_next_id s \<and>
     (\<forall>handle r'. rs_routes s' handle = Some r' \<longrightarrow> (\<exists>r. rs_routes s handle = Some r \<and> thinned r r'))"

lemma thinned_refl [simp]: "thinned r r"
  by (simp add: thinned_def)

lemma subseq_map_filter: "subseq (map f (filter P xs)) (map f xs)"
  by (intro subseq_map subseq_filter_left)

lemma quiet_update_route: "(\<And>r. thinned r (f r)) \<Longrightarrow> quiet s (update_route handle f s)"
  by (auto simp: quiet_def update_route_def split: if_splits)

lemma relay_step_quiet:
  assumes "relay_step cr s x = (out, s')" and "\<And>handle bs now. x \<noteq> LegArrives handle bs now"
  shows "out = Done \<and> quiet s s'"
proof (cases x)
  case (LegHeard handle i now)
  with assms show ?thesis
    by (auto intro!: quiet_update_route simp: thinned_def map_update_first)
next
  case (LegLeaves handle i)
  with assms show ?thesis by (auto intro!: quiet_update_route simp: thinned_def subseq_map_filter)
next
  case (PairEnds handle epoch i)
  with assms show ?thesis by (auto intro!: quiet_update_route simp: thinned_def)
next
  case DisruptOneShot
  with assms show ?thesis by (auto simp: quiet_def thinned_def)
next
  case RestoreOneShot
  with assms show ?thesis by (auto simp: quiet_def)
qed (use assms in auto)

lemma tied_thinned: "tied cr hist handle r \<Longrightarrow> thinned r r' \<Longrightarrow> tied cr (hist @ hist') handle r'"
  using subseq_set by (intro tied_sub [of cr hist handle r]) (fastforce simp: thinned_def)+

lemma all_tied_step:
  assumes inv: "all_tied cr hist s" and step: "relay_step cr s x = (out, s')"
  shows "all_tied cr (hist @ [(x, out)]) s'"
proof (cases "\<exists>handle bs now. x = LegArrives handle bs now")
  case False
  then have "quiet s s'" using relay_step_quiet [OF step] by blast
  with inv tied_thinned show ?thesis unfolding all_tied_def quiet_def by blast
next
  case True
  then obtain handle bs now where x: "x = LegArrives handle bs now" by blast
  then have arrival: "accept_leg cr s handle bs now = (out, s')" using step by simp
  have old: "tied cr (hist @ [(x, out)]) h r" if "rs_routes s h = Some r" for h r
    using inv that by (simp add: all_tied_def tied_refl)
  from arrival show ?thesis
  proof (cases rule: accept_leg_cases)
    case (refused e)
    with old show ?thesis by (simp add: all_tied_def)
  next
    case (placed h route)
    have "fr_pending route = [] \<or> rs_routes s handle = Some route" using placed(2) by (simp add: admitted_route_def)
    then have tied: "tied cr (hist @ [(x, out)]) handle route"
    proof
      assume "fr_pending route = []"
      then show ?thesis by (simp add: tied_def)
    qed (rule old)
    note here = tied placed(2) [unfolded admitted_route_def]
    from placed(3) show ?thesis
    proof (cases rule: place_leg_cases)
      case (paired k)
      with here(1) set_remove_at [of k "fr_pending route"] old show ?thesis
        by (auto simp: all_tied_def tied_def)
    next
      case (parked leg)
      have "parked_by cr (hist @ [(x, out)]) handle (fr_epoch route) (fr_proof_hash route) (wl_id leg) (wl_role leg)"
        using here placed(1) parked(1-3) x by (auto simp: parked_by_def)
      with here(1) parked old show ?thesis by (auto simp: all_tied_def tied_def)
    next
      case (full e)
      with here(1) old show ?thesis by (auto simp: all_tied_def)
    qed
  qed
qed

lemma reach_tied: "relay_reach cr homes hist s \<Longrightarrow> all_tied cr hist s"
  by (induction rule: relay_reach.induct) (simp_all add: all_tied_step, simp add: all_tied_def relay_default_def)

section \<open>Identities are used once\<close>

definition waiting_ids :: "relay_state \<Rightarrow> string \<Rightarrow> u64 list" where
  "waiting_ids s handle = (case rs_routes s handle of None \<Rightarrow> [] | Some r \<Rightarrow> map wl_id (fr_pending r))"

definition ids_ok :: "nat \<Rightarrow> (string \<Rightarrow> u64 list) \<Rightarrow> u64 list \<Rightarrow> bool" where
  "ids_ok n w used \<longleftrightarrow> distinct used \<and> (\<forall>i\<in>set used. unat i < n) \<and>
     (\<forall>h. distinct (w h) \<and> (\<forall>i\<in>set (w h). unat i < n \<and> i \<notin> set used)) \<and>
     (\<forall>a b. a \<noteq> b \<longrightarrow> set (w a) \<inter> set (w b) = {})"

lemma ids_ok_sub:
  assumes "ids_ok n w used" and "n \<le> n'" and "\<And>h. subseq (w' h) (w h)"
  shows "ids_ok n' w' used"
proof -
  have "set (w' h) \<subseteq> set (w h)" "distinct (w h) \<Longrightarrow> distinct (w' h)" for h
    using assms(3) [of h] subseq_distinct_keep by (simp_all add: subseq_set)
  with assms(1,2) show ?thesis unfolding ids_ok_def by (meson disjoint_iff less_le_trans subsetD)
qed

lemma ids_ok_park:
  assumes "ids_ok n w used" and "unat i = n"
  shows "ids_ok (Suc n) (w(h := w h @ [i])) used"
  using assms unfolding ids_ok_def by (auto simp: less_Suc_eq)

lemma remove_at_split:
  assumes "k < length xs"
  shows "xs = take k xs @ xs ! k # drop (Suc k) xs"
  using assms by (simp add: id_take_nth_drop)

lemma distinct_remove_at:
  assumes "distinct xs" and "k < length xs"
  shows "distinct (remove_at k xs)" "xs ! k \<notin> set (remove_at k xs)"
proof -
  have "distinct (take k xs @ xs ! k # drop (Suc k) xs)" using assms remove_at_split [OF assms(2)] by simp
  then show "distinct (remove_at k xs)" "xs ! k \<notin> set (remove_at k xs)" by (auto simp: remove_at_def)
qed

lemma ids_ok_pair:
  assumes ok: "ids_ok n w used" and i: "unat i = n" and k: "k < length (w h)"
  shows "ids_ok (Suc n) (w(h := remove_at k (w h))) (used @ [i, w h ! k])"
proof -
  let ?w = "w(h := remove_at k (w h))" and ?j = "w h ! k"
  have j: "?j \<in> set (w h)" using k by simp
  have dist: "distinct (w h)" using ok by (simp add: ids_ok_def)
  have sub: "set (?w a) \<subseteq> set (w a)" for a using set_remove_at [of k "w h"] by simp
  have less: "unat x < n" "x \<notin> set used" if "x \<in> set (w a)" for a x using ok that by (simp_all add: ids_ok_def)
  have used: "distinct used" "unat x < n" if "x \<in> set used" for x using ok that by (simp_all add: ids_ok_def)
  have "i \<notin> set used" "i \<noteq> ?j" using used(2) less(1) [OF j] i by auto
  then have "distinct (used @ [i, ?j])" using ok less(2) [OF j] by (simp add: ids_ok_def)
  moreover have "\<forall>x\<in>set (used @ [i, ?j]). unat x < Suc n"
    using used(2) less(1) [OF j] i by (auto simp: less_Suc_eq)
  moreover have "distinct (?w a)" for a using ok distinct_remove_at [OF dist k] by (simp add: ids_ok_def)
  moreover have "unat x < Suc n \<and> x \<notin> set (used @ [i, ?j])" if x: "x \<in> set (?w a)" for a x
  proof -
    have xa: "x \<in> set (w a)" using x sub by blast
    have "x \<noteq> ?j"
    proof (cases "a = h")
      case True
      with x distinct_remove_at(2) [OF dist k] show ?thesis by auto
    next
      case False
      then have "set (w a) \<inter> set (w h) = {}" using ok by (simp add: ids_ok_def)
      with xa j show ?thesis by blast
    qed
    moreover have "x \<noteq> i" using less(1) [OF xa] i by auto
    ultimately show ?thesis using less [OF xa] by simp
  qed
  moreover have "set (?w a) \<inter> set (?w b) = {}" if "a \<noteq> b" for a b
  proof -
    have "set (w a) \<inter> set (w b) = {}" using ok that by (simp add: ids_ok_def)
    with sub [of a] sub [of b] show ?thesis by blast
  qed
  ultimately show ?thesis unfolding ids_ok_def by blast
qed

definition relay_ids :: "(relay_input \<times> relay_output) list \<Rightarrow> relay_state \<Rightarrow> bool" where
  "relay_ids hist s \<longleftrightarrow> unat (rs_next_id s) \<le> length hist \<and> ids_ok (unat (rs_next_id s)) (waiting_ids s) (joined hist)"

lemma joined_snoc [simp]: "joined (hist @ [(x, out)]) = joined hist @ paired_ids out"
  by (simp add: joined_def)

lemma quiet_waiting: "quiet s s' \<Longrightarrow> subseq (waiting_ids s' h) (waiting_ids s h)"
proof -
  assume quiet: "quiet s s'"
  show ?thesis
  proof (cases "rs_routes s' h")
    case (Some r')
    with quiet obtain r where "rs_routes s h = Some r" "thinned r r'" by (auto simp: quiet_def)
    moreover from this(2) have "subseq (map fst (map (\<lambda>leg. (wl_id leg, wl_role leg)) (fr_pending r')))
        (map fst (map (\<lambda>leg. (wl_id leg, wl_role leg)) (fr_pending r)))"
      unfolding thinned_def by (blast intro: subseq_map)
    ultimately show ?thesis using Some by (simp add: waiting_ids_def comp_def)
  qed (simp add: waiting_ids_def)
qed

lemma next_id_unat:
  assumes "unat (i :: u64) \<le> n" and "Suc n < 2 ^ 64"
  shows "unat (i + 1) = Suc (unat i)"
  using assms by (simp add: unat_word_ariths)

lemma map_remove_at: "map f (remove_at k xs) = remove_at k (map f xs)"
  by (simp add: remove_at_def take_map drop_map)

lemma relay_ids_placed:
  assumes ids: "ids_ok n (waiting_ids s) used" and i: "unat (rs_next_id s) = n" "unat (rs_next_id s + 1) = Suc n"
    and route: "admitted_route s handle h route"
    and place: "place_leg (s\<lparr>rs_next_id := rs_next_id s + 1\<rparr>) handle route (rs_next_id s) role now = (out, s')"
  shows "unat (rs_next_id s') = Suc n \<and> ids_ok (Suc n) (waiting_ids s') (used @ paired_ids out)"
proof -
  define w where "w = (waiting_ids s)(handle := map wl_id (fr_pending route))"
  have "subseq (w a) (waiting_ids s a)" for a
    using route by (auto simp: w_def admitted_route_def waiting_ids_def)
  then have ok: "ids_ok n w used" by (rule ids_ok_sub [OF ids order_refl])
  from place show ?thesis
  proof (cases rule: place_leg_cases)
    case (paired k)
    have "waiting_ids s' = w(handle := remove_at k (w handle))"
      using paired(3) by (auto simp: waiting_ids_def w_def map_remove_at)
    moreover have "k < length (w handle)" using paired(1) by (simp add: may_pair_def w_def)
    ultimately show ?thesis using ids_ok_pair [OF ok i(1), of k handle] paired i(2)
      by (simp add: may_pair_def w_def)
  next
    case (parked leg)
    have "waiting_ids s' = w(handle := w handle @ [rs_next_id s])"
      using parked by (auto simp: waiting_ids_def w_def)
    with ids_ok_park [OF ok i(1), of handle] parked i(2) show ?thesis by simp
  next
    case (full e)
    have "waiting_ids s' = w" using full(2) by (auto simp: waiting_ids_def w_def)
    with ids_ok_sub [OF ok, of "Suc n" w] full i(2) show ?thesis by simp
  qed
qed

lemma relay_ids_step:
  assumes inv: "relay_ids hist s" and step: "relay_step cr s x = (out, s')" and few: "length (hist @ [(x, out)]) < 2 ^ 64"
  shows "relay_ids (hist @ [(x, out)]) s'"
proof -
  have n: "unat (rs_next_id s) \<le> length hist" and ok: "ids_ok (unat (rs_next_id s)) (waiting_ids s) (joined hist)"
    using inv by (simp_all add: relay_ids_def)
  have succ: "unat (rs_next_id s + 1) = Suc (unat (rs_next_id s))" using next_id_unat [OF n] few by simp
  show ?thesis
  proof (cases "\<exists>handle bs now. x = LegArrives handle bs now")
    case False
    then have quiet: "quiet s s'" and "out = Done" using relay_step_quiet [OF step] by blast+
    moreover have "ids_ok (unat (rs_next_id s)) (waiting_ids s') (joined hist)"
      by (rule ids_ok_sub [OF ok order_refl quiet_waiting [OF quiet]])
    ultimately show ?thesis using n by (simp add: relay_ids_def quiet_def)
  next
    case True
    then obtain handle bs now where "accept_leg cr s handle bs now = (out, s')" using step by auto
    then show ?thesis
    proof (cases rule: accept_leg_cases)
      case (refused e)
      have "waiting_ids s' = waiting_ids s" using refused(2) by (auto simp: waiting_ids_def)
      with refused n succ ids_ok_sub [OF ok, of "Suc (unat (rs_next_id s))" "waiting_ids s"] ok show ?thesis
        by (auto simp: relay_ids_def)
    next
      case (placed h route)
      from relay_ids_placed [OF ok refl succ placed(2,3)] n show ?thesis by (simp add: relay_ids_def)
    qed
  qed
qed

lemma reach_ids: "relay_reach cr homes hist s \<Longrightarrow> length hist < 2 ^ 64 \<Longrightarrow> relay_ids hist s"
proof (induction rule: relay_reach.induct)
  case (reach_start cr homes)
  show ?case by (simp add: relay_ids_def ids_ok_def relay_default_def joined_def waiting_ids_def)
next
  case (reach_step cr homes hist s x out s')
  then show ?case using relay_ids_step [of hist s cr x out s'] by simp
qed

section \<open>What a pair is\<close>

lemma step_pair:
  assumes tied: "all_tied cr hist s" and step: "relay_step cr s x = (Paired i j, s')"
  shows "\<exists>handle bs now h role. x = LegArrives handle bs now \<and> parse_handshake cr bs = Inr h \<and>
    complementary role (hs_role h) \<and> parked_by cr hist handle (hs_epoch h) (hs_proof_hash h) j role"
proof -
  obtain handle bs now where x: "x = LegArrives handle bs now"
    using relay_step_quiet [OF step] by (cases x) auto
  with step have "accept_leg cr s handle bs now = (Paired i j, s')" by simp
  then show ?thesis
  proof (cases rule: accept_leg_cases)
    case (placed h route)
    from placed(3) show ?thesis
    proof (cases rule: place_leg_cases)
      case (paired k)
      let ?leg = "fr_pending route ! k"
      have leg: "?leg \<in> set (fr_pending route)" "complementary (wl_role ?leg) (hs_role h)" "j = wl_id ?leg"
        using paired(1,2) by (auto simp: may_pair_def)
      then have "rs_routes s handle = Some route" using placed(2) by (auto simp: admitted_route_def)
      then have "tied cr hist handle route" using tied by (simp add: all_tied_def)
      with leg placed(2) have "parked_by cr hist handle (hs_epoch h) (hs_proof_hash h) j (wl_role ?leg)"
        by (auto simp: tied_def admitted_route_def)
      with x placed(1) leg(2) show ?thesis by blast
    qed simp_all
  qed simp
qed

lemma reach_prefix:
  assumes "relay_reach cr homes hist s" and "n < length hist"
  shows "\<exists>s1 s2. relay_reach cr homes (take n hist) s1 \<and> relay_step cr s1 (fst (hist ! n)) = (snd (hist ! n), s2)"
  using assms
proof (induction rule: relay_reach.induct)
  case (reach_step cr homes hist s x out s')
  show ?case
  proof (cases "n < length hist")
    case True
    with reach_step.IH show ?thesis by (simp add: nth_append)
  next
    case False
    with reach_step.prems have "n = length hist" by simp
    with reach_step.hyps show ?thesis by auto
  qed
qed simp

text \<open>
  C22. The relay joins only legs that belong together, and each leg at most once. In every run of fewer than \<open>2^64\<close>
  steps, a leg is joined to another only when its handshake parses, the other was parked by an earlier
  arrival on the same route handle, and the two handshakes present the same epoch and the same proof
  digest in complementary roles; and no leg identity occurs in two pairs or twice in one.
\<close>

theorem relay_pairs_sound:
  assumes reach: "relay_reach cr homes hist s" and few: "length hist < 2 ^ 64"
  shows "distinct (joined hist) \<and>
    (\<forall>n i j. n < length hist \<and> snd (hist ! n) = Paired i j \<longrightarrow>
      (\<exists>handle bs now h role. fst (hist ! n) = LegArrives handle bs now \<and> parse_handshake cr bs = Inr h \<and>
        complementary role (hs_role h) \<and> parked_by cr (take n hist) handle (hs_epoch h) (hs_proof_hash h) j role))"
proof -
  have "distinct (joined hist)" using reach_ids [OF reach few] by (simp add: relay_ids_def ids_ok_def)
  moreover have "\<exists>handle bs now h role. fst (hist ! n) = LegArrives handle bs now \<and> parse_handshake cr bs = Inr h \<and>
      complementary role (hs_role h) \<and> parked_by cr (take n hist) handle (hs_epoch h) (hs_proof_hash h) j role"
    if n: "n < length hist" and out: "snd (hist ! n) = Paired i j" for n i j
  proof -
    obtain s1 s2 where "relay_reach cr homes (take n hist) s1" "relay_step cr s1 (fst (hist ! n)) = (Paired i j, s2)"
      using reach_prefix [OF reach n] out by auto
    then show ?thesis using step_pair [OF reach_tied] by blast
  qed
  ultimately show ?thesis by blast
qed

definition sample_legs :: "relay_input list" where
  "sample_legs =
     [LegArrives (replicate 43 (CHR ''h'')) (handshake_frame (sample_relay_route\<lparr>rr_previous_proof := None\<rparr>) RoleHome) 5,
      LegArrives (replicate 43 (CHR ''h'')) (handshake_frame (sample_relay_route\<lparr>rr_previous_proof := None\<rparr>) RoleClient) 9]"

theorem relay_pairs_sound_witness:
  "\<exists>hist s. relay_reach sample_relay_crates 1 hist s \<and> map snd hist = [Parked 0, Paired 1 0] \<and> distinct (joined hist) \<and>
     parked_by sample_relay_crates (take 1 hist) (replicate 43 (CHR ''h'')) 3 (replicate 32 9) 0 RoleHome"
proof -
  let ?cr = sample_relay_crates and ?a = "sample_legs ! 0" and ?b = "sample_legs ! 1"
  define s1 where "s1 = snd (relay_step ?cr (relay_default 1) ?a)"
  define s2 where "s2 = snd (relay_step ?cr s1 ?b)"
  have "fst (relay_step ?cr (relay_default 1) ?a) = Parked 0" by code_simp
  then have "relay_step ?cr (relay_default 1) ?a = (Parked 0, s1)" by (simp add: s1_def prod_eq_iff)
  from reach_step [OF reach_start this] have one: "relay_reach ?cr 1 [(?a, Parked 0)] s1" by simp
  have "fst (relay_step ?cr (snd (relay_step ?cr (relay_default 1) ?a)) ?b) = Paired 1 0" by code_simp
  then have "relay_step ?cr s1 ?b = (Paired 1 0, s2)" unfolding s1_def [symmetric] by (simp add: s2_def prod_eq_iff)
  from reach_step [OF one this] have two: "relay_reach ?cr 1 [(?a, Parked 0), (?b, Paired 1 0)] s2" by simp
  let ?hist = "[(?a, Parked 0), (?b, Paired 1 0)]"
  have b: "?b = LegArrives (replicate 43 (CHR ''h'')) (handshake_frame (sample_relay_route\<lparr>rr_previous_proof := None\<rparr>) RoleClient) 9"
    by (simp add: sample_legs_def)
  have h: "parse_handshake ?cr (handshake_frame (sample_relay_route\<lparr>rr_previous_proof := None\<rparr>) RoleClient) =
      Inr \<lparr>hs_role = RoleClient, hs_epoch = 3, hs_proof_hash = replicate 32 9, hs_previous_hash = None\<rparr>" by code_simp
  have home: "complementary role RoleClient \<longleftrightarrow> role = RoleHome" for role by (cases role) simp_all
  have "length ?hist < 2 ^ 64" by simp
  note sound = relay_pairs_sound [OF two this]
  have "1 < length ?hist \<and> snd (?hist ! 1) = Paired 1 0" by simp
  with sound obtain handle bs now p role where "fst (?hist ! 1) = LegArrives handle bs now" "parse_handshake ?cr bs = Inr p"
      "complementary role (hs_role p)" and parked: "parked_by ?cr (take 1 ?hist) handle (hs_epoch p) (hs_proof_hash p) 0 role"
    by blast
  moreover from this(1) have "handle = replicate 43 (CHR ''h'')"
      "bs = handshake_frame (sample_relay_route\<lparr>rr_previous_proof := None\<rparr>) RoleClient"
    unfolding b by (simp_all del: replicate.simps)
  ultimately have "p = \<lparr>hs_role = RoleClient, hs_epoch = 3, hs_proof_hash = replicate 32 9, hs_previous_hash = None\<rparr>"
      "role = RoleHome" "handle = replicate 43 (CHR ''h'')"
    using h home by simp_all
  with parked sound have "distinct (joined ?hist) \<and> parked_by ?cr (take 1 ?hist) (replicate 43 (CHR ''h'')) 3 (replicate 32 9) 0 RoleHome"
    by simp
  with two show ?thesis by (intro exI [of _ ?hist] exI [of _ s2]) simp
qed

section \<open>How a route rotates\<close>

text \<open>The route of a handle after a step is the old one, or it was created or advanced by the arriving leg.\<close>

definition route_kept :: "fabric_route \<Rightarrow> fabric_route \<Rightarrow> bool" where
  "route_kept r r' \<longleftrightarrow> fr_epoch r' = fr_epoch r \<and> fr_proof_hash r' = fr_proof_hash r \<and> fr_family r' = fr_family r"

definition route_rotated :: "handshake \<Rightarrow> fabric_route \<Rightarrow> fabric_route \<Rightarrow> bool" where
  "route_rotated h r r' \<longleftrightarrow> is_initializer (hs_role h) \<and> unat (fr_epoch r') = unat (fr_epoch r) + 1 \<and>
     hs_previous_hash h = Some (fr_proof_hash r) \<and> fr_proof_hash r' = hs_proof_hash h \<and>
     fr_proof_hash r' \<noteq> fr_proof_hash r \<and> fr_family r' = fr_family r"

lemma admit_known_rotates:
  assumes "admit_known r h = Inr r'"
  shows "r' = r \<or> (route_rotated h r r' \<and> fr_pending r' = [] \<and> fr_active r' = [])"
proof (cases "hs_epoch h \<le> fr_epoch r")
  case True
  with assms show ?thesis by (auto simp: admit_known_def split: if_splits)
next
  case False
  then have less: "fr_epoch r < hs_epoch h" by simp
  with assms have step: "hs_epoch h = fr_epoch r + 1" "is_initializer (hs_role h)" "hs_previous_hash h = Some (fr_proof_hash r)"
      "hs_proof_hash h \<noteq> fr_proof_hash r"
      "r' = r\<lparr>fr_epoch := hs_epoch h, fr_proof_hash := hs_proof_hash h, fr_pending := [], fr_active := []\<rparr>"
    by (auto simp: admit_known_def split: if_splits)
  have "unat (fr_epoch r + 1) = unat (fr_epoch r) + 1"
    using less step(1) by (auto simp: word_less_nat_alt unat_word_ariths mod_Suc split: if_splits)
  with step show ?thesis by (simp add: route_rotated_def)
qed

lemma relay_admit_rotates:
  assumes "relay_admit (rs_routes s) handle h = Inr r'" and "rs_routes s handle = Some r"
  shows "route_kept r r' \<or> route_rotated h r r' \<and> fr_pending r' = []"
  using assms admit_known_rotates [of r h r'] by (auto simp: relay_admit_def route_kept_def)

lemma place_leg_route:
  assumes "place_leg s handle route i role now = (out, s')"
  shows "\<exists>r'. rs_routes s' = (rs_routes s)(handle \<mapsto> r') \<and> route_kept route r'"
  using assms by (cases rule: place_leg_cases) (auto simp: route_kept_def)

text \<open>A route can only change its epoch or proof by an arriving handshake that shows the current one.\<close>

lemma relay_step_route:
  assumes step: "relay_step cr s x = (out, s')" and r: "rs_routes s handle = Some r"
  shows "\<exists>r'. rs_routes s' handle = Some r' \<and>
    (route_kept r r' \<or>
     (\<exists>bs now h. x = LegArrives handle bs now \<and> parse_handshake cr bs = Inr h \<and> route_rotated h r r'))"
proof (cases "\<exists>a bs now. x = LegArrives a bs now")
  case False
  then have "\<exists>r'. rs_routes s' handle = Some r' \<and> route_kept r r'"
  proof (cases x)
    case (PairEnds a e i)
    then have "rs_routes s' handle = Some (if handle = a \<and> fr_epoch r = e
        then r\<lparr>fr_active := filter (\<lambda>j. j \<noteq> i) (fr_active r)\<rparr> else r)"
      using step r by (auto simp: update_route_def)
    then show ?thesis by (simp add: route_kept_def)
  next
    case DisruptOneShot
    with step r show ?thesis by (cases "fr_family r = OneShot") (auto simp: route_kept_def)
  qed (use False step r in \<open>auto simp: update_route_def route_kept_def\<close>)
  then show ?thesis by blast
next
  case True
  then obtain a bs now where x: "x = LegArrives a bs now" by blast
  with step have "accept_leg cr s a bs now = (out, s')" by simp
  then show ?thesis
  proof (cases rule: accept_leg_cases)
    case (refused e)
    with r show ?thesis by (simp add: route_kept_def)
  next
    case (placed h route)
    obtain r' where r': "rs_routes s' = (rs_routes s)(a \<mapsto> r')" "route_kept route r'"
      using place_leg_route [OF placed(3)] by auto
    show ?thesis
    proof (cases "a = handle")
      case True
      with placed(2) relay_admit_rotates [OF _ r, of h route] have "route_kept r route \<or> route_rotated h r route"
        by (auto simp: admitted_route_def)
      then have "route_kept r r' \<or> route_rotated h r r'" using r'(2) by (auto simp: route_kept_def route_rotated_def)
      with True x placed(1) r'(1) show ?thesis by auto
    next
      case False
      with r r'(1) show ?thesis by (simp add: route_kept_def)
    qed
  qed
qed

end
